(* ===== verification/Prelude.thy ===== *)
theory Prelude
  imports Complex_Main "HOL-Library.Word" "HOL-Library.Monad_Syntax"
begin

text \<open>
  Shared vocabulary of the development: the C integer types, arrays with an explicit
  out-of-bounds failure (\<open>None\<close>), the list functions the ring buffers refine to, and the
  lemma collections the component proofs use.

  Collections: \<open>arr_simps\<close> evaluates checked array accesses, \<open>inv_defs\<close> holds the
  definitions of the components' invariants.
\<close>

named_theorems arr_simps "evaluation of checked array accesses"
named_theorems inv_defs "definitions of the component invariants"

section \<open>Machine integers\<close>

text \<open>
  \<open>guint\<close> and \<open>guint32\<close> are 32-bit unsigned and wrap; \<open>guint64\<close> is 64-bit unsigned.
  \<open>gint64\<close> is \<open>int\<close>: signed overflow is undefined in C, so the model speaks of the
  executions in which it does not happen, and \<open>in_gint64\<close> names the range where the
  representation matters. \<open>gsize\<close> values are \<open>nat\<close>.
\<close>

type_synonym guint = "32 word"
type_synonym guint64 = "64 word"
type_synonym gint64 = int
type_synonym byte = "8 word"

definition in_gint64 :: "gint64 \<Rightarrow> bool" where
  "in_gint64 t \<longleftrightarrow> - (2 ^ 63) \<le> t \<and> t < 2 ^ 63"

text \<open>Unsigned remainder; the zero divisor is undefined behaviour, here \<open>None\<close>.\<close>

definition guint_mod :: "guint \<Rightarrow> guint \<Rightarrow> guint option" where
  "guint_mod a b = (if b = 0 then None else Some (a mod b))"

definition guint_div :: "guint \<Rightarrow> guint \<Rightarrow> guint option" where
  "guint_div a b = (if b = 0 then None else Some (a div b))"

lemma guint_mod_Some [arr_simps]: "0 < unat b \<Longrightarrow> guint_mod a b = Some (a mod b)"
  by (auto simp: guint_mod_def)

lemma guint_div_Some [arr_simps]: "0 < unat b \<Longrightarrow> guint_div a b = Some (a div b)"
  by (auto simp: guint_div_def)

lemma unat_inject: "unat a = unat b \<longleftrightarrow> a = b"
  by (auto intro: unsigned_word_eqI)

lemma unat_guint: "unat (w :: guint) < 2 ^ 32"
  using unsigned_less [of w] by simp

lemma unat_guint64: "unat (w :: guint64) < 2 ^ 64"
  using unsigned_less [of w] by simp

lemma unat_add_small: "unat (a :: guint) + unat b < 2 ^ 32 \<Longrightarrow> unat (a + b) = unat a + unat b"
  by (simp add: unat_word_ariths)

lemma unat_Suc_small: "unat (a :: guint) + 1 < 2 ^ 32 \<Longrightarrow> unat (a + 1) = unat a + 1"
  by (simp add: unat_word_ariths)

lemma unat_sub_small: "unat (b :: guint) \<le> unat a \<Longrightarrow> unat (a - b) = unat a - unat b"
  by (metis unat_sub word_le_nat_alt)

section \<open>Arrays with checked access\<close>

text \<open>
  An array is a list of its allocated cells. Reading or writing outside it is undefined
  behaviour in C; here it is \<open>None\<close>, so a lemma that an operation returns \<open>Some\<close> says
  that it stays inside its buffers.
\<close>

definition arr_get :: "'a list \<Rightarrow> nat \<Rightarrow> 'a option" where
  "arr_get xs i = (if i < length xs then Some (xs ! i) else None)"

definition arr_set :: "nat \<Rightarrow> 'a \<Rightarrow> 'a list \<Rightarrow> 'a list option" where
  "arr_set i x xs = (if i < length xs then Some (xs[i := x]) else None)"

text \<open>\<open>memcpy\<close> out of a buffer and into a buffer at an element offset.\<close>

definition mem_get :: "nat \<Rightarrow> nat \<Rightarrow> 'a list \<Rightarrow> 'a list option" where
  "mem_get off len src = (if off + len \<le> length src then Some (take len (drop off src)) else None)"

definition mem_put :: "nat \<Rightarrow> 'a list \<Rightarrow> 'a list \<Rightarrow> 'a list option" where
  "mem_put off src dst =
     (if off + length src \<le> length dst
      then Some (take off dst @ src @ drop (off + length src) dst) else None)"

lemma arr_get_Some [arr_simps]: "i < length xs \<Longrightarrow> arr_get xs i = Some (xs ! i)"
  by (simp add: arr_get_def)

lemma arr_set_Some [arr_simps]: "i < length xs \<Longrightarrow> arr_set i x xs = Some (xs[i := x])"
  by (simp add: arr_set_def)

lemma mem_get_Some [arr_simps]:
  "off + len \<le> length src \<Longrightarrow> mem_get off len src = Some (take len (drop off src))"
  by (simp add: mem_get_def)

lemma mem_put_Some [arr_simps]:
  "off + length src \<le> length dst \<Longrightarrow>
     mem_put off src dst = Some (take off dst @ src @ drop (off + length src) dst)"
  by (simp add: mem_put_def)

text \<open>Row \<open>s\<close> of a row-major array of rows of width \<open>n\<close>.\<close>

definition row_at :: "nat \<Rightarrow> 'a list \<Rightarrow> nat \<Rightarrow> 'a list" where
  "row_at n d s = take n (drop (s * n) d)"

lemma length_row_at [simp]: "s * n + n \<le> length d \<Longrightarrow> length (row_at n d s) = n"
  by (simp add: row_at_def)

lemma row_offset: "s < c \<Longrightarrow> s * n + n \<le> c * (n :: nat)"
  by (metis Suc_leI add.commute mult_Suc mult_le_mono1)

lemma row_at_put_same:
  "length r = n \<Longrightarrow> s * n + n \<le> length d \<Longrightarrow>
     row_at n (take (s * n) d @ r @ drop (s * n + n) d) s = r"
  by (simp add: row_at_def)

lemma row_at_put_other:
  assumes "length r = n" "s * n + n \<le> length d" "s' \<noteq> s"
  shows "row_at n (take (s * n) d @ r @ drop (s * n + n) d) s' = row_at n d s'"
proof (cases "s' < s")
  case True
  then have "s' * n + n \<le> s * n" by (rule row_offset)
  with assms show ?thesis
    by (simp add: row_at_def min_def) (simp add: drop_take take_take min_def)
next
  case False
  with assms(3) have "s < s'" by simp
  then have le: "s * n + n \<le> s' * n" by (rule row_offset)
  then have "s * n + n + (s' * n - (s * n + n)) = s' * n" by simp
  moreover have "drop (s' * n) (take (s * n) d) = []" using le by simp
  moreover have "drop (s' * n - s * n) r = []" using le assms(1) by simp
  moreover have "min (length d) (s * n) = s * n" using assms(2) by simp
  ultimately show ?thesis using le assms(1) by (simp add: row_at_def)
qed

section \<open>Bounded logs\<close>

text \<open>The last \<open>k\<close> elements of a list: what a ring buffer of capacity \<open>k\<close> keeps.\<close>

definition lastn :: "nat \<Rightarrow> 'a list \<Rightarrow> 'a list" where
  "lastn k xs = drop (length xs - k) xs"

lemma length_lastn [simp]: "length (lastn k xs) = min k (length xs)"
  by (simp add: lastn_def)

lemma lastn_id [simp]: "length xs \<le> k \<Longrightarrow> lastn k xs = xs"
  by (simp add: lastn_def)

lemma lastn_Nil [simp]: "lastn k [] = []"
  by (simp add: lastn_def)

lemma set_lastn: "set (lastn k xs) \<subseteq> set xs"
  by (simp add: lastn_def set_drop_subset)

lemma lastn_append_lastn: "lastn k (lastn k xs @ ys) = lastn k (xs @ ys)"
proof (cases "length xs \<le> k")
  case True
  then show ?thesis by simp
next
  case False
  then have "length xs + length ys - (length xs - k + k) + (length xs - k) = length xs + length ys - k"
    by simp
  with False show ?thesis by (simp add: lastn_def)
qed

lemma lastn_snoc: "0 < k \<Longrightarrow> lastn k (xs @ [x]) = lastn (k - 1) xs @ [x]"
  by (auto simp: lastn_def not_le Suc_diff_le)

lemma sorted_wrt_lastn: "sorted_wrt P xs \<Longrightarrow> sorted_wrt P (lastn k xs)"
  by (simp add: lastn_def sorted_wrt_drop)

text \<open>
  What a ring with write position \<open>h\<close> and \<open>c\<close> live slots holds, oldest first. The start
  is computed as the code does: \<open>(head + capacity - count) % capacity\<close>.
\<close>

definition ring_start :: "nat \<Rightarrow> nat \<Rightarrow> nat \<Rightarrow> nat" where
  "ring_start cap h c = (h + cap - c) mod cap"

definition ring_list :: "nat \<Rightarrow> nat \<Rightarrow> nat \<Rightarrow> (nat \<Rightarrow> 'a) \<Rightarrow> 'a list" where
  "ring_list cap h c f = map (\<lambda>i. f ((ring_start cap h c + i) mod cap)) [0..<c]"

lemma length_ring_list [simp]: "length (ring_list cap h c f) = c"
  by (simp add: ring_list_def)

lemma ring_list_nth:
  "i < c \<Longrightarrow> ring_list cap h c f ! i = f ((ring_start cap h c + i) mod cap)"
  by (simp add: ring_list_def)

lemma ring_list_cong:
  "0 < cap \<Longrightarrow> (\<And>s. s < cap \<Longrightarrow> f s = g s) \<Longrightarrow> ring_list cap h c f = ring_list cap h c g"
  by (simp add: ring_list_def)

lemma ring_start_slot:
  assumes "h < cap" "c \<le> cap" "i < c"
  shows "(ring_start cap h c + i) mod cap = (h + cap - c + i) mod cap"
  by (simp add: ring_start_def mod_simps)

text \<open>The write position is not among the live slots unless the ring is full.\<close>

lemma ring_slot_neq_head:
  fixes h cap c i :: nat
  assumes "h < cap" "c \<le> cap" "i < c" "c < cap \<or> 0 < i"
  shows "(h + cap - c + i) mod cap \<noteq> h"
proof
  assume eq: "(h + cap - c + i) mod cap = h"
  show False
  proof (cases "h + cap - c + i < cap")
    case True
    then have "(h + cap - c + i) mod cap = h + cap - c + i" by (rule mod_less)
    with eq assms show False by linarith
  next
    case False
    with assms have "(h + cap - c + i) mod cap = h + cap - c + i - cap"
      by (subst le_mod_geq) auto
    with eq assms False show False by auto
  qed
qed

lemma ring_list_push:
  assumes h: "h < cap" and c: "c \<le> cap"
  shows "ring_list cap ((h + 1) mod cap) (if c < cap then c + 1 else c) (f(h := x))
           = lastn cap (ring_list cap h c f @ [x])"
proof (cases "c < cap")
  case True
  have start: "ring_start cap ((h + 1) mod cap) (c + 1) = ring_start cap h c"
  proof -
    have "((h + 1) mod cap + cap - (c + 1)) mod cap = ((h + 1) mod cap + (cap - (c + 1))) mod cap"
      using True by simp
    also have "\<dots> = (h + 1 + (cap - (c + 1))) mod cap" by (simp add: mod_add_left_eq)
    also have "h + 1 + (cap - (c + 1)) = h + cap - c" using True by simp
    finally show ?thesis by (simp add: ring_start_def)
  qed
  have last: "(ring_start cap h c + c) mod cap = h"
    using h True by (simp add: ring_start_def mod_simps)
  have "(ring_start cap h c + i) mod cap \<noteq> h" if "i < c" for i
    using ring_slot_neq_head [of h cap c i] ring_start_slot [of h cap c i] h True that by simp
  then have "ring_list cap h c (f(h := x)) = ring_list cap h c f"
    by (simp add: ring_list_def)
  then show ?thesis
    using True start last by (simp add: ring_list_def)
next
  case False
  with c have [simp]: "c = cap" by simp
  from h have pos: "0 < cap" by simp
  have start: "(ring_start cap ((h + 1) mod cap) cap + i) mod cap = (h + 1 + i) mod cap" for i
    by (simp add: ring_start_def mod_simps)
  have old: "(ring_start cap h cap + i) mod cap = (h + i) mod cap" for i
    using h by (simp add: ring_start_def mod_simps)
  have rng: "[0..<cap] = [0..<cap - 1] @ [cap - 1]"
    using pos by (metis Suc_pred' upt_Suc_append zero_le)
  have neq: "(h + 1 + i) mod cap \<noteq> h" if "i < cap - 1" for i
    using ring_slot_neq_head [of h cap cap "i + 1"] h that by (simp add: algebra_simps)
  have "ring_list cap ((h + 1) mod cap) cap (f(h := x))
          = map (\<lambda>i. f ((h + 1 + i) mod cap)) [0..<cap - 1] @ [x]"
    unfolding ring_list_def start using neq h pos by (simp add: rng)
  also have "map (\<lambda>i. f ((h + 1 + i) mod cap)) [0..<cap - 1] = tl (ring_list cap h cap f)"
  proof (rule nth_equalityI)
    fix i assume "i < length (map (\<lambda>i. f ((h + 1 + i) mod cap)) [0..<cap - 1])"
    then have "i < cap - 1" by simp
    then show "map (\<lambda>i. f ((h + 1 + i) mod cap)) [0..<cap - 1] ! i = tl (ring_list cap h cap f) ! i"
      using old [of "Suc i"] by (simp add: nth_tl ring_list_nth)
  qed simp
  also have "tl (ring_list cap h cap f) @ [x] = lastn cap (ring_list cap h cap f @ [x])"
    using pos by (simp add: lastn_def drop_Suc)
  finally show ?thesis using False by (simp add: fun_upd_def)
qed

text \<open>
  The interface of a bounded log: an operation \<open>push\<close> that may fail (leave its buffers),
  an abstraction \<open>log\<close> to the list of entries and a capacity. The tiers in memory and the
  history files on disk both provide it.
\<close>

locale bounded_log =
  fixes log :: "'s \<Rightarrow> 'a list"
    and cap :: "'s \<Rightarrow> nat"
    and invar :: "'s \<Rightarrow> bool"
    and ok :: "'a \<Rightarrow> bool"
    and push :: "'a \<Rightarrow> 's \<Rightarrow> 's option"
  assumes log_bound: "invar s \<Longrightarrow> length (log s) \<le> cap s"
    and push_ok: "invar s \<Longrightarrow> ok x \<Longrightarrow>
      \<exists>s'. push x s = Some s' \<and> invar s' \<and> cap s' = cap s \<and> log s' = lastn (cap s) (log s @ [x])"
begin

primrec push_all :: "'a list \<Rightarrow> 's \<Rightarrow> 's option" where
  "push_all [] s = Some s"
| "push_all (x # xs) s = (case push x s of None \<Rightarrow> None | Some s' \<Rightarrow> push_all xs s')"

lemma push_all_ok:
  assumes "invar s" "list_all ok xs"
  shows "\<exists>s'. push_all xs s = Some s' \<and> invar s' \<and> cap s' = cap s
           \<and> log s' = lastn (cap s) (log s @ xs)"
  using assms
proof (induction xs arbitrary: s)
  case Nil
  then show ?case using log_bound by simp
next
  case (Cons x xs)
  from Cons.prems obtain s1 where s1: "push x s = Some s1" "invar s1" "cap s1 = cap s"
      "log s1 = lastn (cap s) (log s @ [x])"
    using push_ok by fastforce
  from Cons.IH [of s1] s1 Cons.prems obtain s2 where
    "push_all xs s1 = Some s2" "invar s2" "cap s2 = cap s1"
    "log s2 = lastn (cap s1) (log s1 @ xs)"
    by auto
  with s1 show ?case by (simp add: lastn_append_lastn)
qed

lemma push_sorted:
  assumes "invar s" "ok x" "push x s = Some s'" "sorted_wrt R (log s)" "\<forall>y \<in> set (log s). R y x"
  shows "sorted_wrt R (log s')"
proof -
  from assms(1-3) have "log s' = lastn (cap s) (log s @ [x])" using push_ok by fastforce
  with assms(4,5) show ?thesis by (simp add: sorted_wrt_lastn sorted_wrt_append)
qed

end

end
