(* ===== verification/CString.thy ===== *)
theory CString
  imports Prelude
begin

text \<open>
  C strings and the string functions of C and GLib that the program calls, by their
  documented behaviour. A \<open>string\<close> here is the content of a C string up to its terminator.
  Number formatting and parsing of doubles (\<open>g_ascii_formatd\<close>, \<open>g_ascii_strtod\<close>) is not
  here: it is a parameter of the definitions that use it.
\<close>

section \<open>Characters\<close>

text \<open>The terminator, and codes of characters (a \<open>char\<close> is a byte).\<close>

definition nul :: char where
  "nul = char_of (0 :: nat)"

lemma nul_char: "nul = CHR 0x00"
  by code_simp

definition ch_code :: "char \<Rightarrow> nat" where
  "ch_code c = of_char c"

definition is_space :: "char \<Rightarrow> bool" where
  "is_space c \<longleftrightarrow> ch_code c \<in> {9, 10, 12, 13, 32}"

definition is_digit :: "char \<Rightarrow> bool" where
  "is_digit c \<longleftrightarrow> 48 \<le> ch_code c \<and> ch_code c \<le> 57"

definition is_upper :: "char \<Rightarrow> bool" where
  "is_upper c \<longleftrightarrow> 65 \<le> ch_code c \<and> ch_code c \<le> 90"

definition is_lower :: "char \<Rightarrow> bool" where
  "is_lower c \<longleftrightarrow> 97 \<le> ch_code c \<and> ch_code c \<le> 122"

definition is_alnum :: "char \<Rightarrow> bool" where
  "is_alnum c \<longleftrightarrow> is_digit c \<or> is_upper c \<or> is_lower c"

definition is_xdigit :: "char \<Rightarrow> bool" where
  "is_xdigit c \<longleftrightarrow> is_digit c \<or> (65 \<le> ch_code c \<and> ch_code c \<le> 70)
     \<or> (97 \<le> ch_code c \<and> ch_code c \<le> 102)"

text \<open>The value of a hexadecimal digit (\<open>g_ascii_xdigit_value\<close>).\<close>

definition xdigit_value :: "char \<Rightarrow> nat" where
  "xdigit_value c = (if is_digit c then ch_code c - 48
     else if 97 \<le> ch_code c then ch_code c - 97 + 10 else ch_code c - 65 + 10)"

text \<open>Printable ASCII, which is text in every encoding.\<close>

definition printable :: "string \<Rightarrow> bool" where
  "printable s \<longleftrightarrow> list_all (\<lambda>c. 32 \<le> ch_code c \<and> ch_code c < 127) s"

lemma ch_code_less [simp]: "ch_code c < 256"
  by (simp add: ch_code_def)

lemma ch_code_inj [simp]: "ch_code c = ch_code d \<longleftrightarrow> c = d"
  by (simp add: ch_code_def)

lemma ch_code_char_of [simp]: "n < 256 \<Longrightarrow> ch_code (char_of n) = n"
  by (simp add: ch_code_def)

lemma char_of_ch_code [simp]: "char_of (ch_code c) = c"
  by (simp add: ch_code_def)

section \<open>Copies, prefixes, searching\<close>

text \<open>\<open>g_strlcpy\<close> into a buffer of \<open>n\<close> bytes keeps at most \<open>n - 1\<close> characters.\<close>

definition strlcpy :: "nat \<Rightarrow> string \<Rightarrow> string" where
  "strlcpy n s = take (n - 1) s"

text \<open>Copying a byte buffer as a C string stops at the first terminator (\<open>g_strdup\<close>).\<close>

definition cstr :: "string \<Rightarrow> string" where
  "cstr s = takeWhile (\<lambda>c. c \<noteq> nul) s"

definition has_prefix :: "string \<Rightarrow> string \<Rightarrow> bool" where
  "has_prefix s p \<longleftrightarrow> take (length p) s = p"

definition has_suffix :: "string \<Rightarrow> string \<Rightarrow> bool" where
  "has_suffix s p \<longleftrightarrow> length p \<le> length s \<and> drop (length s - length p) s = p"

text \<open>\<open>strchr\<close> and \<open>strstr\<close>: the text from the first occurrence on.\<close>

fun strchr :: "string \<Rightarrow> char \<Rightarrow> string option" where
  "strchr [] c = None"
| "strchr (x # xs) c = (if x = c then Some (x # xs) else strchr xs c)"

fun strstr :: "string \<Rightarrow> string \<Rightarrow> string option" where
  "strstr [] p = (if p = [] then Some [] else None)"
| "strstr (x # xs) p = (if has_prefix (x # xs) p then Some (x # xs) else strstr xs p)"

text \<open>\<open>g_strstrip\<close> removes leading and trailing white space.\<close>

definition strstrip :: "string \<Rightarrow> string" where
  "strstrip s = rev (dropWhile is_space (rev (dropWhile is_space s)))"

text \<open>
  \<open>g_strsplit\<close> on a one-character delimiter: the empty string has no parts, any other
  string has one more part than it has delimiters.
\<close>

fun split_parts :: "char \<Rightarrow> string \<Rightarrow> string list" where
  "split_parts d [] = [[]]"
| "split_parts d (c # cs) = (if c = d then [] # split_parts d cs
     else (case split_parts d cs of [] \<Rightarrow> [[c]] | p # ps \<Rightarrow> (c # p) # ps))"

definition strsplit :: "char \<Rightarrow> string \<Rightarrow> string list" where
  "strsplit d s = (if s = [] then [] else split_parts d s)"

text \<open>Strings joined by a one-character delimiter.\<close>

fun join :: "char \<Rightarrow> string list \<Rightarrow> string" where
  "join d [] = []"
| "join d [s] = s"
| "join d (s # t # ss) = s @ d # join d (t # ss)"

lemma length_strlcpy: "length (strlcpy n s) \<le> n - 1"
  by (simp add: strlcpy_def)

lemma strlcpy_id: "length s < n \<Longrightarrow> strlcpy n s = s"
  by (simp add: strlcpy_def)

lemma strlcpy_idem [simp]: "strlcpy n (strlcpy n s) = strlcpy n s"
  by (simp add: strlcpy_def)

lemma has_prefix_append [simp]: "has_prefix (p @ s) p"
  by (simp add: has_prefix_def)

lemma split_parts_nonempty [simp]: "split_parts d s \<noteq> []"
  by (cases s) (auto split: list.splits)

lemma split_parts_no_delim: "p \<in> set (split_parts d s) \<Longrightarrow> d \<notin> set p"
  by (induction s arbitrary: p) (auto split: if_splits list.splits)

lemma split_parts_word: "d \<notin> set s \<Longrightarrow> split_parts d s = [s]"
  by (induction s) auto

lemma split_parts_append: "d \<notin> set s \<Longrightarrow> split_parts d (s @ d # t) = s # split_parts d t"
  by (induction s) auto

lemma split_parts_join:
  "ss \<noteq> [] \<Longrightarrow> \<forall>s \<in> set ss. d \<notin> set s \<Longrightarrow> split_parts d (join d ss) = ss"
  by (induction d ss rule: join.induct) (auto simp: split_parts_word split_parts_append)

lemma strstrip_set: "set (strstrip s) \<subseteq> set s"
  unfolding strstrip_def by (metis set_dropWhileD set_rev subsetI)

text \<open>A stripped string neither starts nor ends with white space, so stripping is idempotent.\<close>

lemma strstrip_hd: "strstrip s \<noteq> [] \<Longrightarrow> \<not> is_space (hd (strstrip s))"
proof -
  assume ne: "strstrip s \<noteq> []"
  define t where "t = dropWhile is_space s"
  from ne have "t \<noteq> []" by (metis dropWhile.simps(1) rev.simps(1) strstrip_def t_def)
  then have hd: "\<not> is_space (hd t)" unfolding t_def by (rule hd_dropWhile)
  obtain u where "rev t = u @ dropWhile is_space (rev t)"
    by (metis takeWhile_dropWhile_id)
  then have "t = strstrip s @ rev u"
    by (metis rev_append rev_rev_ident strstrip_def t_def)
  with ne hd show ?thesis by (metis hd_append2)
qed

lemma strstrip_last: "strstrip s \<noteq> [] \<Longrightarrow> \<not> is_space (last (strstrip s))"
  unfolding strstrip_def by (metis hd_dropWhile last_rev rev_is_Nil_conv)

lemma strstrip_id:
  assumes "s \<noteq> []" "\<not> is_space (hd s)" "\<not> is_space (last s)"
  shows "strstrip s = s"
proof -
  have "dropWhile is_space s = s" using assms(1,2) by (cases s) auto
  moreover have "dropWhile is_space (rev s) = rev s"
    using assms(1,3) by (metis dropWhile.simps(2) hd_rev list.exhaust list.sel(1) rev_is_Nil_conv)
  ultimately show ?thesis by (simp add: strstrip_def)
qed

lemma strstrip_Nil [simp]: "strstrip [] = []"
  by (simp add: strstrip_def)

lemma strstrip_idem [simp]: "strstrip (strstrip s) = strstrip s"
  by (cases "strstrip s = []") (auto intro!: strstrip_id strstrip_hd strstrip_last)

lemma cstr_id: "nul \<notin> set s \<Longrightarrow> cstr s = s"
  by (simp add: cstr_def takeWhile_eq_all_conv) metis

lemma nul_notin_cstr [simp]: "nul \<notin> set (cstr s)"
  by (auto simp: cstr_def dest: set_takeWhileD)

section \<open>Numbers\<close>

text \<open>Decimal output of an unsigned and of a signed number.\<close>

fun show_nat :: "nat \<Rightarrow> string" where
  "show_nat n = (if n < 10 then [char_of (48 + n)] else show_nat (n div 10) @ [char_of (48 + n mod 10)])"

declare show_nat.simps [simp del]

definition show_int :: "int \<Rightarrow> string" where
  "show_int k = (if k < 0 then CHR ''-'' # show_nat (nat (- k)) else show_nat (nat k))"

text \<open>
  \<open>g_ascii_strtoull (s, NULL, 10)\<close>: leading white space, an optional sign, digits; no digits
  give 0, overflow gives \<open>G_MAXUINT64\<close>, a minus sign negates modulo \<open>2 ^ 64\<close>. A cast to
  \<open>guint\<close> keeps the low 32 bits.
\<close>

definition dec_value :: "string \<Rightarrow> nat" where
  "dec_value s = foldl (\<lambda>n c. 10 * n + (ch_code c - 48)) 0 s"

definition strtoull10 :: "string \<Rightarrow> guint64" where
  "strtoull10 s = (let t = dropWhile is_space s;
       neg = (t \<noteq> [] \<and> hd t = CHR ''-'');
       u = (if t \<noteq> [] \<and> (hd t = CHR ''-'' \<or> hd t = CHR ''+'') then tl t else t);
       n = dec_value (takeWhile is_digit u) in
     if 2 ^ 64 \<le> n then - 1 else if neg then - of_nat n else of_nat n)"

definition guint_of64 :: "guint64 \<Rightarrow> guint" where
  "guint_of64 w = of_nat (unat w)"

lemma show_nat_digits: "c \<in> set (show_nat n) \<Longrightarrow> is_digit c"
proof (induction n rule: show_nat.induct)
  case (1 n)
  have m: "n mod 10 < 10" by simp
  show ?case
    using "1" m by (subst (asm) show_nat.simps) (auto simp: is_digit_def split: if_splits)
qed

lemma show_nat_nonempty [simp]: "show_nat n \<noteq> []"
  by (subst show_nat.simps) simp

lemma show_nat_leading: "hd (show_nat n) = CHR ''0'' \<longrightarrow> length (show_nat n) = 1"
proof (induction n rule: show_nat.induct)
  case (1 n)
  show ?case
  proof (cases "n < 10")
    case ge: False
    have "show_nat (n div 10) \<noteq> [CHR ''0'']"
    proof
      assume zero: "show_nat (n div 10) = [CHR ''0'']"
      show False
      proof (cases "n div 10 < 10")
        case True
        then have "char_of (48 + n div 10) = CHR ''0''" using zero by (subst (asm) show_nat.simps) simp
        then have "ch_code (char_of (48 + n div 10)) = ch_code CHR ''0''" by (simp only:)
        moreover have "ch_code (char_of (48 + n div 10)) = 48 + n div 10" using True by (intro ch_code_char_of) simp
        moreover have "ch_code CHR ''0'' = 48" by (simp add: ch_code_def)
        ultimately show False using ge by simp
      next
        case False
        then have "length (show_nat (n div 10)) \<noteq> 1" by (subst show_nat.simps) simp
        with zero show False by simp
      qed
    qed
    moreover have "hd (show_nat n) = hd (show_nat (n div 10))" using ge by (subst show_nat.simps) simp
    ultimately show ?thesis using "1" ge by (cases "show_nat (n div 10)") auto
  qed (subst show_nat.simps, simp)
qed

lemma dec_value_snoc: "dec_value (s @ [c]) = 10 * dec_value s + (ch_code c - 48)"
  by (simp add: dec_value_def)

lemma dec_value_show_nat [simp]: "dec_value (show_nat n) = n"
proof (induction n rule: show_nat.induct)
  case (1 n)
  show ?case
  proof (cases "n < 10")
    case True
    then show ?thesis by (subst show_nat.simps) (simp add: dec_value_def)
  next
    case False
    have "n mod 10 < 10" by simp
    with False "1" show ?thesis by (subst show_nat.simps) (simp add: dec_value_snoc)
  qed
qed

text \<open>Printing and reading back an unsigned number.\<close>

lemma strtoull10_show_nat: "n < 2 ^ 64 \<Longrightarrow> unat (strtoull10 (show_nat n)) = n"
proof -
  assume n: "n < 2 ^ 64"
  obtain c s where s: "show_nat n = c # s" by (cases "show_nat n") auto
  have c: "is_digit c" using show_nat_digits [of c n] s by simp
  then have ns: "\<not> is_space c" "c \<noteq> CHR ''-''" "c \<noteq> CHR ''+''"
    by (auto simp: is_digit_def is_space_def ch_code_def)
  have t: "takeWhile is_digit (show_nat n) = show_nat n"
    using show_nat_digits by (simp add: takeWhile_eq_all_conv)
  have "strtoull10 (show_nat n) = of_nat n"
    using n ns t by (simp add: strtoull10_def s dec_value_show_nat [of n, unfolded s])
  then show ?thesis using n by (simp add: unat_of_nat take_bit_nat_def)
qed

end
