(* ===== verification/Metrics.thy ===== *)
theory Metrics
  imports CString
begin

text \<open>
  \<^verbatim>\<open>app/metrics.h\<close>, \<^verbatim>\<open>app/metrics.c\<close>: the registry of metrics, a growable array of
  definitions looked up by id. The locale \<open>id_lookup\<close> states what the rest of the program
  relies on: the position of an id.
\<close>

section \<open>Model\<close>

record metric_def =
  md_id :: string
  md_label :: string
  md_unit :: string
  md_group :: string

text \<open>\<open>reg_defs\<close> is the allocated array; the first \<open>reg_count\<close> entries are registered.\<close>

record metric_registry =
  reg_defs :: "metric_def list"
  reg_count :: guint
  reg_capacity :: guint

definition METRIC_ID_MAX :: nat where "METRIC_ID_MAX = 64"

definition METRIC_LABEL_MAX :: nat where "METRIC_LABEL_MAX = 80"

definition METRIC_UNIT_MAX :: nat where "METRIC_UNIT_MAX = 16"

definition METRIC_GROUP_MAX :: nat where "METRIC_GROUP_MAX = 24"

definition zero_def :: metric_def where
  "zero_def = \<lparr>md_id = [], md_label = [], md_unit = [], md_group = []\<rparr>"

definition metrics_registry_init :: metric_registry where
  "metrics_registry_init = \<lparr>reg_defs = replicate 64 zero_def, reg_count = 0, reg_capacity = 64\<rparr>"

definition metrics_registry_clear :: metric_registry where
  "metrics_registry_clear = \<lparr>reg_defs = [], reg_count = 0, reg_capacity = 0\<rparr>"

fun find_from :: "nat \<Rightarrow> metric_def list \<Rightarrow> string \<Rightarrow> int" where
  "find_from i [] key = - 1"
| "find_from i (d # ds) key = (if md_id d = key then int i else find_from (Suc i) ds key)"

definition metrics_find :: "metric_registry \<Rightarrow> string \<Rightarrow> int" where
  "metrics_find r key = find_from 0 (take (unat (reg_count r)) (reg_defs r)) key"

text \<open>Doubling the array when it is full; the new half is zeroed.\<close>

definition registry_grow :: "metric_registry \<Rightarrow> metric_registry" where
  "registry_grow r = (if reg_count r = reg_capacity r
     then (let cap = reg_capacity r * 2 in
       r\<lparr>reg_capacity := cap,
         reg_defs := take (unat cap) (reg_defs r) @ replicate (unat cap - length (reg_defs r)) zero_def\<rparr>)
     else r)"

text \<open>A NULL label, unit or group is \<open>None\<close>.\<close>

definition metrics_register ::
  "metric_registry \<Rightarrow> string \<Rightarrow> string option \<Rightarrow> string option \<Rightarrow> string option
     \<Rightarrow> (guint \<times> metric_registry) option" where
  "metrics_register r key label unit grp = (let existing = metrics_find r key in
     if 0 \<le> existing then Some (of_nat (nat existing), r)
     else (let r1 = registry_grow r;
               d = \<lparr>md_id = strlcpy METRIC_ID_MAX key,
                    md_label = strlcpy METRIC_LABEL_MAX (case label of Some l \<Rightarrow> l | None \<Rightarrow> key),
                    md_unit = strlcpy METRIC_UNIT_MAX (case unit of Some u \<Rightarrow> u | None \<Rightarrow> []),
                    md_group = strlcpy METRIC_GROUP_MAX (case grp of Some g \<Rightarrow> g | None \<Rightarrow> ''other'')\<rparr>
           in do {
             defs \<leftarrow> arr_set (unat (reg_count r1)) d (reg_defs r1);
             Some (reg_count r1, r1\<lparr>reg_defs := defs, reg_count := reg_count r1 + 1\<rparr>)
           }))"

section \<open>Invariant\<close>

definition reg_ids :: "metric_registry \<Rightarrow> string list" where
  "reg_ids r = map md_id (take (unat (reg_count r)) (reg_defs r))"

definition reg_inv :: "metric_registry \<Rightarrow> bool" where
  [inv_defs]: "reg_inv r \<longleftrightarrow> length (reg_defs r) = unat (reg_capacity r) \<and> 0 < unat (reg_capacity r)
     \<and> unat (reg_count r) \<le> unat (reg_capacity r)"

lemma length_reg_ids: "reg_inv r \<Longrightarrow> length (reg_ids r) = unat (reg_count r)"
  by (simp add: reg_ids_def reg_inv_def)

lemma reg_inv_init: "reg_inv metrics_registry_init"
  by (simp add: reg_inv_def metrics_registry_init_def)

lemma reg_ids_init [simp]: "reg_ids metrics_registry_init = []"
  by (simp add: reg_ids_def metrics_registry_init_def)

lemma find_from_miss: "key \<notin> set (map md_id ds) \<Longrightarrow> find_from i ds key = - 1"
  by (induction ds arbitrary: i) auto

lemma find_from_hit:
  assumes "j < length ds" "md_id (ds ! j) = key" "\<forall>k < j. md_id (ds ! k) \<noteq> key"
  shows "find_from i ds key = int (i + j)"
  using assms
proof (induction ds arbitrary: i j)
  case (Cons d ds)
  show ?case
  proof (cases j)
    case 0
    with Cons.prems show ?thesis by simp
  next
    case (Suc k)
    have "md_id d \<noteq> key" using Cons.prems(3) Suc by (metis nth_Cons_0 zero_less_Suc)
    moreover have "\<forall>l < k. md_id (ds ! l) \<noteq> key"
      using Cons.prems(3) Suc by (metis Suc_less_eq nth_Cons_Suc)
    ultimately show ?thesis using Cons.IH [of k "Suc i"] Cons.prems Suc by simp
  qed
qed simp

lemma find_from_range: "find_from i ds key = - 1 \<or> (\<exists>j < length ds. find_from i ds key = int (i + j)
    \<and> md_id (ds ! j) = key)"
proof (induction ds arbitrary: i)
  case (Cons d ds)
  show ?case
  proof (cases "md_id d = key")
    case True
    then show ?thesis by (intro disjI2 exI [of _ 0]) simp
  next
    case False
    from Cons.IH [of "Suc i"] show ?thesis
    proof
      assume "\<exists>j < length ds. find_from (Suc i) ds key = int (Suc i + j) \<and> md_id (ds ! j) = key"
      then obtain j where "j < length ds" "find_from (Suc i) ds key = int (Suc i + j)" "md_id (ds ! j) = key"
        by blast
      with False show ?thesis by (intro disjI2 exI [of _ "Suc j"]) simp
    qed (use False in simp)
  qed
qed simp

text \<open>
  What the program relies on: ids have positions, and looking an id up gives its position
  or -1.
\<close>

locale id_lookup =
  fixes ids :: "'r \<Rightarrow> string list"
    and find :: "'r \<Rightarrow> string \<Rightarrow> int"
    and invar :: "'r \<Rightarrow> bool"
  assumes find_miss: "invar r \<Longrightarrow> key \<notin> set (ids r) \<Longrightarrow> find r key = - 1"
    and find_first: "invar r \<Longrightarrow> i < length (ids r) \<Longrightarrow> ids r ! i = key \<Longrightarrow>
      (\<forall>k < i. ids r ! k \<noteq> key) \<Longrightarrow> find r key = int i"
begin

lemma find_hit:
  assumes "invar r" "key \<in> set (ids r)"
  shows "0 \<le> find r key" "nat (find r key) < length (ids r)" "ids r ! nat (find r key) = key"
proof -
  define i where "i = (LEAST i. i < length (ids r) \<and> ids r ! i = key)"
  from assms(2) have ex: "\<exists>i. i < length (ids r) \<and> ids r ! i = key" by (auto simp: in_set_conv_nth)
  then have i: "i < length (ids r) \<and> ids r ! i = key" unfolding i_def by (rule LeastI_ex)
  have "ids r ! k \<noteq> key" if "k < i" for k
    using not_less_Least [of k "\<lambda>i. i < length (ids r) \<and> ids r ! i = key"] that i
    unfolding i_def by auto
  with assms(1) i have "find r key = int i" by (intro find_first) auto
  with i show "0 \<le> find r key" "nat (find r key) < length (ids r)" "ids r ! nat (find r key) = key"
    by auto
qed

lemma find_iff: "invar r \<Longrightarrow> 0 \<le> find r key \<longleftrightarrow> key \<in> set (ids r)"
  using find_hit(1) find_miss by force

lemma find_distinct:
  assumes "invar r" "distinct (ids r)" "i < length (ids r)"
  shows "find r (ids r ! i) = int i"
  using assms by (intro find_first) (auto simp: nth_eq_iff_index_eq)

end

interpretation registry: id_lookup reg_ids metrics_find reg_inv
proof unfold_locales
  fix r key
  assume "key \<notin> set (reg_ids r)"
  then show "metrics_find r key = - 1" by (simp add: metrics_find_def reg_ids_def find_from_miss)
next
  fix r i key
  assume "reg_inv r" "i < length (reg_ids r)" "reg_ids r ! i = key" "\<forall>k < i. reg_ids r ! k \<noteq> key"
  then show "metrics_find r key = int i"
    using find_from_hit [of i "take (unat (reg_count r)) (reg_defs r)" key 0]
    by (simp add: metrics_find_def reg_ids_def)
qed

section \<open>Registering\<close>

lemma reg_inv_grow:
  assumes "reg_inv r" "unat (reg_capacity r) < 2 ^ 31"
  shows "reg_inv (registry_grow r)" "reg_count (registry_grow r) = reg_count r"
    "unat (reg_count r) < unat (reg_capacity (registry_grow r))"
    "take (unat (reg_count r)) (reg_defs (registry_grow r)) = take (unat (reg_count r)) (reg_defs r)"
proof -
  have dbl: "unat (reg_capacity r * 2) = unat (reg_capacity r) * 2"
    using assms(2) by (simp add: unat_word_ariths)
  have cap: "length (reg_defs r) = unat (reg_capacity r)" "unat (reg_count r) \<le> unat (reg_capacity r)"
    "0 < unat (reg_capacity r)"
    using assms(1) by (simp_all add: reg_inv_def)
  show "reg_count (registry_grow r) = reg_count r" by (simp add: registry_grow_def Let_def)
  show "reg_inv (registry_grow r)"
    using cap dbl by (auto simp: registry_grow_def reg_inv_def Let_def)
  show "take (unat (reg_count r)) (reg_defs (registry_grow r)) = take (unat (reg_count r)) (reg_defs r)"
    using cap dbl by (auto simp: registry_grow_def Let_def)
  show "unat (reg_count r) < unat (reg_capacity (registry_grow r))"
  proof (cases "reg_count r = reg_capacity r")
    case True
    with cap dbl show ?thesis by (simp add: registry_grow_def Let_def)
  next
    case False
    then have "unat (reg_count r) \<noteq> unat (reg_capacity r)" by (simp add: unat_inject)
    with cap(2) False show ?thesis by (simp add: registry_grow_def Let_def)
  qed
qed

lemma register_new:
  assumes inv: "reg_inv r" and cap: "unat (reg_capacity r) < 2 ^ 31" and new: "key \<notin> set (reg_ids r)"
  obtains r' where "metrics_register r key label unit grp = Some (reg_count r, r')" "reg_inv r'"
    "reg_ids r' = reg_ids r @ [strlcpy METRIC_ID_MAX key]" "unat (reg_count r') = unat (reg_count r) + 1"
proof -
  let ?g = "registry_grow r"
  note g = reg_inv_grow [OF inv cap]
  have len: "unat (reg_count r) < length (reg_defs ?g)"
    using g(1,3) by (simp add: reg_inv_def)
  have small: "unat (reg_count r) + 1 < 2 ^ 32" using inv cap by (simp add: reg_inv_def)
  note u = unat_Suc_small [OF small]
  define d where "d = \<lparr>md_id = strlcpy METRIC_ID_MAX key,
      md_label = strlcpy METRIC_LABEL_MAX (case label of Some l \<Rightarrow> l | None \<Rightarrow> key),
      md_unit = strlcpy METRIC_UNIT_MAX (case unit of Some u \<Rightarrow> u | None \<Rightarrow> []),
      md_group = strlcpy METRIC_GROUP_MAX (case grp of Some g \<Rightarrow> g | None \<Rightarrow> ''other'')\<rparr>"
  define r' where "r' = ?g\<lparr>reg_defs := (reg_defs ?g)[unat (reg_count r) := d], reg_count := reg_count r + 1\<rparr>"
  have "metrics_register r key label unit grp = Some (reg_count r, r')"
    using new inv len g(2)
    by (simp add: metrics_register_def Let_def registry.find_miss arr_simps d_def r'_def)
  moreover have "reg_inv r'" using g(1,3) u by (simp add: r'_def reg_inv_def)
  moreover have "reg_ids r' = reg_ids r @ [strlcpy METRIC_ID_MAX key]"
    using len u g(4) by (simp add: r'_def reg_ids_def take_Suc_conv_app_nth d_def)
  moreover have "unat (reg_count r') = unat (reg_count r) + 1" using u by (simp add: r'_def)
  ultimately show ?thesis by (rule that)
qed

lemma register_existing:
  assumes "reg_inv r" "key \<in> set (reg_ids r)"
  shows "metrics_register r key label unit grp = Some (of_nat (nat (metrics_find r key)), r)"
  using registry.find_hit(1) [OF assms] by (simp add: metrics_register_def)

text \<open>A sequence of registrations, as \<open>metrics_register\<close> is called at start-up.\<close>

primrec register_all :: "string list \<Rightarrow> metric_registry \<Rightarrow> metric_registry option" where
  "register_all [] r = Some r"
| "register_all (key # keys) r = (case metrics_register r key None None None of
     None \<Rightarrow> None | Some (_, r') \<Rightarrow> register_all keys r')"

lemma registry_capacity:
  assumes "metrics_register r key label unit grp = Some (i, r')"
    "unat (reg_capacity r) \<le> max 64 (2 * unat (reg_count r))" "unat (reg_capacity r) < 2 ^ 31"
    "reg_inv r" "key \<notin> set (reg_ids r)"
  shows "unat (reg_capacity r') \<le> max 64 (2 * (unat (reg_count r) + 1))"
proof -
  have dbl: "unat (reg_capacity r * 2) = unat (reg_capacity r) * 2"
    using assms(3) by (simp add: unat_word_ariths)
  have "reg_capacity r' = reg_capacity (registry_grow r)"
    using assms(1) registry.find_miss [OF assms(4,5)]
    by (auto simp: metrics_register_def Let_def split: bind_splits)
  with assms(2) dbl show ?thesis by (auto simp: registry_grow_def Let_def)
qed

lemma register_all_ok:
  assumes "reg_inv r" "unat (reg_capacity r) \<le> max 64 (2 * unat (reg_count r))"
    "unat (reg_count r) + length keys \<le> 2 ^ 29" "\<forall>k \<in> set keys. length k < METRIC_ID_MAX"
    "distinct keys" "set keys \<inter> set (reg_ids r) = {}"
  shows "\<exists>r'. register_all keys r = Some r' \<and> reg_inv r' \<and> reg_ids r' = reg_ids r @ keys"
  using assms
proof (induction keys arbitrary: r)
  case (Cons key keys)
  have cap: "unat (reg_capacity r) < 2 ^ 31" using Cons.prems(2,3) by simp
  have new: "key \<notin> set (reg_ids r)" using Cons.prems(6) by simp
  have id: "strlcpy METRIC_ID_MAX key = key" using Cons.prems(4) by (simp add: strlcpy_id)
  obtain r' where r': "metrics_register r key None None None = Some (reg_count r, r')" "reg_inv r'"
    "reg_ids r' = reg_ids r @ [key]" "unat (reg_count r') = unat (reg_count r) + 1"
    by (rule register_new [OF Cons.prems(1) cap new, of None None None, unfolded id])
  have "unat (reg_capacity r') \<le> max 64 (2 * unat (reg_count r'))"
    using registry_capacity [OF r'(1) Cons.prems(2) cap Cons.prems(1) new] r'(4) by simp
  moreover have "set keys \<inter> set (reg_ids r') = {}" using Cons.prems(5,6) r'(3) by auto
  ultimately obtain r'' where "register_all keys r' = Some r''" "reg_inv r''"
    "reg_ids r'' = reg_ids r' @ keys"
    using Cons.IH [of r'] r'(2,4) Cons.prems(3-5) by auto
  with r'(1,3) show ?case by simp
qed simp

section \<open>Properties\<close>

text \<open>Registering distinct ids shorter than the id field gives each its position: the array
  grows without an out-of-bounds write, and every id is found at the index it was given.\<close>

theorem registered_ids_found:
  assumes "distinct keys" "\<forall>k \<in> set keys. length k < METRIC_ID_MAX" "length keys \<le> 2 ^ 29"
  shows "\<exists>r. register_all keys metrics_registry_init = Some r
    \<and> (\<forall>i < length keys. metrics_find r (keys ! i) = int i)
    \<and> (\<forall>k. k \<notin> set keys \<longrightarrow> metrics_find r k = - 1)"
proof -
  have init: "unat (reg_capacity metrics_registry_init) = 64" "unat (reg_count metrics_registry_init) = 0"
    by (simp_all add: metrics_registry_init_def)
  obtain r where r: "register_all keys metrics_registry_init = Some r" "reg_inv r" "reg_ids r = keys"
    using register_all_ok [OF reg_inv_init _ _ assms(2,1)] assms(3) by (auto simp: init)
  show ?thesis
    using r registry.find_distinct [OF r(2)] registry.find_miss [OF r(2)] assms(1) by auto
qed

theorem registered_ids_found_witness:
  "\<exists>r. register_all [''cpu.total'', ''mem.used''] metrics_registry_init = Some r
    \<and> metrics_find r ''mem.used'' = 1"
proof -
  have "distinct [''cpu.total'', ''mem.used'']"
    "\<forall>k \<in> set [''cpu.total'', ''mem.used'']. length k < METRIC_ID_MAX"
    "length [''cpu.total'', ''mem.used''] \<le> 2 ^ 29" by (simp_all add: METRIC_ID_MAX_def)
  from registered_ids_found [OF this] obtain r where
    "register_all [''cpu.total'', ''mem.used''] metrics_registry_init = Some r"
    "\<forall>i < length [''cpu.total'', ''mem.used'']. metrics_find r ([''cpu.total'', ''mem.used''] ! i) = int i"
    by blast
  from this(1) this(2) [rule_format, of 1] show ?thesis by auto
qed

text \<open>An id as long as the id field or longer is stored cut to 63 characters, is not found
  under its full name, and is registered again by a second registration.\<close>

theorem long_id_registered_twice:
  assumes inv: "reg_inv r" and cap: "unat (reg_capacity r) < 2 ^ 30"
    and long: "METRIC_ID_MAX \<le> length key" and new: "key \<notin> set (reg_ids r)"
  shows "\<exists>r' r''. metrics_register r key label unit grp = Some (reg_count r, r')
    \<and> metrics_find r' key = - 1
    \<and> metrics_register r' key label unit grp = Some (reg_count r + 1, r'')
    \<and> reg_ids r'' = reg_ids r @ [take 63 key, take 63 key]"
proof -
  have cap': "unat (reg_capacity r) < 2 ^ 31" using cap by simp
  have s: "strlcpy METRIC_ID_MAX key = take 63 key" by (simp add: strlcpy_def METRIC_ID_MAX_def)
  obtain r' where r': "metrics_register r key label unit grp = Some (reg_count r, r')" "reg_inv r'"
    "reg_ids r' = reg_ids r @ [take 63 key]" "unat (reg_count r') = unat (reg_count r) + 1"
    by (rule register_new [OF inv cap' new, of label unit grp, unfolded s])
  have "length (take 63 key) \<noteq> length key" using long by (simp add: METRIC_ID_MAX_def)
  then have "take 63 key \<noteq> key" by metis
  then have new': "key \<notin> set (reg_ids r')" using r'(3) new by (auto dest: sym)
  have dbl: "unat (reg_capacity r * 2) = unat (reg_capacity r) * 2"
    using cap by (simp add: unat_word_ariths)
  have "reg_capacity r' = reg_capacity (registry_grow r)"
    using r'(1) registry.find_miss [OF inv new]
    by (auto simp: metrics_register_def Let_def split: bind_splits)
  with cap dbl have cap2: "unat (reg_capacity r') < 2 ^ 31" by (auto simp: registry_grow_def Let_def)
  obtain r'' where r'': "metrics_register r' key label unit grp = Some (reg_count r', r'')"
    "reg_ids r'' = reg_ids r' @ [take 63 key]"
    by (rule register_new [OF r'(2) cap2 new', of label unit grp, unfolded s])
  have "unat (reg_count r) + 1 < 2 ^ 32" using inv cap by (simp add: reg_inv_def)
  with r'(4) have "reg_count r' = reg_count r + 1"
    using unat_Suc_small [of "reg_count r"] by (simp flip: unat_inject)
  with r' r'' registry.find_miss [OF r'(2) new'] show ?thesis by auto
qed

theorem long_id_registered_twice_witness:
  "\<exists>r' r''. metrics_register metrics_registry_init (replicate 64 CHR ''a'') None None None = Some (0, r')
    \<and> metrics_find r' (replicate 64 CHR ''a'') = - 1
    \<and> metrics_register r' (replicate 64 CHR ''a'') None None None = Some (1, r'')"
proof -
  have "unat (reg_capacity metrics_registry_init) < 2 ^ 30" "reg_count metrics_registry_init = 0"
    by (simp_all add: metrics_registry_init_def)
  then show ?thesis
    using long_id_registered_twice [OF reg_inv_init, of "replicate 64 CHR ''a''" None None None]
    by (auto simp: METRIC_ID_MAX_def)
qed

end
