(* ===== verification/Floats.thy ===== *)
theory Floats
  imports Prelude "HOL-Library.Log_Nat"
begin

text \<open>
  The C floating-point types. A \<open>double\<close> is NaN, an infinity or an exact rational that
  binary64 can hold; every arithmetic operation computes on rationals and rounds to nearest,
  ties to even, as IEEE 754 prescribes (the sign of a zero result is not kept: the program
  prints and compares values, and never divides by a zero whose sign it knows). A \<open>float\<close> is
  stored as its 32 bits, because samples are copied and written to disk bit for bit; it is
  decoded to a \<open>double\<close> and rounded back.

  The lemmas: rounding is monotone and exact on representable numbers, the two facts from
  which the bounds on computed means follow; decoding an encoded float gives the rounded
  value back.
\<close>

section \<open>Rounding to a binary grid\<close>

text \<open>Round half to even.\<close>

definition rhe :: "rat \<Rightarrow> int" where
  "rhe q = (let f = \<lfloor>q\<rfloor>; d = q - of_int f in
     if d < 1 / 2 then f else if 1 / 2 < d then f + 1 else if even f then f else f + 1)"

text \<open>The exponent of the leading bit of a positive rational.\<close>

definition ilog2 :: "rat \<Rightarrow> int" where
  "ilog2 q = (case quotient_of q of (n, d) \<Rightarrow>
     let k = int (floorlog 2 (nat n)) - int (floorlog 2 (nat d)) in
     if 2 powi k \<le> q then k else k - 1)"

text \<open>
  The spacing of the numbers of precision \<open>p\<close> near \<open>q\<close>, with gradual underflow below
  exponent \<open>emin\<close>, and rounding to it.
\<close>

definition grid :: "int \<Rightarrow> int \<Rightarrow> rat \<Rightarrow> int" where
  "grid p emin q = max (ilog2 \<bar>q\<bar> - (p - 1)) emin"

definition rnd :: "int \<Rightarrow> int \<Rightarrow> rat \<Rightarrow> rat" where
  "rnd p emin q = (if q = 0 then 0 else
     of_int (rhe (q / 2 powi grid p emin q)) * 2 powi grid p emin q)"

lemma rhe_bounds: "\<lfloor>q\<rfloor> \<le> rhe q" "rhe q \<le> \<lfloor>q\<rfloor> + 1"
  by (auto simp: rhe_def Let_def)

lemma rhe_of_int [simp]: "rhe (of_int k) = k"
  by (simp add: rhe_def)

lemma rhe_mono:
  assumes "q \<le> r" shows "rhe q \<le> rhe r"
proof (cases "\<lfloor>q\<rfloor> = \<lfloor>r\<rfloor>")
  case True
  with assms show ?thesis by (auto simp: rhe_def Let_def)
next
  case False
  with assms have "\<lfloor>q\<rfloor> + 1 \<le> \<lfloor>r\<rfloor>" using floor_mono [OF assms] by simp
  then show ?thesis using rhe_bounds(2) [of q] rhe_bounds(1) [of r] by linarith
qed

lemma rhe_minus: "rhe (- q) = - rhe q"
proof (cases "q = of_int \<lfloor>q\<rfloor>")
  case True
  then have "rhe q = rhe (of_int \<lfloor>q\<rfloor>)" "rhe (- q) = rhe (of_int (- \<lfloor>q\<rfloor>))" by simp_all
  then show ?thesis by (simp only: rhe_of_int)
next
  case False
  then have "\<lfloor>- q\<rfloor> = - \<lfloor>q\<rfloor> - 1"
    using floor_correct [of q] by (intro floor_unique) (auto simp: order_less_le)
  then show ?thesis by (auto simp: rhe_def Let_def)
qed

lemma powi2_pos [simp]: "0 < (2 :: rat) powi e"
  by (rule zero_less_power_int) simp

lemma powi2_nonzero [simp]: "(2 :: rat) powi e \<noteq> 0"
  using powi2_pos [of e] by linarith

lemma powi2_mono: "e \<le> f \<Longrightarrow> (2 :: rat) powi e \<le> 2 powi f"
  by (rule power_int_increasing) auto

lemma powi2_less_iff: "(2 :: rat) powi e < 2 powi f \<longleftrightarrow> e < f"
proof
  assume "(2 :: rat) powi e < 2 powi f"
  then show "e < f" using powi2_mono [of f e] by (meson leD linorder_le_less_linear)
next
  assume "e < f"
  then show "(2 :: rat) powi e < 2 powi f" by (rule power_int_strict_increasing) simp
qed

lemma powi2_add: "(2 :: rat) powi (a + b) = 2 powi a * 2 powi b"
  by (rule power_int_add) auto

lemma powi2_of_int: "0 \<le> e \<Longrightarrow> (2 :: rat) powi e = of_int (2 ^ nat e)"
  by (simp add: power_int_def)

lemma powi2_scale: "g \<le> e \<Longrightarrow> of_int (2 ^ nat (e - g)) * (2 :: rat) powi g = 2 powi e"
  using powi2_of_int [of "e - g"] powi2_add [of "e - g" g] by simp

lemma ilog2_bounds:
  assumes "0 < q"
  shows "2 powi ilog2 q \<le> q" "q < 2 powi (ilog2 q + 1)"
proof -
  obtain n d where nd: "quotient_of q = (n, d)" by force
  then have d: "0 < d" and q: "q = of_int n / of_int d"
    using quotient_of_denom_pos quotient_of_div by blast+
  with assms have n: "0 < n" by (simp add: zero_less_divide_iff)
  define a where "a = floorlog 2 (nat n)"
  define b where "b = floorlog 2 (nat d)"
  have A: "2 ^ (a - 1) \<le> nat n" "nat n < 2 ^ a" and B: "2 ^ (b - 1) \<le> nat d" "nat d < 2 ^ b"
    using floorlog_bounds [of "nat n" 2] floorlog_bounds [of "nat d" 2] n d
    by (auto simp: a_def b_def)
  have a1: "1 \<le> a" and b1: "1 \<le> b"
    using A(2) B(2) n d by (cases a; cases b; simp)+
  have n_lo: "2 powi (int a - 1) \<le> (of_int n :: rat)"
  proof -
    have "(2 :: rat) powi (int a - 1) = of_nat (2 ^ (a - 1))"
      using a1 by (simp add: power_int_def nat_diff_distrib)
    also have "\<dots> \<le> of_nat (nat n)" using A(1) by (simp only: of_nat_le_iff)
    finally show ?thesis using n by simp
  qed
  have d_lo: "2 powi (int b - 1) \<le> (of_int d :: rat)"
  proof -
    have "(2 :: rat) powi (int b - 1) = of_nat (2 ^ (b - 1))"
      using b1 by (simp add: power_int_def nat_diff_distrib)
    also have "\<dots> \<le> of_nat (nat d)" using B(1) by (simp only: of_nat_le_iff)
    finally show ?thesis using d by simp
  qed
  have n_hi: "(of_int n :: rat) < 2 powi int a"
  proof -
    have "(of_nat (nat n) :: rat) < of_nat (2 ^ a)" using A(2) by (simp only: of_nat_less_iff)
    then show ?thesis using n by simp
  qed
  have d_hi: "(of_int d :: rat) < 2 powi int b"
  proof -
    have "(of_nat (nat d) :: rat) < of_nat (2 ^ b)" using B(2) by (simp only: of_nat_less_iff)
    then show ?thesis using d by simp
  qed
  define k where "k = int a - int b"
  have k: "ilog2 q = (if 2 powi k \<le> q then k else k - 1)"
    by (simp add: ilog2_def nd k_def a_def b_def)
  have lo: "2 powi (k - 1) \<le> q"
  proof -
    have "2 powi (k - 1) * of_int d \<le> 2 powi (k - 1) * (2 :: rat) powi int b"
      using d_hi by (intro mult_left_mono) auto
    also have "\<dots> = 2 powi (int a - 1)"
      using powi2_add [of "k - 1" "int b"] by (simp add: k_def)
    also have "\<dots> \<le> of_int n" by (rule n_lo)
    finally show ?thesis using d by (simp add: q field_simps)
  qed
  have hi: "q < 2 powi (k + 1)"
  proof -
    have "of_int n < (2 :: rat) powi int a" by (rule n_hi)
    also have "(2 :: rat) powi int a = 2 powi (k + 1) * 2 powi (int b - 1)"
      using powi2_add [of "k + 1" "int b - 1"] by (simp add: k_def)
    also have "\<dots> \<le> 2 powi (k + 1) * of_int d" using d_lo by (intro mult_left_mono) auto
    finally show ?thesis using d by (simp add: q field_simps)
  qed
  show "2 powi ilog2 q \<le> q" using lo by (simp add: k)
  show "q < 2 powi (ilog2 q + 1)" using hi by (auto simp: k not_le)
qed

lemma ilog2_less: "0 < q \<Longrightarrow> q < 2 powi e \<Longrightarrow> ilog2 q < e"
  using ilog2_bounds(1) [of q] powi2_less_iff [of "ilog2 q" e] by linarith

lemma ilog2_ge: "0 < q \<Longrightarrow> 2 powi e \<le> q \<Longrightarrow> e \<le> ilog2 q"
  using ilog2_bounds(2) [of q] powi2_less_iff [of e "ilog2 q + 1"] by linarith

lemma ilog2_mono: "0 < q \<Longrightarrow> q \<le> r \<Longrightarrow> ilog2 q \<le> ilog2 r"
  using ilog2_bounds(1) [of q] by (auto intro: ilog2_ge)

lemma rnd_0 [simp]: "rnd p emin 0 = 0"
  by (simp add: rnd_def)

lemma grid_minus [simp]: "grid p emin (- q) = grid p emin q"
  by (simp add: grid_def)

lemma rnd_minus: "rnd p emin (- q) = - rnd p emin q"
  by (simp add: rnd_def rhe_minus)

text \<open>A number that is a multiple of its own grid is not changed.\<close>

lemma rnd_on_grid:
  assumes "q = of_int m * 2 powi e" "grid p emin q \<le> e"
  shows "rnd p emin q = q"
proof (cases "q = 0")
  case False
  have "q / 2 powi grid p emin q = of_int m * 2 powi (e - grid p emin q)"
    by (simp add: assms(1) power_int_diff)
  also have "\<dots> = of_int (m * 2 ^ nat (e - grid p emin q))"
    using assms(2) by (simp add: powi2_of_int)
  finally have "rhe (q / 2 powi grid p emin q) = m * 2 ^ nat (e - grid p emin q)"
    by (metis rhe_of_int)
  moreover have "of_int (m * 2 ^ nat (e - grid p emin q)) * 2 powi grid p emin q = q"
    using \<open>q / 2 powi grid p emin q = of_int m * 2 powi (e - grid p emin q)\<close>
      \<open>of_int m * 2 powi (e - grid p emin q) = of_int (m * 2 ^ nat (e - grid p emin q))\<close>
    by (metis nonzero_divide_eq_eq powi2_nonzero)
  ultimately show ?thesis using False by (simp add: rnd_def)
qed simp

text \<open>Numbers with at most \<open>p\<close> significant bits are representable.\<close>

lemma rnd_exact:
  assumes "q = of_int m * 2 powi e" "\<bar>m\<bar> < 2 ^ nat p" "emin \<le> e" "0 \<le> p"
  shows "rnd p emin q = q"
proof (cases "m = 0")
  case True
  with assms show ?thesis by simp
next
  case False
  have "\<bar>q\<bar> = of_int \<bar>m\<bar> * 2 powi e" using assms(1) by (simp add: abs_mult)
  also have "\<dots> < of_int (2 ^ nat p) * 2 powi e"
    using assms(2) by (intro mult_strict_right_mono) (simp_all only: of_int_less_iff powi2_pos)
  also have "\<dots> = 2 powi (p + e)" using assms(4) by (simp add: powi2_add powi2_of_int)
  finally have "ilog2 \<bar>q\<bar> < p + e" using False assms(1) by (intro ilog2_less) auto
  with assms(3) have "grid p emin q \<le> e" by (simp add: grid_def)
  with assms(1) show ?thesis by (rule rnd_on_grid)
qed

lemma rnd_power2: "emin \<le> e \<Longrightarrow> 1 \<le> p \<Longrightarrow> rnd p emin (2 powi e) = 2 powi e"
  by (rule rnd_exact [where m = 1 and e = e]) (auto intro: one_less_power)

lemma rnd_nonneg: "0 \<le> q \<Longrightarrow> 0 \<le> rnd p emin q"
proof -
  assume "0 \<le> q"
  then have "0 \<le> q / 2 powi grid p emin q" by (simp add: less_imp_le)
  then have "0 \<le> rhe (q / 2 powi grid p emin q)" using rhe_mono [of 0] rhe_of_int [of 0] by force
  then show ?thesis by (simp add: rnd_def less_imp_le)
qed

text \<open>Rounding does not cross a power of two in the range.\<close>

lemma rnd_below_pow:
  assumes "0 < q" "q \<le> 2 powi e" "grid p emin q \<le> e"
  shows "rnd p emin q \<le> 2 powi e"
proof -
  let ?g = "grid p emin q"
  have "q / 2 powi ?g \<le> 2 powi e / 2 powi ?g" using assms(2) by (simp add: divide_right_mono)
  also have "\<dots> = of_int (2 ^ nat (e - ?g))"
    using assms(3) by (simp add: powi2_of_int flip: power_int_diff)
  finally have "rhe (q / 2 powi ?g) \<le> 2 ^ nat (e - ?g)"
    using rhe_mono rhe_of_int by metis
  then have "of_int (rhe (q / 2 powi ?g)) * 2 powi ?g \<le> of_int (2 ^ nat (e - ?g)) * (2 :: rat) powi ?g"
    by (intro mult_right_mono) (simp_all only: of_int_le_iff less_imp_le [OF powi2_pos])
  also have "\<dots> = 2 powi e" using assms(3) by (rule powi2_scale)
  finally show ?thesis using assms(1) by (simp add: rnd_def)
qed

lemma rnd_above_pow:
  assumes "2 powi e \<le> q" "grid p emin q \<le> e"
  shows "2 powi e \<le> rnd p emin q"
proof -
  let ?g = "grid p emin q"
  have pos: "0 < q" using assms(1) powi2_pos [of e] by linarith
  have "of_int (2 ^ nat (e - ?g)) = 2 powi e / (2 :: rat) powi ?g"
    using assms(2) by (simp add: powi2_of_int flip: power_int_diff)
  also have "\<dots> \<le> q / 2 powi ?g" using assms(1) by (simp add: divide_right_mono)
  finally have "2 ^ nat (e - ?g) \<le> rhe (q / 2 powi ?g)"
    using rhe_mono rhe_of_int by metis
  then have "of_int (2 ^ nat (e - ?g)) * (2 :: rat) powi ?g \<le> of_int (rhe (q / 2 powi ?g)) * 2 powi ?g"
    by (intro mult_right_mono) (simp_all only: of_int_le_iff less_imp_le [OF powi2_pos])
  then have "2 powi e \<le> of_int (rhe (q / 2 powi ?g)) * (2 :: rat) powi ?g"
    by (simp only: powi2_scale [OF assms(2)])
  then show ?thesis using pos by (simp add: rnd_def)
qed

lemma rnd_mono_pos:
  assumes q: "0 < q" and le: "q \<le> r" and p: "1 \<le> p"
  shows "rnd p emin q \<le> rnd p emin r"
proof (cases "grid p emin q = grid p emin r")
  case True
  have "rhe (q / 2 powi grid p emin q) \<le> rhe (r / 2 powi grid p emin q)"
    using le by (intro rhe_mono divide_right_mono) (auto simp: less_imp_le)
  with True q le show ?thesis by (simp add: rnd_def less_imp_le)
next
  case False
  have r: "0 < r" using q le by linarith
  define e where "e = ilog2 r"
  have less: "ilog2 q < e" and ge: "emin < e - (p - 1)"
    using False ilog2_mono [OF q le] q r by (auto simp: grid_def e_def)
  have gq: "grid p emin q \<le> e" and gr: "grid p emin r \<le> e"
    using less ge p q r by (auto simp: grid_def e_def)
  have "q \<le> 2 powi e"
    using ilog2_bounds(2) [OF q] powi2_mono [of "ilog2 q + 1" e] less by linarith
  then have "rnd p emin q \<le> 2 powi e" using q gq by (intro rnd_below_pow)
  also have "\<dots> \<le> rnd p emin r"
    using ilog2_bounds(1) [OF r] gr by (intro rnd_above_pow) (auto simp: e_def)
  finally show ?thesis .
qed

lemma rnd_mono:
  assumes "q \<le> r" "1 \<le> p"
  shows "rnd p emin q \<le> rnd p emin r"
proof -
  consider "0 < q" | "q \<le> 0" "0 \<le> r" | "r < 0" by linarith
  then show ?thesis
  proof cases
    case 1
    with assms show ?thesis by (intro rnd_mono_pos)
  next
    case 2
    have "rnd p emin q \<le> 0"
      using 2 rnd_nonneg [of "- q" p emin] by (simp add: rnd_minus)
    also have "\<dots> \<le> rnd p emin r" using 2 by (intro rnd_nonneg)
    finally show ?thesis .
  next
    case 3
    then have "rnd p emin (- r) \<le> rnd p emin (- q)" using assms by (intro rnd_mono_pos) auto
    then show ?thesis by (simp add: rnd_minus)
  qed
qed

section \<open>binary64\<close>

datatype double = DNaN | DInf bool | DFin rat

definition to_double :: "rat \<Rightarrow> double" where
  "to_double q = (let r = rnd 53 (- 1074) q in if \<bar>r\<bar> < 2 ^ 1024 then DFin r else DInf (r < 0))"

fun isnan :: "double \<Rightarrow> bool" where
  "isnan DNaN = True"
| "isnan _ = False"

fun dneg :: "double \<Rightarrow> double" where
  "dneg DNaN = DNaN"
| "dneg (DInf s) = DInf (\<not> s)"
| "dneg (DFin q) = DFin (- q)"

fun dadd :: "double \<Rightarrow> double \<Rightarrow> double" where
  "dadd (DFin a) (DFin b) = to_double (a + b)"
| "dadd (DInf s) (DInf t) = (if s = t then DInf s else DNaN)"
| "dadd (DInf s) (DFin b) = DInf s"
| "dadd (DFin a) (DInf t) = DInf t"
| "dadd _ _ = DNaN"

definition dsub :: "double \<Rightarrow> double \<Rightarrow> double" where
  "dsub a b = dadd a (dneg b)"

fun dmul :: "double \<Rightarrow> double \<Rightarrow> double" where
  "dmul (DFin a) (DFin b) = to_double (a * b)"
| "dmul (DInf s) (DInf t) = DInf (s \<noteq> t)"
| "dmul (DInf s) (DFin b) = (if b = 0 then DNaN else DInf (s \<noteq> (b < 0)))"
| "dmul (DFin a) (DInf t) = (if a = 0 then DNaN else DInf ((a < 0) \<noteq> t))"
| "dmul _ _ = DNaN"

fun ddiv :: "double \<Rightarrow> double \<Rightarrow> double" where
  "ddiv (DFin a) (DFin b) =
     (if b = 0 then (if a = 0 then DNaN else DInf (a < 0)) else to_double (a / b))"
| "ddiv (DInf s) (DFin b) = DInf (s \<noteq> (b < 0))"
| "ddiv (DFin a) (DInf t) = DFin 0"
| "ddiv _ _ = DNaN"

text \<open>\<open>a < b\<close>; every comparison with a NaN is false.\<close>

fun dlt :: "double \<Rightarrow> double \<Rightarrow> bool" where
  "dlt (DFin a) (DFin b) = (a < b)"
| "dlt (DInf s) (DFin b) = s"
| "dlt (DFin a) (DInf t) = (\<not> t)"
| "dlt (DInf s) (DInf t) = (s \<and> \<not> t)"
| "dlt _ _ = False"

text \<open>Conversion to an unsigned integer of \<open>w\<close> bits truncates; out of range is undefined.\<close>

fun d_to_unsigned :: "nat \<Rightarrow> double \<Rightarrow> nat option" where
  "d_to_unsigned w (DFin q) = (if - 1 < q \<and> q < 2 ^ w then Some (nat \<lfloor>q\<rfloor>) else None)"
| "d_to_unsigned w _ = None"

lemma to_double_exact:
  assumes "q = of_int m * 2 powi e" "\<bar>m\<bar> < 2 ^ 53" "- 1074 \<le> e" "\<bar>q\<bar> < 2 ^ 1024"
  shows "to_double q = DFin q"
  using assms rnd_exact [of q m e 53 "- 1074"] by (simp add: to_double_def)

lemma to_double_of_int: "\<bar>m\<bar> < 2 ^ 53 \<Longrightarrow> to_double (of_int m) = DFin (of_int m)"
proof -
  assume m: "\<bar>m\<bar> < 2 ^ 53"
  then have "\<bar>of_int m :: rat\<bar> < 2 ^ 53" by (metis of_int_abs of_int_less_iff of_int_numeral of_int_power)
  also have "(2 :: rat) ^ 53 < 2 ^ 1024" by (rule power_strict_increasing) auto
  finally show ?thesis using m by (intro to_double_exact [where m = m and e = 0]) auto
qed

lemma to_double_of_nat: "m < 2 ^ 53 \<Longrightarrow> to_double (of_nat m) = DFin (of_nat m)"
  using to_double_of_int [of "int m"] by simp

lemma to_double_bounded:
  assumes "to_double a = DFin a" "to_double b = DFin b" "a \<le> q" "q \<le> b"
  shows "\<exists>r. to_double q = DFin r \<and> a \<le> r \<and> r \<le> b"
proof -
  let ?r = "rnd 53 (- 1074) q"
  have ab: "rnd 53 (- 1074) a = a" "\<bar>a\<bar> < 2 ^ 1024" "rnd 53 (- 1074) b = b" "\<bar>b\<bar> < 2 ^ 1024"
    using assms(1,2) by (auto simp: to_double_def Let_def split: if_splits)
  have r: "a \<le> ?r" "?r \<le> b"
    using rnd_mono [of a q 53 "- 1074"] rnd_mono [of q b 53 "- 1074"] assms(3,4) ab by auto
  then have "\<bar>?r\<bar> < 2 ^ 1024" using ab by linarith
  with r show ?thesis by (simp add: to_double_def)
qed

section \<open>binary32\<close>

type_synonym gfloat = "32 word"

definition f32_neg :: "gfloat \<Rightarrow> bool" where
  "f32_neg w \<longleftrightarrow> 2 ^ 31 \<le> unat w"

definition f32_exp :: "gfloat \<Rightarrow> nat" where
  "f32_exp w = unat w div 2 ^ 23 mod 256"

definition f32_frac :: "gfloat \<Rightarrow> nat" where
  "f32_frac w = unat w mod 2 ^ 23"

definition f32_isnan :: "gfloat \<Rightarrow> bool" where
  "f32_isnan w \<longleftrightarrow> f32_exp w = 255 \<and> f32_frac w \<noteq> 0"

definition f32_isinf :: "gfloat \<Rightarrow> bool" where
  "f32_isinf w \<longleftrightarrow> f32_exp w = 255 \<and> f32_frac w = 0"

text \<open>\<open>NAN\<close> and the conversion \<open>(double)\<close>, which is exact.\<close>

definition f32_nan :: gfloat where
  "f32_nan = 0x7FC00000"

definition f32_mag :: "gfloat \<Rightarrow> rat" where
  "f32_mag w = (if f32_exp w = 0 then of_nat (f32_frac w) * 2 powi (- 149)
     else of_nat (2 ^ 23 + f32_frac w) * 2 powi (int (f32_exp w) - 150))"

definition f32_to_double :: "gfloat \<Rightarrow> double" where
  "f32_to_double w =
     (if f32_exp w = 255 then (if f32_frac w \<noteq> 0 then DNaN else DInf (f32_neg w))
      else DFin (if f32_neg w then - f32_mag w else f32_mag w))"

text \<open>The conversion \<open>(float)\<close>: round to 24 bits and pack.\<close>

definition f32_bits :: "bool \<Rightarrow> nat \<Rightarrow> nat \<Rightarrow> gfloat" where
  "f32_bits s e f = of_nat ((if s then 2 ^ 31 else 0) + e * 2 ^ 23 + f)"

definition rnd32 :: "rat \<Rightarrow> rat" where
  "rnd32 q = rnd 24 (- 149) q"

fun double_to_f32 :: "double \<Rightarrow> gfloat" where
  "double_to_f32 DNaN = f32_nan"
| "double_to_f32 (DInf s) = f32_bits s 255 0"
| "double_to_f32 (DFin q) = (let a = \<bar>rnd32 q\<bar> in
     if 2 ^ 128 \<le> a then f32_bits (q < 0) 255 0
     else if a < 2 powi (- 126) then f32_bits (q < 0) 0 (nat \<lfloor>a / 2 powi (- 149)\<rfloor>)
     else f32_bits (q < 0) (nat (ilog2 a + 127)) (nat \<lfloor>a / 2 powi (ilog2 a - 23)\<rfloor> - 2 ^ 23))"

lemma isnan_f32_to_double [simp]: "isnan (f32_to_double w) \<longleftrightarrow> f32_isnan w"
  by (simp add: f32_to_double_def f32_isnan_def)

lemma f32_isnan_nan [simp]: "f32_isnan f32_nan"
  by (simp add: f32_isnan_def f32_nan_def f32_exp_def f32_frac_def)

lemma f32_bits_fields:
  assumes "e < 256" "f < 2 ^ 23"
  shows "f32_neg (f32_bits s e f) = s" "f32_exp (f32_bits s e f) = e" "f32_frac (f32_bits s e f) = f"
proof -
  have small: "e * 2 ^ 23 + f < 2 ^ 31" using assms by simp
  then have u: "unat (f32_bits s e f) = (if s then 2 ^ 31 else 0) + e * 2 ^ 23 + f"
    unfolding f32_bits_def unat_of_nat by (simp add: take_bit_nat_def)
  show "f32_neg (f32_bits s e f) = s" using small by (simp add: f32_neg_def u)
  define h where "h = (if s then 256 else 0) + e"
  have h: "unat (f32_bits s e f) = f + h * 2 ^ 23" by (simp add: u h_def)
  have "h mod 256 = e" using assms(1) by (simp add: h_def)
  moreover have "(f + h * 2 ^ 23) mod 2 ^ 23 = f" "(f + h * 2 ^ 23) div 2 ^ 23 = h"
    using assms(2) by simp_all
  ultimately show "f32_frac (f32_bits s e f) = f" "f32_exp (f32_bits s e f) = e"
    by (simp_all only: f32_frac_def f32_exp_def h)
qed

text \<open>What a finite float can be: at most 24 significant bits, exponent at least -149.\<close>

lemma f32_finite_form:
  assumes "f32_to_double w = DFin q"
  obtains m e where "q = of_int m * 2 powi e" "\<bar>m\<bar> < 2 ^ 24" "- 149 \<le> e" "e \<le> 104"
proof -
  have e: "f32_exp w \<noteq> 255" "f32_exp w < 256" and f: "f32_frac w < 2 ^ 23"
    using assms by (auto simp: f32_to_double_def f32_exp_def f32_frac_def split: if_splits)
  define k where "k = (if f32_exp w = 0 then f32_frac w else 2 ^ 23 + f32_frac w)"
  define x where "x = (if f32_exp w = 0 then - 149 else int (f32_exp w) - 150)"
  have mag: "f32_mag w = of_nat k * 2 powi x" by (simp add: f32_mag_def k_def x_def)
  have q: "q = of_int (if f32_neg w then - int k else int k) * 2 powi x"
    using assms e(1) by (auto simp: f32_to_double_def mag)
  show ?thesis
    by (rule that [OF q]) (use e f in \<open>auto simp: k_def x_def\<close>)
qed

lemma f32_finite_bound: "f32_to_double w = DFin q \<Longrightarrow> \<bar>q\<bar> < 2 ^ 128"
proof -
  assume "f32_to_double w = DFin q"
  then obtain m e where q: "q = of_int m * 2 powi e" "\<bar>m\<bar> < 2 ^ 24" "e \<le> 104"
    by (rule f32_finite_form)
  have "\<bar>q\<bar> = of_int \<bar>m\<bar> * 2 powi e" by (simp add: q(1) abs_mult)
  also have "\<dots> < of_int (2 ^ 24) * 2 powi e"
    using q(2) by (intro mult_strict_right_mono) (simp_all only: of_int_less_iff powi2_pos)
  also have "\<dots> \<le> of_int (2 ^ 24) * 2 powi 104"
    using q(3) by (intro mult_left_mono powi2_mono) auto
  finally show ?thesis by simp
qed

lemma rnd32_f32: "f32_to_double w = DFin q \<Longrightarrow> rnd32 q = q"
  by (erule f32_finite_form) (simp add: rnd32_def rnd_exact)

text \<open>The rounded magnitude as a multiple of the grid the packing uses.\<close>

lemma rnd32_multiple:
  assumes "0 \<le> q" "2 powi (- 126) \<le> rnd32 q"
  obtains N :: nat where "rnd32 q = of_nat N * 2 powi (ilog2 (rnd32 q) - 23)"
proof -
  define E where "E = ilog2 (rnd32 q)"
  define g where "g = grid 24 (- 149) q"
  define M where "M = rhe (q / 2 powi g)"
  have pos: "0 < rnd32 q" using assms(2) powi2_pos [of "- 126"] by linarith
  have q: "0 < q" using assms(1) pos by (cases "q = 0") (auto simp: rnd32_def)
  have r: "rnd32 q = of_int M * 2 powi g" using q by (simp add: rnd32_def rnd_def g_def M_def)
  with pos have M: "0 < M"
    using powi2_pos [of g] by (auto simp: zero_less_mult_iff not_less [symmetric] order.asym)
  have E: "- 126 \<le> E" unfolding E_def using pos assms(2) by (rule ilog2_ge)
  have lo: "2 powi E \<le> rnd32 q" unfolding E_def using pos by (rule ilog2_bounds)
  show thesis
  proof (cases "E - 23 \<le> g")
    case True
    have "rnd32 q = of_int M * (of_int (2 ^ nat (g - (E - 23))) * 2 powi (E - 23))"
      by (simp only: r powi2_scale [OF True])
    also have "\<dots> = of_nat (nat (M * 2 ^ nat (g - (E - 23)))) * 2 powi (E - 23)"
      using M by simp
    finally show thesis using that by (simp only: E_def)
  next
    case False
    define L where "L = max (ilog2 q + 1) (- 149)"
    have "q \<le> 2 powi L"
      using ilog2_bounds(2) [OF q] powi2_mono [of "ilog2 q + 1" L] by (simp add: L_def)
    then have "rnd32 q \<le> 2 powi L"
      using rnd_mono [of q "2 powi L" 24 "- 149"] rnd_power2 [of "- 149" L 24]
      by (simp add: rnd32_def L_def)
    with lo have "E \<le> L" using powi2_less_iff [of L E] by linarith
    moreover have "L \<le> E" using False E q by (auto simp: L_def g_def grid_def)
    ultimately have "rnd32 q = 2 powi E" using \<open>rnd32 q \<le> 2 powi L\<close> lo by simp
    also have "\<dots> = of_nat (2 ^ 23) * 2 powi (E - 23)" using powi2_add [of 23 "E - 23"] by simp
    finally show thesis using that by (simp only: E_def)
  qed
qed

lemma rnd32_small_multiple:
  obtains N :: nat where "\<bar>rnd32 q\<bar> = of_nat N * 2 powi (- 149)"
proof (cases "q = 0")
  case True
  then show thesis using that [of 0] by (simp add: rnd32_def)
next
  case False
  define g where "g = grid 24 (- 149) q"
  define M where "M = rhe (q / 2 powi g)"
  have g: "- 149 \<le> g" by (simp add: g_def grid_def)
  have "\<bar>rnd32 q\<bar> = of_int \<bar>M\<bar> * (of_int (2 ^ nat (g - (- 149))) * 2 powi (- 149))"
    using False by (simp only: powi2_scale [OF g]) (simp add: rnd32_def rnd_def g_def M_def abs_mult)
  also have "\<dots> = of_nat (nat (\<bar>M\<bar> * 2 ^ nat (g - (- 149)))) * 2 powi (- 149)" by simp
  finally show thesis using that by blast
qed

lemma rnd32_abs: "rnd32 \<bar>q\<bar> = \<bar>rnd32 q\<bar>"
  using rnd_minus [of 24 "- 149" q] rnd_nonneg [of q 24 "- 149"] rnd_nonneg [of "- q" 24 "- 149"]
  by (cases "0 \<le> q") (auto simp: rnd32_def)

lemma f32_mag_normal:
  fixes s :: bool
  assumes a: "0 < a" "2 powi (- 126) \<le> a" "a < 2 ^ 128" and N: "a = of_nat N * 2 powi (ilog2 a - 23)"
  defines "w \<equiv> f32_bits s (nat (ilog2 a + 127)) (nat \<lfloor>a / 2 powi (ilog2 a - 23)\<rfloor> - 2 ^ 23)"
  shows "f32_exp w \<noteq> 255" "f32_neg w = s" "f32_mag w = a"
proof -
  define E where "E = ilog2 a"
  have E: "- 126 \<le> E" "E < 128"
    unfolding E_def using ilog2_ge [OF a(1,2)] ilog2_less [of a 128] a by auto
  have fl: "nat \<lfloor>a / 2 powi (E - 23)\<rfloor> = N"
    using N unfolding E_def by (metis floor_of_nat nat_int nonzero_eq_divide_eq powi2_nonzero)
  have bounds: "2 powi E \<le> a" "a < 2 powi (E + 1)"
    using ilog2_bounds [OF a(1)] by (simp_all add: E_def)
  have "2 powi E = 2 ^ 23 * (2 :: rat) powi (E - 23)" "2 powi (E + 1) = 2 ^ 24 * (2 :: rat) powi (E - 23)"
    using powi2_add [of 23 "E - 23"] powi2_add [of 24 "E - 23"] by (simp_all add: add.commute)
  with bounds N have "2 ^ 23 * 2 powi (E - 23) \<le> of_nat N * (2 :: rat) powi (E - 23)"
    "of_nat N * 2 powi (E - 23) < 2 ^ 24 * (2 :: rat) powi (E - 23)"
    by (simp_all only: E_def)
  then have "2 ^ 23 \<le> (of_nat N :: rat)" "(of_nat N :: rat) < 2 ^ 24"
    by (simp_all only: mult_le_cancel_right_pos mult_less_cancel_right_pos powi2_pos)
  then have NN: "2 ^ 23 \<le> N" "N < 2 ^ 24"
    by (metis of_nat_le_iff of_nat_numeral of_nat_power, metis of_nat_less_iff of_nat_numeral of_nat_power)
  have w: "w = f32_bits s (nat (E + 127)) (N - 2 ^ 23)" by (simp add: w_def fl flip: E_def)
  have e: "nat (E + 127) < 256" "nat (E + 127) \<noteq> 255" "nat (E + 127) \<noteq> 0"
    and f: "N - 2 ^ 23 < 2 ^ 23" using E NN by auto
  show "f32_exp w \<noteq> 255" "f32_neg w = s" using e f by (simp_all add: w f32_bits_fields)
  have "f32_mag w = of_nat N * 2 powi (E - 23)"
    using e f NN E by (simp add: w f32_mag_def f32_bits_fields)
  then show "f32_mag w = a" using N by (simp add: E_def)
qed

lemma f32_mag_subnormal:
  fixes s :: bool
  assumes a: "a < 2 powi (- 126)" and N: "a = of_nat N * 2 powi (- 149)"
  defines "w \<equiv> f32_bits s 0 (nat \<lfloor>a / 2 powi (- 149)\<rfloor>)"
  shows "f32_exp w \<noteq> 255" "f32_neg w = s" "f32_mag w = a"
proof -
  have fl: "nat \<lfloor>a / 2 powi (- 149)\<rfloor> = N"
    using N by (metis floor_of_nat nat_int nonzero_eq_divide_eq powi2_nonzero)
  have "2 powi (- 126) = 2 ^ 23 * (2 :: rat) powi (- 149)" using powi2_add [of 23 "- 149"] by simp
  with a N have "of_nat N * 2 powi (- 149) < 2 ^ 23 * (2 :: rat) powi (- 149)" by simp
  then have "(of_nat N :: rat) < 2 ^ 23" by (simp only: mult_less_cancel_right_pos powi2_pos)
  then have NN: "N < 2 ^ 23" by (metis of_nat_less_iff of_nat_numeral of_nat_power)
  have w: "w = f32_bits s 0 N" unfolding w_def fl ..
  show "f32_exp w \<noteq> 255" "f32_neg w = s" using NN by (simp_all add: w f32_bits_fields)
  show "f32_mag w = a" using NN N by (simp only: w f32_mag_def f32_bits_fields) simp
qed

text \<open>Narrowing and widening again is rounding to 24 bits.\<close>

lemma f32_round_trip:
  assumes "\<bar>rnd32 q\<bar> < 2 ^ 128"
  shows "f32_to_double (double_to_f32 (DFin q)) = DFin (rnd32 q)"
proof -
  define a where "a = \<bar>rnd32 q\<bar>"
  have sgn: "rnd32 q = (if q < 0 then - a else a)"
    using rnd_minus [of 24 "- 149" q] rnd_nonneg [of q 24 "- 149"] rnd_nonneg [of "- q" 24 "- 149"]
    by (auto simp: a_def rnd32_def)
  have "\<exists>s. f32_exp (double_to_f32 (DFin q)) \<noteq> 255 \<and> f32_neg (double_to_f32 (DFin q)) = (q < 0)
          \<and> f32_mag (double_to_f32 (DFin q)) = a"
  proof (cases "a < 2 powi (- 126)")
    case True
    obtain N where "a = of_nat N * 2 powi (- 149)" unfolding a_def by (rule rnd32_small_multiple)
    from f32_mag_subnormal [OF True this, of "q < 0"] True show ?thesis
      using assms by (simp add: a_def Let_def not_le)
  next
    case False
    then have lo: "2 powi (- 126) \<le> rnd32 \<bar>q\<bar>" by (simp add: a_def rnd32_abs)
    obtain N where "a = of_nat N * 2 powi (ilog2 a - 23)"
      using rnd32_multiple [of "\<bar>q\<bar>"] lo by (auto simp: a_def rnd32_abs)
    moreover have "0 < a" using False powi2_pos [of "- 126"] by linarith
    ultimately show ?thesis
      using f32_mag_normal [of a N "q < 0"] False assms by (simp add: a_def Let_def not_le)
  qed
  then show ?thesis using sgn by (auto simp: f32_to_double_def)
qed

lemma f32_round_bounded:
  assumes "f32_to_double u = DFin a" "f32_to_double v = DFin b" "a \<le> q" "q \<le> b"
  shows "\<exists>r. f32_to_double (double_to_f32 (DFin q)) = DFin r \<and> a \<le> r \<and> r \<le> b"
proof -
  have r: "a \<le> rnd32 q" "rnd32 q \<le> b"
    using rnd_mono [of a q 24 "- 149"] rnd_mono [of q b 24 "- 149"] assms(3,4)
      rnd32_f32 [OF assms(1)] rnd32_f32 [OF assms(2)] by (auto simp: rnd32_def)
  moreover have "\<bar>rnd32 q\<bar> < 2 ^ 128"
    using r f32_finite_bound [OF assms(1)] f32_finite_bound [OF assms(2)] by linarith
  ultimately show ?thesis by (simp only: f32_round_trip) blast
qed

end
