(* ===== verification/Store.thy ===== *)
theory Store
  imports Metrics Floats
begin

text \<open>
  \<^verbatim>\<open>app/store.h\<close>, \<^verbatim>\<open>app/store.c\<close>: three ring buffers of samples. The fine tier takes every
  sample, the coarser ones a mean per bucket. Every buffer access is checked, so an operation
  that returns \<open>Some\<close> stayed inside its allocations. The mutex is not modelled: every
  operation holds it throughout, so the operations are atomic and the model is their sequence.
  The callback of a tier is the user data it was registered with; \<open>store_push\<close> returns the
  calls it makes after unlocking, in order.
\<close>

section \<open>Model\<close>

definition STORE_TIERS :: nat where "STORE_TIERS = 3"

record store_tier =
  tier_interval_s :: guint
  tier_capacity :: guint
  tier_count :: guint
  tier_head :: guint
  tier_timestamps :: "gint64 list"
  tier_data :: "gfloat list"
  tier_acc :: "double list"
  tier_acc_n :: "guint list"
  tier_acc_start :: gint64
  tier_callback :: "nat option"

record store =
  st_registry :: metric_registry
  st_n_metrics :: guint
  st_tiers :: "store_tier list"
  st_latest :: "gfloat list"
  st_scratch :: "gfloat list"
  st_latest_ts :: gint64
  st_has_latest :: bool

type_synonym pending_call = "nat \<times> gfloat list \<times> gint64"

subsection \<open>Sizes\<close>

definition TIER_INTERVAL :: "guint list" where "TIER_INTERVAL = [1, 15, 300]"

definition TIER_CAPACITY :: "guint list" where "TIER_CAPACITY = [1800, 2880, 8640]"

definition TIER_MIN_CAPACITY :: "guint list" where "TIER_MIN_CAPACITY = [300, 720, 576]"

definition MEMORY_BUDGET_FRACTION :: double where
  "MEMORY_BUDGET_FRACTION = to_double (15 / 1000)"

text \<open>\<open>(guint)((double)capacity * scale)\<close>.\<close>

definition scale_capacity :: "double \<Rightarrow> guint \<Rightarrow> guint \<Rightarrow> guint option" where
  "scale_capacity scale lo c = do {
     k \<leftarrow> d_to_unsigned 32 (dmul (to_double (of_nat (unat c))) scale);
     Some (max lo (of_nat k))
   }"

text \<open>
  The capacities \<open>store_new\<close> chooses for \<open>n\<close> metrics, a sample interval and the total
  memory in bytes (0 when unknown).
\<close>

definition base_capacities :: "guint \<Rightarrow> guint list" where
  "base_capacities fine_interval =
     [max (TIER_MIN_CAPACITY ! 0) (TIER_CAPACITY ! 0 div fine_interval),
      TIER_CAPACITY ! 1, TIER_CAPACITY ! 2]"

definition scaled_capacities :: "guint \<Rightarrow> guint list \<Rightarrow> guint64 \<Rightarrow> guint list option" where
  "scaled_capacities n cs memory =
     (if memory = 0 then Some cs
      else do {
        budget \<leftarrow> d_to_unsigned 64 (dmul (to_double (of_nat (unat memory))) MEMORY_BUDGET_FRACTION);
        let per_sample = unat n * 4 + 8;
            wanted = sum_list (map (\<lambda>c. unat c * per_sample) cs) in
        if budget < wanted
        then let scale = ddiv (to_double (of_nat budget)) (to_double (of_nat wanted)) in do {
          c0 \<leftarrow> scale_capacity scale (TIER_MIN_CAPACITY ! 0) (cs ! 0);
          c1 \<leftarrow> scale_capacity scale (TIER_MIN_CAPACITY ! 1) (cs ! 1);
          c2 \<leftarrow> scale_capacity scale (TIER_MIN_CAPACITY ! 2) (cs ! 2);
          Some [c0, c1, c2]
        }
        else Some cs
      })"

definition new_tier :: "guint \<Rightarrow> nat \<Rightarrow> guint \<Rightarrow> guint \<Rightarrow> store_tier" where
  "new_tier n i interval cap =
     \<lparr>tier_interval_s = interval, tier_capacity = cap, tier_count = 0, tier_head = 0,
      tier_timestamps = replicate (unat cap) 0,
      tier_data = replicate (unat cap * unat n) 0,
      tier_acc = (if 0 < i then replicate (unat n) (DFin 0) else []),
      tier_acc_n = (if 0 < i then replicate (unat n) 0 else []),
      tier_acc_start = 0, tier_callback = None\<rparr>"

definition store_new :: "metric_registry \<Rightarrow> guint \<Rightarrow> guint64 \<Rightarrow> store option" where
  "store_new registry base_interval_s memory = (let n = reg_count registry;
       fine_interval = max 1 base_interval_s in do {
     cs \<leftarrow> scaled_capacities n (base_capacities fine_interval) memory;
     Some \<lparr>st_registry = registry, st_n_metrics = n,
       st_tiers = [new_tier n 0 fine_interval (cs ! 0), new_tier n 1 (TIER_INTERVAL ! 1) (cs ! 1),
                   new_tier n 2 (TIER_INTERVAL ! 2) (cs ! 2)],
       st_latest = replicate (unat n) 0, st_scratch = replicate (unat n) 0,
       st_latest_ts = 0, st_has_latest = False\<rparr>
   })"

definition tier_bytes :: "store_tier \<Rightarrow> guint \<Rightarrow> nat" where
  "tier_bytes tier n = unat (tier_capacity tier) * (unat n * 4 + 8)"

definition store_bytes :: "store \<Rightarrow> nat" where
  "store_bytes s = sum_list (map (\<lambda>t. tier_bytes t (st_n_metrics s)) (st_tiers s))"

definition store_tier_span_s :: "store \<Rightarrow> nat \<Rightarrow> guint option" where
  "store_tier_span_s s i = do {
     tier \<leftarrow> arr_get (st_tiers s) i;
     Some (tier_interval_s tier * tier_capacity tier)
   }"

subsection \<open>Appending\<close>

definition tier_append :: "nat \<Rightarrow> gfloat list \<Rightarrow> gint64 \<Rightarrow> store_tier \<Rightarrow> store_tier option" where
  "tier_append n values timestamp tier = do {
     tss \<leftarrow> arr_set (unat (tier_head tier)) timestamp (tier_timestamps tier);
     row \<leftarrow> mem_get 0 n values;
     d \<leftarrow> mem_put (unat (tier_head tier) * n) row (tier_data tier);
     h \<leftarrow> guint_mod (tier_head tier + 1) (tier_capacity tier);
     Some (tier\<lparr>tier_timestamps := tss, tier_data := d, tier_head := h,
       tier_count := (if tier_count tier < tier_capacity tier then tier_count tier + 1
                      else tier_count tier)\<rparr>)
   }"

definition store_set_tier_callback :: "store \<Rightarrow> nat \<Rightarrow> nat option \<Rightarrow> store" where
  "store_set_tier_callback s i cb =
     (if STORE_TIERS \<le> i then s
      else s\<lparr>st_tiers := (st_tiers s)[i := (st_tiers s ! i)\<lparr>tier_callback := cb\<rparr>]\<rparr>)"

text \<open>The running sums of a coarse tier: NaN readings are left out.\<close>

definition tier_accumulate :: "nat \<Rightarrow> gfloat list \<Rightarrow> store_tier \<Rightarrow> store_tier option" where
  "tier_accumulate n values tier =
     (if n \<le> length values \<and> n \<le> length (tier_acc tier) \<and> n \<le> length (tier_acc_n tier)
      then Some (tier\<lparr>
        tier_acc := map (\<lambda>m. if f32_isnan (values ! m) then tier_acc tier ! m
                       else dadd (tier_acc tier ! m) (f32_to_double (values ! m))) [0..<n]
                     @ drop n (tier_acc tier),
        tier_acc_n := map (\<lambda>m. if f32_isnan (values ! m) then tier_acc_n tier ! m
                       else tier_acc_n tier ! m + 1) [0..<n] @ drop n (tier_acc_n tier)\<rparr>)
      else None)"

definition bucket_value :: "double \<Rightarrow> guint \<Rightarrow> gfloat" where
  "bucket_value acc acc_n = (if acc_n \<noteq> 0
     then double_to_f32 (ddiv acc (to_double (of_nat (unat acc_n)))) else f32_nan)"

definition tier_means :: "nat \<Rightarrow> store_tier \<Rightarrow> gfloat list option" where
  "tier_means n tier = (if n \<le> length (tier_acc tier) \<and> n \<le> length (tier_acc_n tier)
     then Some (map (\<lambda>m. bucket_value (tier_acc tier ! m) (tier_acc_n tier ! m)) [0..<n]) else None)"

definition callback_of :: "store_tier \<Rightarrow> gfloat list \<Rightarrow> gint64 \<Rightarrow> pending_call list" where
  "callback_of tier row timestamp =
     (case tier_callback tier of None \<Rightarrow> [] | Some u \<Rightarrow> [(u, row, timestamp)])"

text \<open>
  One coarse tier of \<open>store_push\<close>. \<open>scratch\<close> is the store's scratch row, overwritten when a
  bucket closes.
\<close>

definition push_coarse ::
  "nat \<Rightarrow> gfloat list \<Rightarrow> gint64 \<Rightarrow> gfloat list \<Rightarrow> store_tier
     \<Rightarrow> (store_tier \<times> gfloat list \<times> pending_call list) option" where
  "push_coarse n values timestamp scratch tier0 = do {
     let tier1 = (if tier_acc_start tier0 = 0 then tier0\<lparr>tier_acc_start := timestamp\<rparr> else tier0);
     tier \<leftarrow> tier_accumulate n values tier1;
     if int (unat (tier_interval_s tier)) \<le> timestamp - tier_acc_start tier
     then do {
       means \<leftarrow> tier_means n tier;
       scratch' \<leftarrow> mem_put 0 means scratch;
       tier' \<leftarrow> tier_append n scratch' timestamp tier;
       let tier'' = tier'\<lparr>tier_acc := replicate n (DFin 0) @ drop n (tier_acc tier'),
                          tier_acc_n := replicate n 0 @ drop n (tier_acc_n tier'),
                          tier_acc_start := timestamp\<rparr>;
       Some (tier'', scratch', callback_of tier (take n scratch') timestamp)
     }
     else Some (tier, scratch, [])
   }"

fun push_coarse_tiers ::
  "nat \<Rightarrow> gfloat list \<Rightarrow> gint64 \<Rightarrow> gfloat list \<Rightarrow> store_tier list
     \<Rightarrow> (store_tier list \<times> gfloat list \<times> pending_call list) option" where
  "push_coarse_tiers n values timestamp scratch [] = Some ([], scratch, [])"
| "push_coarse_tiers n values timestamp scratch (t # ts) = do {
     (t', scratch', p) \<leftarrow> push_coarse n values timestamp scratch t;
     (ts', scratch'', ps) \<leftarrow> push_coarse_tiers n values timestamp scratch' ts;
     Some (t' # ts', scratch'', p @ ps)
   }"

definition store_push :: "store \<Rightarrow> gfloat list \<Rightarrow> gint64 \<Rightarrow> (store \<times> pending_call list) option" where
  "store_push s values timestamp = (let n = unat (st_n_metrics s) in do {
     row \<leftarrow> mem_get 0 n values;
     latest \<leftarrow> mem_put 0 row (st_latest s);
     fine \<leftarrow> arr_get (st_tiers s) 0;
     fine' \<leftarrow> tier_append n values timestamp fine;
     (coarse, scratch, ps) \<leftarrow> push_coarse_tiers n values timestamp (st_scratch s) (tl (st_tiers s));
     Some (s\<lparr>st_latest := latest, st_latest_ts := timestamp, st_has_latest := True,
             st_tiers := fine' # coarse, st_scratch := scratch\<rparr>,
           callback_of fine row timestamp @ ps)
   })"

definition store_restore :: "store \<Rightarrow> nat \<Rightarrow> gfloat list \<Rightarrow> gint64 \<Rightarrow> store option" where
  "store_restore s i values timestamp =
     (if STORE_TIERS \<le> i then Some s
      else do {
        tier \<leftarrow> arr_get (st_tiers s) i;
        tier' \<leftarrow> tier_append (unat (st_n_metrics s)) values timestamp tier;
        Some (s\<lparr>st_tiers := (st_tiers s)[i := tier']\<rparr>)
      })"

subsection \<open>Reading\<close>

text \<open>\<open>None\<close> inside is the \<open>FALSE\<close> return.\<close>

definition store_latest :: "store \<Rightarrow> (gfloat list \<times> gint64) option" where
  "store_latest s = (if st_has_latest s
     then Some (take (unat (st_n_metrics s)) (st_latest s), st_latest_ts s) else None)"

definition store_tier_count :: "store \<Rightarrow> nat \<Rightarrow> guint" where
  "store_tier_count s i = (if STORE_TIERS \<le> i then 0 else tier_count (st_tiers s ! i))"

definition tier_start :: "store_tier \<Rightarrow> guint option" where
  "tier_start tier = guint_mod (tier_head tier + tier_capacity tier - tier_count tier) (tier_capacity tier)"

text \<open>The outer \<open>option\<close> is memory safety, the inner one the \<open>FALSE\<close> return.\<close>

definition store_tier_sample :: "store \<Rightarrow> nat \<Rightarrow> guint \<Rightarrow> (gfloat list \<times> gint64) option option" where
  "store_tier_sample s i index = (if STORE_TIERS \<le> i then Some None
     else (let tier = st_tiers s ! i; n = unat (st_n_metrics s) in
       if index < tier_count tier then do {
         start \<leftarrow> tier_start tier;
         slot \<leftarrow> guint_mod (start + index) (tier_capacity tier);
         row \<leftarrow> mem_get (unat slot * n) n (tier_data tier);
         ts \<leftarrow> arr_get (tier_timestamps tier) (unat slot);
         Some (Some (row, ts))
       }
       else Some None))"

text \<open>The finest tier that covers the window in at most 2000 points.\<close>

fun tier_for_window :: "nat \<Rightarrow> store_tier list \<Rightarrow> guint \<Rightarrow> nat option" where
  "tier_for_window i [] window_s = Some (STORE_TIERS - 1)"
| "tier_for_window i (t # ts) window_s = do {
     points \<leftarrow> guint_div window_s (tier_interval_s t);
     if points \<le> 2000 then Some i else tier_for_window (i + 1) ts window_s
   }"

definition store_tier_for_window :: "store \<Rightarrow> guint \<Rightarrow> nat option" where
  "store_tier_for_window s window_s = tier_for_window 0 (st_tiers s) window_s"

text \<open>
  \<open>series_loop\<close> runs the loop of \<open>store_series\<close> from index \<open>i\<close> with \<open>written\<close> points already
  written; \<open>fuel\<close> bounds the remaining iterations (the count of the tier is enough).
\<close>

fun series_loop :: "nat \<Rightarrow> store_tier \<Rightarrow> nat \<Rightarrow> nat \<Rightarrow> gint64 \<Rightarrow> guint \<Rightarrow> guint \<Rightarrow> guint \<Rightarrow> guint
    \<Rightarrow> (gint64 \<times> gfloat) list option" where
  "series_loop 0 tier n m since max_points start i written = Some []"
| "series_loop (Suc fuel) tier n m since max_points start i written =
     (if i < tier_count tier \<and> written < max_points then do {
        slot \<leftarrow> guint_mod (start + i) (tier_capacity tier);
        ts \<leftarrow> arr_get (tier_timestamps tier) (unat slot);
        if ts < since then series_loop fuel tier n m since max_points start (i + 1) written
        else do {
          v \<leftarrow> arr_get (tier_data tier) (unat slot * n + m);
          rest \<leftarrow> series_loop fuel tier n m since max_points start (i + 1) (written + 1);
          Some ((ts, v) # rest)
        }
      }
      else Some [])"

definition store_series :: "store \<Rightarrow> nat \<Rightarrow> guint \<Rightarrow> gint64 \<Rightarrow> guint \<Rightarrow> (gint64 \<times> gfloat) list option" where
  "store_series s i metric_index since max_points =
     (if STORE_TIERS \<le> i \<or> st_n_metrics s \<le> metric_index then Some []
      else (let tier = st_tiers s ! i in do {
        start \<leftarrow> tier_start tier;
        series_loop (unat (tier_count tier)) tier (unat (st_n_metrics s)) (unat metric_index)
          since max_points start 0 0
      }))"

section \<open>The ring of one tier\<close>

definition tier_inv :: "nat \<Rightarrow> store_tier \<Rightarrow> bool" where
  [inv_defs]: "tier_inv n t \<longleftrightarrow> 0 < unat (tier_capacity t) \<and> unat (tier_capacity t) < 2 ^ 31
     \<and> unat (tier_head t) < unat (tier_capacity t) \<and> unat (tier_count t) \<le> unat (tier_capacity t)
     \<and> length (tier_timestamps t) = unat (tier_capacity t)
     \<and> length (tier_data t) = unat (tier_capacity t) * n"

text \<open>The samples a tier holds, oldest first.\<close>

definition tier_rows :: "nat \<Rightarrow> store_tier \<Rightarrow> (gint64 \<times> gfloat list) list" where
  "tier_rows n t = ring_list (unat (tier_capacity t)) (unat (tier_head t)) (unat (tier_count t))
     (\<lambda>s. (tier_timestamps t ! s, row_at n (tier_data t) s))"

definition tier_cap :: "store_tier \<Rightarrow> nat" where
  "tier_cap t = unat (tier_capacity t)"

lemma length_tier_rows [simp]: "length (tier_rows n t) = unat (tier_count t)"
  by (simp add: tier_rows_def)

lemma tier_start_unat:
  assumes "tier_inv n t"
  shows "tier_start t = Some ((tier_head t + tier_capacity t - tier_count t) mod tier_capacity t)"
    "unat ((tier_head t + tier_capacity t - tier_count t) mod tier_capacity t)
       = ring_start (unat (tier_capacity t)) (unat (tier_head t)) (unat (tier_count t))"
proof -
  have b: "unat (tier_head t) < unat (tier_capacity t)" "unat (tier_count t) \<le> unat (tier_capacity t)"
    "unat (tier_capacity t) < 2 ^ 31" using assms by (simp_all add: tier_inv_def)
  then have a: "unat (tier_head t + tier_capacity t) = unat (tier_head t) + unat (tier_capacity t)"
    by (intro unat_add_small) simp
  then have "unat (tier_head t + tier_capacity t - tier_count t)
      = unat (tier_head t) + unat (tier_capacity t) - unat (tier_count t)"
    using b by (subst unat_sub_small) auto
  then show "unat ((tier_head t + tier_capacity t - tier_count t) mod tier_capacity t)
       = ring_start (unat (tier_capacity t)) (unat (tier_head t)) (unat (tier_count t))"
    by (simp add: ring_start_def unat_mod)
  show "tier_start t = Some ((tier_head t + tier_capacity t - tier_count t) mod tier_capacity t)"
    using b by (simp add: tier_start_def arr_simps)
qed

lemma slot_unat:
  assumes "tier_inv n t" "unat st < unat (tier_capacity t)" "unat i < unat (tier_count t)"
  shows "guint_mod (st + i) (tier_capacity t) = Some ((st + i) mod tier_capacity t)"
    "unat ((st + i) mod tier_capacity t) = (unat st + unat i) mod unat (tier_capacity t)"
    "unat ((st + i) mod tier_capacity t) < unat (tier_capacity t)"
proof -
  have b: "unat (tier_count t) \<le> unat (tier_capacity t)" "unat (tier_capacity t) < 2 ^ 31"
    "0 < unat (tier_capacity t)" using assms(1) by (simp_all add: tier_inv_def)
  have "unat (st + i) = unat st + unat i" using assms(2,3) b by (intro unat_add_small) simp
  then show eq: "unat ((st + i) mod tier_capacity t) = (unat st + unat i) mod unat (tier_capacity t)"
    by (simp add: unat_mod)
  show "guint_mod (st + i) (tier_capacity t) = Some ((st + i) mod tier_capacity t)"
    using b by (simp add: arr_simps)
  show "unat ((st + i) mod tier_capacity t) < unat (tier_capacity t)"
    using b by (simp add: eq)
qed

lemma tier_append_ok:
  assumes inv: "tier_inv n t" and len: "n \<le> length values"
  obtains t' where "tier_append n values ts t = Some t'" "tier_inv n t'"
    "tier_capacity t' = tier_capacity t" "tier_interval_s t' = tier_interval_s t"
    "tier_acc t' = tier_acc t" "tier_acc_n t' = tier_acc_n t" "tier_acc_start t' = tier_acc_start t"
    "tier_callback t' = tier_callback t"
    "tier_rows n t' = lastn (tier_cap t) (tier_rows n t @ [(ts, take n values)])"
proof -
  let ?c = "unat (tier_capacity t)" and ?h = "unat (tier_head t)" and ?k = "unat (tier_count t)"
  from inv have b: "?h < ?c" "?k \<le> ?c" "?c < 2 ^ 31" "length (tier_timestamps t) = ?c"
    "length (tier_data t) = ?c * n" by (simp_all add: tier_inv_def)
  have off: "?h * n + n \<le> length (tier_data t)" using row_offset [OF b(1), of n] b(5) by simp
  have row: "length (take n values) = n" using len by simp
  define d where "d = take (?h * n) (tier_data t) @ take n values @ drop (?h * n + n) (tier_data t)"
  define t' where "t' = t\<lparr>tier_timestamps := (tier_timestamps t)[?h := ts], tier_data := d,
    tier_head := (tier_head t + 1) mod tier_capacity t,
    tier_count := (if tier_count t < tier_capacity t then tier_count t + 1 else tier_count t)\<rparr>"
  have 1: "tier_append n values ts t = Some t'"
    using b off row by (simp add: tier_append_def t'_def d_def arr_simps)
  have ld: "length d = ?c * n" using off row b(5) by (simp add: d_def)
  have hd: "unat ((tier_head t + 1) mod tier_capacity t) = (?h + 1) mod ?c"
    using unat_Suc_small [of "tier_head t"] b by (simp add: unat_mod)
  have cnt: "unat (tier_count t') = (if ?k < ?c then ?k + 1 else ?k)"
    using unat_Suc_small [of "tier_count t"] b by (simp add: t'_def word_less_nat_alt)
  have 2: "tier_inv n t'"
    using inv b ld hd cnt by (auto simp: tier_inv_def t'_def)
  have "tier_rows n t' = ring_list ?c ((?h + 1) mod ?c) (if ?k < ?c then ?k + 1 else ?k)
      (\<lambda>s. ((tier_timestamps t)[?h := ts] ! s, row_at n d s))"
    using cnt by (simp add: tier_rows_def t'_def hd)
  also have "\<dots> = ring_list ?c ((?h + 1) mod ?c) (if ?k < ?c then ?k + 1 else ?k)
      ((\<lambda>s. (tier_timestamps t ! s, row_at n (tier_data t) s))(?h := (ts, take n values)))"
    using b off row by (intro ring_list_cong)
      (auto simp: d_def nth_list_update row_at_put_same row_at_put_other)
  also have "\<dots> = lastn (tier_cap t) (tier_rows n t @ [(ts, take n values)])"
    unfolding tier_rows_def tier_cap_def by (rule ring_list_push [OF b(1,2)])
  finally show ?thesis using that [OF 1 2] by (simp add: t'_def)
qed

text \<open>A tier is a bounded log of samples of the registry's width.\<close>

interpretation tier: bounded_log "tier_rows n" tier_cap "tier_inv n"
  "\<lambda>x. length (snd x) = n" "\<lambda>x t. tier_append n (snd x) (fst x) t" for n
proof unfold_locales
  show "length (tier_rows n t) \<le> tier_cap t" if "tier_inv n t" for t
    using that by (simp add: tier_inv_def tier_cap_def)
next
  fix t and x :: "gint64 \<times> gfloat list"
  assume "tier_inv n t" "length (snd x) = n"
  then obtain t' where "tier_append n (snd x) (fst x) t = Some t'" "tier_inv n t'"
    "tier_capacity t' = tier_capacity t"
    "tier_rows n t' = lastn (tier_cap t) (tier_rows n t @ [(fst x, take n (snd x))])"
    by (metis tier_append_ok order_refl)
  then show "\<exists>t'. tier_append n (snd x) (fst x) t = Some t' \<and> tier_inv n t' \<and> tier_cap t' = tier_cap t
      \<and> tier_rows n t' = lastn (tier_cap t) (tier_rows n t @ [x])"
    using \<open>length (snd x) = n\<close> by (simp add: tier_cap_def)
qed

lemma tier_rows_nth:
  assumes inv: "tier_inv n t" and i: "unat i < unat (tier_count t)"
    and st: "unat st = ring_start (unat (tier_capacity t)) (unat (tier_head t)) (unat (tier_count t))"
  shows "guint_mod (st + i) (tier_capacity t) = Some ((st + i) mod tier_capacity t)"
    "arr_get (tier_timestamps t) (unat ((st + i) mod tier_capacity t)) = Some (fst (tier_rows n t ! unat i))"
    "mem_get (unat ((st + i) mod tier_capacity t) * n) n (tier_data t) = Some (snd (tier_rows n t ! unat i))"
    "m < n \<Longrightarrow> arr_get (tier_data t) (unat ((st + i) mod tier_capacity t) * n + m)
       = Some (snd (tier_rows n t ! unat i) ! m)"
proof -
  let ?s = "unat ((st + i) mod tier_capacity t)"
  have b: "0 < unat (tier_capacity t)" "length (tier_timestamps t) = unat (tier_capacity t)"
    "length (tier_data t) = unat (tier_capacity t) * n" using inv by (simp_all add: tier_inv_def)
  then have stc: "unat st < unat (tier_capacity t)" using st by (simp add: ring_start_def)
  note sl = slot_unat [OF inv stc i]
  have nth: "tier_rows n t ! unat i = (tier_timestamps t ! ?s, row_at n (tier_data t) ?s)"
    using i by (simp add: tier_rows_def ring_list_nth sl(2) st)
  have off: "?s * n + n \<le> length (tier_data t)" using row_offset [OF sl(3), of n] b by simp
  show "guint_mod (st + i) (tier_capacity t) = Some ((st + i) mod tier_capacity t)" by (rule sl)
  show "arr_get (tier_timestamps t) ?s = Some (fst (tier_rows n t ! unat i))"
    using sl(3) b nth by (simp add: arr_simps)
  show "mem_get (?s * n) n (tier_data t) = Some (snd (tier_rows n t ! unat i))"
    using off nth by (simp add: arr_simps row_at_def)
  show "arr_get (tier_data t) (?s * n + m) = Some (snd (tier_rows n t ! unat i) ! m)" if "m < n"
    using off nth that by (simp add: arr_simps row_at_def)
qed

section \<open>The store\<close>

definition coarse_inv :: "nat \<Rightarrow> store_tier \<Rightarrow> bool" where
  [inv_defs]: "coarse_inv n t \<longleftrightarrow> tier_inv n t \<and> length (tier_acc t) = n \<and> length (tier_acc_n t) = n"

definition store_inv :: "store \<Rightarrow> bool" where
  [inv_defs]: "store_inv s \<longleftrightarrow> length (st_tiers s) = STORE_TIERS
     \<and> (\<forall>t \<in> set (st_tiers s). tier_inv (unat (st_n_metrics s)) t \<and> 0 < unat (tier_interval_s t))
     \<and> (\<forall>t \<in> set (tl (st_tiers s)). coarse_inv (unat (st_n_metrics s)) t)
     \<and> length (st_latest s) = unat (st_n_metrics s)
     \<and> length (st_scratch s) = unat (st_n_metrics s)"

abbreviation store_rows :: "store \<Rightarrow> nat \<Rightarrow> (gint64 \<times> gfloat list) list" where
  "store_rows s i \<equiv> tier_rows (unat (st_n_metrics s)) (st_tiers s ! i)"

lemma store_inv_tier: "store_inv s \<Longrightarrow> i < STORE_TIERS \<Longrightarrow> tier_inv (unat (st_n_metrics s)) (st_tiers s ! i)"
  by (simp add: store_inv_def)

subsection \<open>Allocation\<close>

lemma to_double_range:
  assumes "0 \<le> q" "q \<le> 2 ^ 64"
  shows "\<exists>r. to_double q = DFin r \<and> 0 \<le> r \<and> r \<le> 2 ^ 64"
proof (rule to_double_bounded)
  show "to_double 0 = DFin 0" by (simp add: to_double_def)
  show "to_double (2 ^ 64) = DFin (2 ^ 64)"
    using to_double_exact [of "2 ^ 64" 1 64] by simp
qed (use assms in auto)

lemma budget_fraction: "\<exists>q. MEMORY_BUDGET_FRACTION = DFin q \<and> 0 \<le> q \<and> q \<le> 1 / 2"
  unfolding MEMORY_BUDGET_FRACTION_def
proof (rule to_double_bounded)
  show "to_double 0 = DFin 0" by (simp add: to_double_def)
  show "to_double (1 / 2) = DFin (1 / 2)"
    by (rule to_double_exact [where m = 1 and e = "- 1"]) auto
qed auto

lemma budget_defined:
  "\<exists>b. d_to_unsigned 64 (dmul (to_double (of_nat (unat (memory :: guint64)))) MEMORY_BUDGET_FRACTION) = Some b
     \<and> b < 2 ^ 64"
proof -
  define k where "k = unat memory"
  have "k < 2 ^ 64" unfolding k_def by (rule unat_guint64)
  then have "(of_nat k :: rat) \<le> 2 ^ 64"
    by (metis less_imp_le of_nat_le_iff of_nat_numeral of_nat_power)
  then obtain r where r: "to_double (of_nat k) = DFin r" "0 \<le> r" "r \<le> 2 ^ 64"
    using to_double_range [of "of_nat k"] by auto
  obtain q where q: "MEMORY_BUDGET_FRACTION = DFin q" "0 \<le> q" "q \<le> 1 / 2"
    using budget_fraction by blast
  have "r * q \<le> 2 ^ 64 * (1 / 2)" using r q by (intro mult_mono) auto
  then have "r * q \<le> 2 ^ 63" by simp
  moreover have "to_double (2 ^ 63) = DFin (2 ^ 63)" using to_double_exact [of "2 ^ 63" 1 63] by simp
  moreover have "to_double 0 = DFin 0" by (simp add: to_double_def)
  ultimately obtain v where v: "to_double (r * q) = DFin v" "0 \<le> v" "v \<le> 2 ^ 63"
    using to_double_bounded [of 0 "2 ^ 63" "r * q"] r q by auto
  then have "v < 2 ^ 64" by simp
  then have "d_to_unsigned 64 (DFin v) = Some (nat \<lfloor>v\<rfloor>)" using v(2) by simp
  moreover have "dmul (to_double (of_nat k)) MEMORY_BUDGET_FRACTION = DFin v"
    by (simp only: r(1) q(1) dmul.simps v(1))
  moreover have "\<lfloor>v\<rfloor> < 2 ^ 64" using v(3) by (simp add: floor_less_iff)
  then have "nat \<lfloor>v\<rfloor> < 2 ^ 64" using v(2) by (simp add: nat_less_iff)
  ultimately show ?thesis by (simp only: k_def) blast
qed

text \<open>Scaling by a factor of at most one never grows a tier and never drops it below its minimum.\<close>

lemma scale_capacity_bounds:
  assumes "scale = DFin q" "0 \<le> q" "q \<le> 1" "lo \<le> c"
  obtains k where "scale_capacity scale lo c = Some k" "lo \<le> k" "k \<le> c"
proof -
  define k where "k = unat c"
  have k: "k < 2 ^ 32" unfolding k_def by (rule unat_guint)
  then have dk: "to_double (of_nat k) = DFin (of_nat k)" by (intro to_double_of_nat) simp
  have "of_nat k * q \<le> of_nat k * 1" using assms by (intro mult_left_mono) auto
  then obtain v where v: "to_double (of_nat k * q) = DFin v" "0 \<le> v" "v \<le> of_nat k"
    using to_double_bounded [of 0 "of_nat k" "of_nat k * q"] dk assms
    by (auto simp: to_double_def)
  have fl: "nat \<lfloor>v\<rfloor> \<le> k" using v by linarith
  have "v < 2 ^ 32"
    using v(3) k by (meson le_less_trans of_nat_less_numeral_power_cancel_iff)
  then have "scale_capacity scale lo c = Some (max lo (of_nat (nat \<lfloor>v\<rfloor>)))"
    using assms(1) dk v by (simp add: scale_capacity_def less_le_trans [of "- 1" 0] flip: k_def)
  moreover have "of_nat (nat \<lfloor>v\<rfloor>) \<le> c"
    using fl k by (simp add: word_le_nat_alt unat_of_nat take_bit_nat_def flip: k_def)
  ultimately show ?thesis using assms(4) that by auto
qed

lemma base_capacities_bounds:
  assumes "1 \<le> fine"
  shows "base_capacities fine = [base_capacities fine ! 0, 2880, 8640]"
    "300 \<le> base_capacities fine ! 0" "base_capacities fine ! 0 \<le> 1800"
proof -
  show "base_capacities fine = [base_capacities fine ! 0, 2880, 8640]"
    by (simp add: base_capacities_def TIER_CAPACITY_def)
  show "300 \<le> base_capacities fine ! 0"
    by (simp add: base_capacities_def TIER_MIN_CAPACITY_def)
  have "1800 div fine \<le> 1800" by (simp add: word_le_nat_alt unat_div div_le_dividend)
  then show "base_capacities fine ! 0 \<le> 1800"
    by (simp add: base_capacities_def TIER_MIN_CAPACITY_def TIER_CAPACITY_def)
qed

lemma scaled_capacities_bounds:
  assumes fine: "1 \<le> fine"
  obtains c0 c1 c2 where "scaled_capacities n (base_capacities fine) memory = Some [c0, c1, c2]"
    "300 \<le> c0" "c0 \<le> base_capacities fine ! 0" "720 \<le> c1" "c1 \<le> 2880" "576 \<le> c2" "c2 \<le> 8640"
proof -
  define cs where "cs = base_capacities fine"
  note base = base_capacities_bounds [OF fine, folded cs_def]
  define w where "w = sum_list (map (\<lambda>c. unat c * (unat n * 4 + 8)) cs)"
  obtain b where b: "d_to_unsigned 64 (dmul (to_double (of_nat (unat memory))) MEMORY_BUDGET_FRACTION) = Some b"
    "b < 2 ^ 64" using budget_defined by blast
  show thesis
  proof (cases "memory = 0 \<or> w \<le> b")
    case True
    have "scaled_capacities n cs memory = Some cs"
      using True b by (auto simp: scaled_capacities_def w_def Let_def)
    then show thesis using that [of "cs ! 0" 2880 8640] base by (simp add: cs_def)
  next
    case False
    have n: "unat n < 2 ^ 32" by (rule unat_guint)
    define p where "p = unat n * 4 + 8"
    have "unat (cs ! 0) \<le> 1800" using base(3) by (simp add: word_le_nat_alt)
    then have "unat (cs ! 0) * p \<le> 1800 * p" by (rule mult_le_mono1)
    moreover have "w = unat (cs ! 0) * p + 2880 * p + 8640 * p"
      unfolding w_def p_def by (subst base(1)) simp
    ultimately have "w \<le> 13320 * p" by simp
    also have "\<dots> \<le> 13320 * (2 ^ 32 * 4 + 8)" unfolding p_def using n by (intro mult_le_mono) auto
    also have "\<dots> < 2 ^ 64" by simp
    finally have w64: "w < 2 ^ 64" .
    have bw: "b < w" and mem: "memory \<noteq> 0" using False by auto
    have wr: "(of_nat w :: rat) \<le> 2 ^ 64" "(of_nat b :: rat) \<le> 2 ^ 64" "(of_nat b :: rat) \<le> of_nat w"
      using w64 bw b(2) by (simp_all add: less_imp_le)
    obtain w' where w': "to_double (of_nat w) = DFin w'" "1 \<le> w'"
      using to_double_bounded [of 1 "2 ^ 64" "of_nat w"] to_double_exact [of 1 1 0]
        to_double_exact [of "2 ^ 64" 1 64] wr bw by auto
    obtain b' where b': "to_double (of_nat b) = DFin b'" "0 \<le> b'"
      using to_double_range [of "of_nat b"] wr by auto
    have "b' \<le> w'"
      using rnd_mono [OF wr(3), of 53 "- 1074"] b'(1) w'(1)
      by (auto simp: to_double_def Let_def split: if_splits)
    then have "0 \<le> b' / w'" "b' / w' \<le> 1" using w' b' by (auto simp: field_simps)
    then obtain q where q: "to_double (b' / w') = DFin q" "0 \<le> q" "q \<le> 1"
      using to_double_bounded [of 0 1 "b' / w'"] to_double_exact [of 1 1 0]
        to_double_exact [of 0 0 0] by auto
    have scale: "ddiv (to_double (of_nat b)) (to_double (of_nat w)) = DFin q"
      using w' b' q by simp
    obtain c0 where c0: "scale_capacity (DFin q) 300 (cs ! 0) = Some c0" "300 \<le> c0" "c0 \<le> cs ! 0"
      using scale_capacity_bounds [of "DFin q" q 300 "cs ! 0"] q base by auto
    obtain c1 where c1: "scale_capacity (DFin q) 720 2880 = Some c1" "720 \<le> c1" "c1 \<le> 2880"
      using scale_capacity_bounds [of "DFin q" q 720 2880] q by auto
    obtain c2 where c2: "scale_capacity (DFin q) 576 8640 = Some c2" "576 \<le> c2" "c2 \<le> 8640"
      using scale_capacity_bounds [of "DFin q" q 576 8640] q by auto
    have nth: "cs ! 1 = 2880" "cs ! 2 = 8640" by (subst base(1), simp)+
    have "scaled_capacities n cs memory = Some [c0, c1, c2]"
      using mem b bw scale c0(1) c1(1) c2(1) nth
      by (simp add: scaled_capacities_def w_def [symmetric] TIER_MIN_CAPACITY_def numeral_2_eq_2)
    with that c0 c1 c2 show thesis by (simp add: cs_def)
  qed
qed

lemma new_tier_inv:
  assumes "0 < unat cap" "unat cap < 2 ^ 31"
  shows "tier_inv (unat n) (new_tier n i iv cap)" "0 < i \<Longrightarrow> coarse_inv (unat n) (new_tier n i iv cap)"
    "tier_rows (unat n) (new_tier n i iv cap) = []"
  using assms by (simp_all add: tier_inv_def coarse_inv_def new_tier_def tier_rows_def ring_list_def)

text \<open>Allocation succeeds for every registry, interval and memory size, and the tiers are empty.\<close>

lemma store_new_ok:
  obtains s c0 c1 c2 where "store_new registry base memory = Some s" "store_inv s"
    "st_registry s = registry" "st_n_metrics s = reg_count registry"
    "st_tiers s = [new_tier (reg_count registry) 0 (max 1 base) c0,
       new_tier (reg_count registry) 1 15 c1, new_tier (reg_count registry) 2 300 c2]"
    "300 \<le> c0" "c0 \<le> max 300 (1800 div max 1 base)" "720 \<le> c1" "c1 \<le> 2880" "576 \<le> c2" "c2 \<le> 8640"
    "\<not> st_has_latest s"
proof -
  let ?n = "reg_count registry" and ?f = "max 1 base"
  have f: "1 \<le> ?f" by simp
  obtain c0 c1 c2 where c: "scaled_capacities ?n (base_capacities ?f) memory = Some [c0, c1, c2]"
    "300 \<le> c0" "c0 \<le> base_capacities ?f ! 0" "720 \<le> c1" "c1 \<le> 2880" "576 \<le> c2" "c2 \<le> 8640"
    by (rule scaled_capacities_bounds [OF f])
  have c0': "c0 \<le> max 300 (1800 div ?f)"
    using c(3) by (simp add: base_capacities_def TIER_MIN_CAPACITY_def TIER_CAPACITY_def)
  have c0'': "c0 \<le> 1800" using c(3) base_capacities_bounds(3) [OF f] by (rule order_trans)
  have u: "0 < unat c0" "unat c0 < 2 ^ 31" "0 < unat c1" "unat c1 < 2 ^ 31" "0 < unat c2" "unat c2 < 2 ^ 31"
    using c c0'' by (simp_all add: word_le_nat_alt)
  define s where "s = \<lparr>st_registry = registry, st_n_metrics = ?n,
       st_tiers = [new_tier ?n 0 ?f c0, new_tier ?n 1 15 c1, new_tier ?n 2 300 c2],
       st_latest = replicate (unat ?n) 0, st_scratch = replicate (unat ?n) 0,
       st_latest_ts = 0, st_has_latest = False\<rparr>"
  have s: "store_new registry base memory = Some s"
    using c(1) by (simp add: store_new_def s_def Let_def TIER_INTERVAL_def numeral_2_eq_2)
  have iv: "0 < unat (tier_interval_s (new_tier ?n 0 ?f c0))" using f by (simp add: new_tier_def word_le_nat_alt)
  have inv: "store_inv s"
    using iv new_tier_inv [OF u(1,2)] new_tier_inv [OF u(3,4)] new_tier_inv [OF u(5,6)]
    by (auto simp: s_def store_inv_def STORE_TIERS_def) (simp_all add: new_tier_def)
  show thesis by (rule that [OF s inv]) (use c c0' in \<open>simp_all add: s_def\<close>)
qed

subsection \<open>Pushing a sample\<close>

lemma tier_accumulate_ok:
  assumes "coarse_inv n t" "n \<le> length values"
  obtains t' where "tier_accumulate n values t = Some t'" "coarse_inv n t'"
    "tier_rows n t' = tier_rows n t" "tier_capacity t' = tier_capacity t"
    "tier_interval_s t' = tier_interval_s t" "tier_acc_start t' = tier_acc_start t"
    "tier_callback t' = tier_callback t"
    "\<forall>m < n. tier_acc t' ! m = (if f32_isnan (values ! m) then tier_acc t ! m
        else dadd (tier_acc t ! m) (f32_to_double (values ! m)))"
    "\<forall>m < n. tier_acc_n t' ! m = (if f32_isnan (values ! m) then tier_acc_n t ! m else tier_acc_n t ! m + 1)"
proof -
  have len: "n \<le> length (tier_acc t)" "n \<le> length (tier_acc_n t)"
    "drop n (tier_acc t) = []" "drop n (tier_acc_n t) = []" using assms(1) by (simp_all add: coarse_inv_def)
  show thesis
    by (rule that [OF tier_accumulate_def [THEN trans, OF if_P]])
      (use assms len in \<open>auto simp: coarse_inv_def tier_inv_def tier_rows_def\<close>)
qed

lemma tier_means_ok: "coarse_inv n t \<Longrightarrow>
    tier_means n t = Some (map (\<lambda>m. bucket_value (tier_acc t ! m) (tier_acc_n t ! m)) [0..<n])"
  by (simp add: tier_means_def coarse_inv_def)

text \<open>The two outcomes of a sample in a coarse tier: the bucket stays open or closes.\<close>

definition opened :: "store_tier \<Rightarrow> gint64 \<Rightarrow> gint64" where
  "opened t ts = (if tier_acc_start t = 0 then ts else tier_acc_start t)"

definition acc_step :: "gfloat \<Rightarrow> double \<Rightarrow> double" where
  "acc_step v a = (if f32_isnan v then a else dadd a (f32_to_double v))"

definition cnt_step :: "gfloat \<Rightarrow> guint \<Rightarrow> guint" where
  "cnt_step v k = (if f32_isnan v then k else k + 1)"

definition coarse_post ::
  "nat \<Rightarrow> gfloat list \<Rightarrow> gint64 \<Rightarrow> store_tier \<Rightarrow> store_tier \<Rightarrow> pending_call list \<Rightarrow> bool" where
  "coarse_post n values ts t t' ps \<longleftrightarrow> coarse_inv n t' \<and> tier_capacity t' = tier_capacity t
     \<and> tier_interval_s t' = tier_interval_s t \<and> tier_callback t' = tier_callback t
     \<and> (if int (unat (tier_interval_s t)) \<le> ts - opened t ts
        then (let row = map (\<lambda>m. bucket_value (acc_step (values ! m) (tier_acc t ! m))
                             (cnt_step (values ! m) (tier_acc_n t ! m))) [0..<n] in
          tier_rows n t' = lastn (tier_cap t) (tier_rows n t @ [(ts, row)])
          \<and> tier_acc_start t' = ts \<and> ps = callback_of t row ts
          \<and> (\<forall>m < n. tier_acc t' ! m = DFin 0 \<and> tier_acc_n t' ! m = 0))
        else tier_rows n t' = tier_rows n t \<and> tier_acc_start t' = opened t ts \<and> ps = []
          \<and> (\<forall>m < n. tier_acc t' ! m = acc_step (values ! m) (tier_acc t ! m)
                 \<and> tier_acc_n t' ! m = cnt_step (values ! m) (tier_acc_n t ! m)))"

lemma push_coarse_ok:
  assumes inv: "coarse_inv n t" and len: "n \<le> length values" "length scratch = n"
  obtains t' scratch' ps where "push_coarse n values ts scratch t = Some (t', scratch', ps)"
    "length scratch' = n" "coarse_post n values ts t t' ps"
proof -
  define t0 where "t0 = (if tier_acc_start t = 0 then t\<lparr>tier_acc_start := ts\<rparr> else t)"
  have t0: "coarse_inv n t0" "tier_rows n t0 = tier_rows n t" "tier_capacity t0 = tier_capacity t"
    "tier_interval_s t0 = tier_interval_s t" "tier_acc_start t0 = opened t ts"
    "tier_callback t0 = tier_callback t" "tier_acc t0 = tier_acc t" "tier_acc_n t0 = tier_acc_n t"
    using inv by (auto simp: t0_def coarse_inv_def tier_inv_def tier_rows_def opened_def)
  obtain t1 where t1: "tier_accumulate n values t0 = Some t1" "coarse_inv n t1"
    "tier_rows n t1 = tier_rows n t0" "tier_capacity t1 = tier_capacity t0"
    "tier_interval_s t1 = tier_interval_s t0" "tier_acc_start t1 = tier_acc_start t0"
    "tier_callback t1 = tier_callback t0"
    "\<forall>m < n. tier_acc t1 ! m = acc_step (values ! m) (tier_acc t0 ! m)"
    "\<forall>m < n. tier_acc_n t1 ! m = cnt_step (values ! m) (tier_acc_n t0 ! m)"
    unfolding acc_step_def cnt_step_def by (rule tier_accumulate_ok [OF t0(1) len(1)])
  note t1 = t1(1-7) t1(8,9) [unfolded t0(7,8)]
  show thesis
  proof (cases "int (unat (tier_interval_s t)) \<le> ts - opened t ts")
    case False
    then have "push_coarse n values ts scratch t = Some (t1, scratch, [])"
      using t0 t1 by (simp add: push_coarse_def t0_def [symmetric] Let_def)
    then show thesis by (rule that) (use False t0 t1 len in \<open>auto simp: coarse_post_def\<close>)
  next
    case True
    define row where "row = map (\<lambda>m. bucket_value (acc_step (values ! m) (tier_acc t ! m))
                             (cnt_step (values ! m) (tier_acc_n t ! m))) [0..<n]"
    have lrow: "length row = n" by (simp add: row_def)
    have means: "tier_means n t1 = Some row"
      using t1(8,9) by (simp add: tier_means_ok [OF t1(2)] row_def)
    have put: "mem_put 0 row scratch = Some row" using len(2) lrow by (simp add: arr_simps)
    have "tier_inv n t1" using t1(2) by (simp add: coarse_inv_def)
    then obtain t2 where t2: "tier_append n row ts t1 = Some t2" "tier_inv n t2"
      "tier_capacity t2 = tier_capacity t1" "tier_interval_s t2 = tier_interval_s t1"
      "tier_acc t2 = tier_acc t1" "tier_acc_n t2 = tier_acc_n t1" "tier_callback t2 = tier_callback t1"
      "tier_rows n t2 = lastn (tier_cap t1) (tier_rows n t1 @ [(ts, take n row)])"
      using tier_append_ok [of n t1 row ts] lrow by (metis order_refl)
    define t3 where "t3 = t2\<lparr>tier_acc := replicate n (DFin 0) @ drop n (tier_acc t2),
        tier_acc_n := replicate n 0 @ drop n (tier_acc_n t2), tier_acc_start := ts\<rparr>"
    have acc: "length (tier_acc t2) = n" "length (tier_acc_n t2) = n"
      using t1(2) t2(5,6) by (simp_all add: coarse_inv_def)
    have all: "take n row = row" using lrow by simp
    have "push_coarse n values ts scratch t = Some (t3, row, callback_of t row ts)"
      using True t0 t1 t2 means put
      by (simp add: push_coarse_def t0_def [symmetric] Let_def t3_def callback_of_def all split: option.split)
    moreover have "coarse_inv n t3" "tier_rows n t3 = tier_rows n t2"
      using t2(2) acc by (simp_all add: t3_def coarse_inv_def tier_inv_def tier_rows_def)
    moreover have "tier_capacity t3 = tier_capacity t" "tier_interval_s t3 = tier_interval_s t"
      "tier_callback t3 = tier_callback t" "tier_acc_start t3 = ts"
      "\<forall>m < n. tier_acc t3 ! m = DFin 0 \<and> tier_acc_n t3 ! m = 0"
      using t0 t1 t2 acc by (simp_all add: t3_def)
    moreover have "tier_rows n t2 = lastn (tier_cap t) (tier_rows n t @ [(ts, row)])"
      using t2(8) t0 t1 lrow by (simp add: tier_cap_def)
    ultimately show thesis using True lrow that [of t3 row "callback_of t row ts"] t2(8)
      by (simp add: coarse_post_def Let_def row_def [symmetric])
  qed
qed

text \<open>A push on the whole store: it stays inside its buffers and keeps the invariant.\<close>

lemma store_tiers_cases:
  assumes "store_inv s"
  obtains t0 t1 t2 where "st_tiers s = [t0, t1, t2]" "tier_inv (unat (st_n_metrics s)) t0"
    "coarse_inv (unat (st_n_metrics s)) t1" "coarse_inv (unat (st_n_metrics s)) t2"
    "0 < unat (tier_interval_s t0)" "0 < unat (tier_interval_s t1)" "0 < unat (tier_interval_s t2)"
proof -
  have "length (st_tiers s) = 3" using assms by (simp add: store_inv_def STORE_TIERS_def)
  then obtain t0 t1 t2 where t: "st_tiers s = [t0, t1, t2]"
    by (auto simp: eval_nat_numeral length_Suc_conv)
  with assms show thesis by (intro that [OF t]) (auto simp: store_inv_def)
qed

lemma store_push_ok:
  assumes inv: "store_inv s" and len: "unat (st_n_metrics s) \<le> length values"
  defines "n \<equiv> unat (st_n_metrics s)"
  obtains s' t0 t1 t2 t0' t1' t2' ps1 ps2 where
    "store_push s values ts = Some (s', callback_of t0 (take n values) ts @ ps1 @ ps2)" "store_inv s'"
    "st_registry s' = st_registry s" "st_n_metrics s' = st_n_metrics s"
    "st_has_latest s'" "st_latest s' = take n values" "st_latest_ts s' = ts"
    "st_tiers s = [t0, t1, t2]" "st_tiers s' = [t0', t1', t2']"
    "tier_capacity t0' = tier_capacity t0" "tier_interval_s t0' = tier_interval_s t0"
    "tier_rows n t0' = lastn (tier_cap t0) (tier_rows n t0 @ [(ts, take n values)])"
    "coarse_post n values ts t1 t1' ps1" "coarse_post n values ts t2 t2' ps2"
proof -
  obtain t0 t1 t2 where t: "st_tiers s = [t0, t1, t2]" "tier_inv n t0" "coarse_inv n t1" "coarse_inv n t2"
    and iv: "0 < unat (tier_interval_s t0)" "0 < unat (tier_interval_s t1)" "0 < unat (tier_interval_s t2)"
    unfolding n_def by (rule store_tiers_cases [OF inv])
  have ln: "n \<le> length values" "length (st_latest s) = n" "length (st_scratch s) = n"
    using len inv by (simp_all add: n_def store_inv_def)
  obtain t0' where t0': "tier_append n values ts t0 = Some t0'" "tier_inv n t0'"
    "tier_capacity t0' = tier_capacity t0" "tier_interval_s t0' = tier_interval_s t0"
    "tier_rows n t0' = lastn (tier_cap t0) (tier_rows n t0 @ [(ts, take n values)])"
    using tier_append_ok [OF t(2) ln(1)] by metis
  obtain t1' s1 ps1 where t1': "push_coarse n values ts (st_scratch s) t1 = Some (t1', s1, ps1)"
    "length s1 = n" "coarse_post n values ts t1 t1' ps1"
    by (rule push_coarse_ok [OF t(3) ln(1,3)])
  obtain t2' s2 ps2 where t2': "push_coarse n values ts s1 t2 = Some (t2', s2, ps2)"
    "length s2 = n" "coarse_post n values ts t2 t2' ps2"
    by (rule push_coarse_ok [OF t(4) ln(1) t1'(2)])
  define s' where "s' = s\<lparr>st_latest := take n values, st_latest_ts := ts, st_has_latest := True,
             st_tiers := [t0', t1', t2'], st_scratch := s2\<rparr>"
  have "store_push s values ts = Some (s', callback_of t0 (take n values) ts @ ps1 @ ps2)"
    using ln t(1) t0'(1) t1'(1) t2'(1)
    by (simp add: store_push_def Let_def n_def [symmetric] arr_simps s'_def)
  moreover have "store_inv s'"
    using t0' t1' t2' iv ln by (auto simp: s'_def store_inv_def STORE_TIERS_def n_def [symmetric]
        coarse_post_def coarse_inv_def)
  ultimately show thesis
    by (rule that) (use t t0' t1' t2' in \<open>simp_all add: s'_def\<close>)
qed

lemma store_restore_ok:
  assumes "store_inv s" "i < STORE_TIERS" "unat (st_n_metrics s) \<le> length values"
  obtains s' where "store_restore s i values ts = Some s'" "store_inv s'"
    "st_n_metrics s' = st_n_metrics s" "st_registry s' = st_registry s"
    "store_rows s' i = lastn (tier_cap (st_tiers s ! i))
       (store_rows s i @ [(ts, take (unat (st_n_metrics s)) values)])"
    "tier_cap (st_tiers s' ! i) = tier_cap (st_tiers s ! i)"
    "\<forall>j. j \<noteq> i \<longrightarrow> st_tiers s' ! j = st_tiers s ! j"
proof -
  let ?n = "unat (st_n_metrics s)"
  obtain t' where t': "tier_append ?n values ts (st_tiers s ! i) = Some t'" "tier_inv ?n t'"
    "tier_capacity t' = tier_capacity (st_tiers s ! i)" "tier_interval_s t' = tier_interval_s (st_tiers s ! i)"
    "tier_acc t' = tier_acc (st_tiers s ! i)" "tier_acc_n t' = tier_acc_n (st_tiers s ! i)"
    "tier_rows ?n t' = lastn (tier_cap (st_tiers s ! i)) (store_rows s i @ [(ts, take ?n values)])"
    using tier_append_ok [OF store_inv_tier [OF assms(1,2)] assms(3)] by metis
  define s' where "s' = s\<lparr>st_tiers := (st_tiers s)[i := t']\<rparr>"
  have len: "length (st_tiers s) = STORE_TIERS" using assms(1) by (simp add: store_inv_def)
  have "store_restore s i values ts = Some s'"
    using assms(2) len t'(1) by (simp add: store_restore_def arr_simps s'_def)
  moreover have "store_inv s'"
  proof -
    obtain t0 t1 t2 where t: "st_tiers s = [t0, t1, t2]" "tier_inv ?n t0" "coarse_inv ?n t1"
      "coarse_inv ?n t2" "0 < unat (tier_interval_s t0)" "0 < unat (tier_interval_s t1)"
      "0 < unat (tier_interval_s t2)"
      by (rule store_tiers_cases [OF assms(1)])
    have "i = 0 \<or> i = 1 \<or> i = 2" using assms(2) by (auto simp: STORE_TIERS_def)
    then show ?thesis
      using t t' assms(1) by (elim disjE) (auto simp: s'_def store_inv_def coarse_inv_def STORE_TIERS_def)
  qed
  ultimately show thesis
    by (rule that) (use t' len assms(2) in \<open>simp_all add: s'_def tier_cap_def\<close>)
qed

subsection \<open>Reading the store\<close>

lemma tier_sample_ok:
  assumes "store_inv s" "i < STORE_TIERS"
  shows "store_tier_sample s i index = Some (if unat index < length (store_rows s i)
     then Some (snd (store_rows s i ! unat index), fst (store_rows s i ! unat index)) else None)"
proof -
  let ?t = "st_tiers s ! i"
  have inv: "tier_inv (unat (st_n_metrics s)) ?t" using assms by (rule store_inv_tier)
  note start = tier_start_unat [OF inv]
  show ?thesis
  proof (cases "unat index < unat (tier_count ?t)")
    case True
    note nth = tier_rows_nth [OF inv True start(2)]
    from True have "index < tier_count ?t" by (simp add: word_less_nat_alt)
    with True assms(2) nth start(1) show ?thesis
      by (simp add: store_tier_sample_def Let_def)
  next
    case False
    then have "\<not> index < tier_count ?t" by (simp add: word_less_nat_alt)
    with False assms(2) show ?thesis by (simp add: store_tier_sample_def Let_def)
  qed
qed

definition metric_points :: "nat \<Rightarrow> gint64 \<Rightarrow> (gint64 \<times> gfloat list) list \<Rightarrow> (gint64 \<times> gfloat) list" where
  "metric_points m since rows = map (\<lambda>r. (fst r, snd r ! m)) (filter (\<lambda>r. since \<le> fst r) rows)"

lemma metric_points_Cons: "metric_points m since (r # rows) =
    (if fst r < since then metric_points m since rows else (fst r, snd r ! m) # metric_points m since rows)"
  by (auto simp: metric_points_def)

lemma series_loop_ok:
  assumes inv: "tier_inv n t" and m: "m < n"
    and st: "unat st = ring_start (unat (tier_capacity t)) (unat (tier_head t)) (unat (tier_count t))"
    and "unat (tier_count t) - unat i \<le> fuel" "unat written \<le> unat max_points"
  shows "series_loop fuel t n m since max_points st i written
     = Some (take (unat max_points - unat written) (metric_points m since (drop (unat i) (tier_rows n t))))"
  using assms(4,5)
proof (induction fuel arbitrary: i written)
  case 0
  then show ?case by (simp add: metric_points_def)
next
  case (Suc fuel)
  have cnt: "unat (tier_count t) < 2 ^ 31" using inv by (simp add: tier_inv_def)
  show ?case
  proof (cases "unat i < unat (tier_count t) \<and> unat written < unat max_points")
    case False
    then have "\<not> (i < tier_count t \<and> written < max_points)" by (simp add: word_less_nat_alt)
    with False Suc.prems(2) show ?thesis by (auto simp: metric_points_def)
  next
    case True
    then have lt: "i < tier_count t" "written < max_points" by (simp_all add: word_less_nat_alt)
    have ui: "unat (i + 1) = unat i + 1" using True cnt by (intro unat_Suc_small) simp
    have uw: "unat (written + 1) = unat written + 1"
      using True unat_guint [of max_points] by (intro unat_Suc_small) simp
    note nth = tier_rows_nth [OF inv conjunct1 [OF True] st]
    let ?r = "tier_rows n t ! unat i"
    have dropi: "drop (unat i) (tier_rows n t) = ?r # drop (unat i + 1) (tier_rows n t)"
      using True by (simp add: Cons_nth_drop_Suc)
    have rest: "unat max_points - unat written = Suc (unat max_points - (unat written + 1))"
      using True by (simp add: Suc_diff_Suc)
    show ?thesis
    proof (cases "fst ?r < since")
      case skip: True
      have "series_loop fuel t n m since max_points st (i + 1) written
        = Some (take (unat max_points - unat written) (metric_points m since (drop (unat i + 1) (tier_rows n t))))"
        using Suc.IH [of "i + 1" written] Suc.prems ui by simp
      with skip lt nth dropi show ?thesis by (simp add: metric_points_Cons)
    next
      case keep: False
      have "series_loop fuel t n m since max_points st (i + 1) (written + 1)
        = Some (take (unat max_points - (unat written + 1))
                  (metric_points m since (drop (unat i + 1) (tier_rows n t))))"
        using Suc.IH [of "i + 1" "written + 1"] Suc.prems ui uw True by simp
      with keep lt nth(1,2) nth(4) [OF m] dropi rest show ?thesis by (simp add: metric_points_Cons)
    qed
  qed
qed

lemma store_series_ok:
  assumes "store_inv s" "i < STORE_TIERS" "unat m < unat (st_n_metrics s)"
  shows "store_series s i m since max_points
     = Some (take (unat max_points) (metric_points (unat m) since (store_rows s i)))"
proof -
  have inv: "tier_inv (unat (st_n_metrics s)) (st_tiers s ! i)" using assms(1,2) by (rule store_inv_tier)
  note start = tier_start_unat [OF inv]
  have "\<not> st_n_metrics s \<le> m" using assms(3) by (simp add: word_le_nat_alt)
  then show ?thesis
    using series_loop_ok [OF inv assms(3) start(2), of 0 _ 0 max_points since] start(1) assms(2)
    by (simp add: store_series_def Let_def)
qed

lemma tier_for_window_ok:
  assumes "\<forall>t \<in> set ts. 0 < unat (tier_interval_s t)" "i + length ts = STORE_TIERS" "0 < i + length ts"
  obtains k where "tier_for_window i ts w = Some k" "k < STORE_TIERS" "ts \<noteq> [] \<longrightarrow> i \<le> k"
    "\<forall>j. i \<le> j \<and> j < k \<longrightarrow> 2000 < unat w div unat (tier_interval_s (ts ! (j - i)))"
    "ts \<noteq> [] \<and> unat w div unat (tier_interval_s (ts ! (k - i))) \<le> 2000
       \<or> k = STORE_TIERS - 1 \<and> (\<forall>t \<in> set ts. 2000 < unat w div unat (tier_interval_s t))"
proof -
  have "\<exists>k. tier_for_window i ts w = Some k \<and> k < STORE_TIERS \<and> (ts \<noteq> [] \<longrightarrow> i \<le> k)
    \<and> (\<forall>j. i \<le> j \<and> j < k \<longrightarrow> 2000 < unat w div unat (tier_interval_s (ts ! (j - i))))
    \<and> (ts \<noteq> [] \<and> unat w div unat (tier_interval_s (ts ! (k - i))) \<le> 2000
       \<or> k = STORE_TIERS - 1 \<and> (\<forall>t \<in> set ts. 2000 < unat w div unat (tier_interval_s t)))"
    using assms
  proof (induction ts arbitrary: i)
    case Nil
    then show ?case by (auto simp: STORE_TIERS_def)
  next
    case (Cons t ts)
    have le: "w div tier_interval_s t \<le> 2000 \<longleftrightarrow> unat w div unat (tier_interval_s t) \<le> 2000"
      by (simp add: word_le_nat_alt unat_div)
    show ?case
    proof (cases "unat w div unat (tier_interval_s t) \<le> 2000")
      case True
      with le Cons.prems show ?thesis by (intro exI [of _ i]) (auto simp: arr_simps)
    next
      case False
      obtain k where k: "tier_for_window (i + 1) ts w = Some k" "k < STORE_TIERS" "ts \<noteq> [] \<longrightarrow> i + 1 \<le> k"
        "\<forall>j. i + 1 \<le> j \<and> j < k \<longrightarrow> 2000 < unat w div unat (tier_interval_s (ts ! (j - (i + 1))))"
        "ts \<noteq> [] \<and> unat w div unat (tier_interval_s (ts ! (k - (i + 1)))) \<le> 2000
         \<or> k = STORE_TIERS - 1 \<and> (\<forall>t \<in> set ts. 2000 < unat w div unat (tier_interval_s t))"
        using Cons.IH [of "i + 1"] Cons.prems by auto
      have ik: "i \<le> k" using k Cons.prems(2) by (cases ts) auto
      have nth: "(t # ts) ! (j - i) = (if j = i then t else ts ! (j - (i + 1)))" if "i \<le> j" for j
        using that by (auto simp: nth_Cons')
      have "\<forall>j. i \<le> j \<and> j < k \<longrightarrow> 2000 < unat w div unat (tier_interval_s ((t # ts) ! (j - i)))"
        using k(4) False by (auto simp: nth)
      moreover have "tier_for_window i (t # ts) w = Some k"
        using False le k(1) Cons.prems(1) by (simp add: arr_simps)
      ultimately show ?thesis using k ik False by (intro exI [of _ k]) (auto simp: nth)
    qed
  qed
  then show thesis using that by blast
qed

end
