(* ===== verification/Downsampling.thy ===== *)
theory Downsampling
  imports Store
begin

text \<open>
  What the tiers of \<^verbatim>\<open>app/store.c\<close> promise: an abstract description of downsampling by
  lists of samples, the proof that \<open>store_push\<close> implements it, and the bounds on the means,
  which hold in IEEE arithmetic.
\<close>

section \<open>Abstract downsampling\<close>

text \<open>
  The mean of metric \<open>m\<close> over the rows of a bucket: NaN readings are skipped, the readings
  are summed in order in double precision, and the mean is narrowed to a float. A bucket with
  no reading has NaN.
\<close>

definition readings :: "nat \<Rightarrow> gfloat list list \<Rightarrow> gfloat list" where
  "readings m rows = filter (\<lambda>v. \<not> f32_isnan v) (map (\<lambda>r. r ! m) rows)"

definition dsum :: "gfloat list \<Rightarrow> double" where
  "dsum xs = foldl (\<lambda>a v. dadd a (f32_to_double v)) (DFin 0) xs"

definition bucket_mean :: "nat \<Rightarrow> gfloat list list \<Rightarrow> gfloat" where
  "bucket_mean m rows = (let xs = readings m rows in
     if xs = [] then f32_nan else double_to_f32 (ddiv (dsum xs) (to_double (of_nat (length xs)))))"

text \<open>
  The coarse samples produced by a list of samples, given when the current bucket was opened
  (0 before the first sample) and the rows already in it: a bucket closes with the first
  sample at least \<open>iv\<close> seconds after its start, which it includes and which opens the next.
\<close>

fun buckets :: "int \<Rightarrow> nat \<Rightarrow> gint64 \<Rightarrow> gfloat list list \<Rightarrow> (gint64 \<times> gfloat list) list
    \<Rightarrow> (gint64 \<times> gfloat list) list" where
  "buckets iv n start pend [] = []"
| "buckets iv n start pend ((ts, row) # ps) =
     (let st = (if start = 0 then ts else start); rows = pend @ [row] in
      if iv \<le> ts - st then (ts, map (\<lambda>m. bucket_mean m rows) [0..<n]) # buckets iv n ts [] ps
      else buckets iv n st rows ps)"

section \<open>Refinement\<close>

text \<open>The running sums of a coarse tier stand for the rows of its open bucket.\<close>

definition acc_rel :: "nat \<Rightarrow> store_tier \<Rightarrow> gint64 \<Rightarrow> gfloat list list \<Rightarrow> bool" where
  "acc_rel n t start pend \<longleftrightarrow> tier_acc_start t = start
     \<and> (\<forall>m < n. tier_acc t ! m = dsum (readings m pend)
             \<and> tier_acc_n t ! m = of_nat (length (readings m pend)))"

lemma readings_snoc: "readings m (rows @ [r]) =
    (if f32_isnan (r ! m) then readings m rows else readings m rows @ [r ! m])"
  by (simp add: readings_def)

lemma length_readings: "length (readings m rows) \<le> length rows"
  unfolding readings_def by (metis length_filter_le length_map)

lemma dsum_snoc: "dsum (xs @ [v]) = dadd (dsum xs) (f32_to_double v)"
  by (simp add: dsum_def)

lemma acc_step_dsum: "acc_step (r ! m) (dsum (readings m rows)) = dsum (readings m (rows @ [r]))"
  by (simp add: acc_step_def readings_snoc dsum_snoc)

lemma cnt_step_length:
  "cnt_step (r ! m) (of_nat (length (readings m rows))) = of_nat (length (readings m (rows @ [r])))"
  by (simp add: cnt_step_def readings_snoc)

lemma bucket_value_mean:
  assumes "length (readings m rows) < 2 ^ 32"
  shows "bucket_value (dsum (readings m rows)) (of_nat (length (readings m rows))) = bucket_mean m rows"
proof -
  define k where "k = length (readings m rows)"
  have u: "unat (of_nat k :: guint) = k"
    using assms by (simp add: unat_of_nat take_bit_nat_def k_def)
  then have z: "(of_nat k :: guint) \<noteq> 0 \<longleftrightarrow> readings m rows \<noteq> []"
    by (metis k_def length_0_conv of_nat_0 unsigned_0 unat_inject)
  show ?thesis
    unfolding bucket_value_def bucket_mean_def Let_def k_def [symmetric] u z
    by (cases "readings m rows = []") (simp_all only: if_True if_False simp_thms)
qed

text \<open>One step of a coarse tier is one step of the abstract one.\<close>

lemma coarse_post_step:
  assumes post: "coarse_post n row ts t t' ps" and rel: "acc_rel n t start pend"
    and small: "length pend + 1 < 2 ^ 32"
  defines "st \<equiv> if start = 0 then ts else start"
  shows "if int (unat (tier_interval_s t)) \<le> ts - st
         then tier_rows n t' = lastn (tier_cap t)
                (tier_rows n t @ [(ts, map (\<lambda>m. bucket_mean m (pend @ [row])) [0..<n])])
              \<and> acc_rel n t' ts []
         else tier_rows n t' = tier_rows n t \<and> acc_rel n t' st (pend @ [row])"
proof -
  have op: "opened t ts = st" using rel by (simp add: opened_def st_def acc_rel_def)
  have steps: "acc_step (row ! m) (tier_acc t ! m) = dsum (readings m (pend @ [row]))"
    "cnt_step (row ! m) (tier_acc_n t ! m) = of_nat (length (readings m (pend @ [row])))" if "m < n" for m
    using rel that by (simp_all add: acc_rel_def acc_step_dsum cnt_step_length)
  have "length (readings m (pend @ [row])) < 2 ^ 32" for m
    using length_readings [of m "pend @ [row]"] small by simp
  then have means: "map (\<lambda>m. bucket_value (acc_step (row ! m) (tier_acc t ! m))
      (cnt_step (row ! m) (tier_acc_n t ! m))) [0..<n] = map (\<lambda>m. bucket_mean m (pend @ [row])) [0..<n]"
    using steps by (auto simp: bucket_value_mean)
  show ?thesis
  proof (cases "int (unat (tier_interval_s t)) \<le> ts - st")
    case True
    with post have "tier_rows n t' = lastn (tier_cap t)
        (tier_rows n t @ [(ts, map (\<lambda>m. bucket_mean m (pend @ [row])) [0..<n])])"
      "tier_acc_start t' = ts" "\<forall>m < n. tier_acc t' ! m = DFin 0 \<and> tier_acc_n t' ! m = 0"
      unfolding coarse_post_def op means Let_def if_P [OF True] by blast+
    with True show ?thesis by (simp add: acc_rel_def readings_def dsum_def)
  next
    case False
    with post have "tier_rows n t' = tier_rows n t" "tier_acc_start t' = st"
      "\<forall>m < n. tier_acc t' ! m = acc_step (row ! m) (tier_acc t ! m)
         \<and> tier_acc_n t' ! m = cnt_step (row ! m) (tier_acc_n t ! m)"
      unfolding coarse_post_def op if_not_P [OF False] by blast+
    with False steps show ?thesis by (simp add: acc_rel_def)
  qed
qed

text \<open>A sequence of samples pushed into the store.\<close>

primrec store_push_all :: "(gint64 \<times> gfloat list) list \<Rightarrow> store \<Rightarrow> store option" where
  "store_push_all [] s = Some s"
| "store_push_all (p # ps) s =
     (case store_push s (snd p) (fst p) of None \<Rightarrow> None | Some (s', _) \<Rightarrow> store_push_all ps s')"

lemma store_push_all_refines:
  assumes "store_inv s" "unat (st_n_metrics s) = n" "list_all (\<lambda>p. length (snd p) = n) ps"
    "acc_rel n (st_tiers s ! 1) start1 pend1" "length pend1 + length ps < 2 ^ 32"
    "acc_rel n (st_tiers s ! 2) start2 pend2" "length pend2 + length ps < 2 ^ 32"
  shows "\<exists>s'. store_push_all ps s = Some s' \<and> store_inv s' \<and> unat (st_n_metrics s') = n
    \<and> store_rows s' 0 = lastn (tier_cap (st_tiers s ! 0)) (store_rows s 0 @ ps)
    \<and> store_rows s' 1 = lastn (tier_cap (st_tiers s ! 1)) (store_rows s 1
         @ buckets (int (unat (tier_interval_s (st_tiers s ! 1)))) n start1 pend1 ps)
    \<and> store_rows s' 2 = lastn (tier_cap (st_tiers s ! 2)) (store_rows s 2
         @ buckets (int (unat (tier_interval_s (st_tiers s ! 2)))) n start2 pend2 ps)"
  using assms
proof (induction ps arbitrary: s start1 pend1 start2 pend2)
  case Nil
  have "length (store_rows s i) \<le> tier_cap (st_tiers s ! i)" if "i < STORE_TIERS" for i
    using tier.log_bound [OF store_inv_tier [OF Nil.prems(1) that]] .
  with Nil show ?case by (simp add: STORE_TIERS_def)
next
  case (Cons p ps)
  obtain ts row where p: "p = (ts, row)" by (cases p)
  have len: "length row = n" using Cons.prems(3) p by simp
  have le: "unat (st_n_metrics s) \<le> length row" using len Cons.prems(2) by simp
  note n = Cons.prems(2)
  obtain s' t0 t1 t2 t0' t1' t2' ps1 ps2 where
    s': "store_push s row ts = Some (s', callback_of t0 (take n row) ts @ ps1 @ ps2)" "store_inv s'"
    "st_n_metrics s' = st_n_metrics s" "st_tiers s = [t0, t1, t2]" "st_tiers s' = [t0', t1', t2']"
    "tier_capacity t0' = tier_capacity t0"
    "tier_rows n t0' = lastn (tier_cap t0) (tier_rows n t0 @ [(ts, take n row)])"
    "coarse_post n row ts t1 t1' ps1" "coarse_post n row ts t2 t2' ps2"
    by (rule store_push_ok [OF Cons.prems(1) le, unfolded n])
  have c1: "tier_cap t1' = tier_cap t1" "tier_interval_s t1' = tier_interval_s t1"
    and c2: "tier_cap t2' = tier_cap t2" "tier_interval_s t2' = tier_interval_s t2"
    and c0: "tier_cap t0' = tier_cap t0"
    using s'(6,8,9) by (simp_all add: coarse_post_def tier_cap_def)
  define st1 where "st1 = (if start1 = 0 then ts else start1)"
  define st2 where "st2 = (if start2 = 0 then ts else start2)"
  have r1: "acc_rel n t1 start1 pend1" and r2: "acc_rel n t2 start2 pend2"
    using Cons.prems(4,6) s'(4) by simp_all
  have small: "length pend1 + 1 < 2 ^ 32" "length pend2 + 1 < 2 ^ 32" using Cons.prems(5,7) by simp_all
  define iv1 where "iv1 = int (unat (tier_interval_s t1))"
  define iv2 where "iv2 = int (unat (tier_interval_s t2))"
  note step1 = coarse_post_step [OF s'(8) r1 small(1), folded st1_def iv1_def]
  note step2 = coarse_post_step [OF s'(9) r2 small(2), folded st2_def iv2_def]
  define q1 where "q1 = (if iv1 \<le> ts - st1 then (ts, []) else (st1, pend1 @ [row]))"
  define q2 where "q2 = (if iv2 \<le> ts - st2 then (ts, []) else (st2, pend2 @ [row]))"
  have a1: "acc_rel n (st_tiers s' ! 1) (fst q1) (snd q1)" and a2: "acc_rel n (st_tiers s' ! 2) (fst q2) (snd q2)"
    using step1 step2 s'(5) by (simp_all add: q1_def q2_def split: if_splits)
  have l1: "length (snd q1) + length ps < 2 ^ 32" and l2: "length (snd q2) + length ps < 2 ^ 32"
    using Cons.prems(5,7) by (auto simp: q1_def q2_def)
  have all: "list_all (\<lambda>p. length (snd p) = n) ps" using Cons.prems(3) by simp
  have n': "unat (st_n_metrics s') = n" using s'(3) n by simp
  obtain s'' where s'': "store_push_all ps s' = Some s''" "store_inv s''" "unat (st_n_metrics s'') = n"
    "store_rows s'' 0 = lastn (tier_cap t0) (tier_rows n t0' @ ps)"
    "store_rows s'' 1 = lastn (tier_cap t1) (tier_rows n t1' @ buckets iv1 n (fst q1) (snd q1) ps)"
    "store_rows s'' 2 = lastn (tier_cap t2) (tier_rows n t2' @ buckets iv2 n (fst q2) (snd q2) ps)"
    using Cons.IH [OF s'(2) n' all a1 l1 a2 l2] s'(5) c0 c1 c2 n' by (auto simp: iv1_def iv2_def)
  have b1: "lastn (tier_cap t1) (tier_rows n t1' @ buckets iv1 n (fst q1) (snd q1) ps)
      = lastn (tier_cap t1) (tier_rows n t1 @ buckets iv1 n start1 pend1 (p # ps))"
    using step1 by (auto simp: q1_def p Let_def st1_def lastn_append_lastn)
  have b2: "lastn (tier_cap t2) (tier_rows n t2' @ buckets iv2 n (fst q2) (snd q2) ps)
      = lastn (tier_cap t2) (tier_rows n t2 @ buckets iv2 n start2 pend2 (p # ps))"
    using step2 by (auto simp: q2_def p Let_def st2_def lastn_append_lastn)
  have b0: "lastn (tier_cap t0) (tier_rows n t0' @ ps) = lastn (tier_cap t0) (tier_rows n t0 @ p # ps)"
    using s'(7) len p by (simp add: lastn_append_lastn)
  show ?case
    using s'(1,4) s'' b0 b1 b2 n by (simp add: p iv1_def iv2_def)
qed

section \<open>The mean of a bucket\<close>

text \<open>Sums of fewer than \<open>2 ^ 29\<close> floats between two floats: the bounds are exact in double.\<close>

lemma f32_multiple_exact:
  assumes "f32_to_double u = DFin a" "k < 2 ^ 29"
  shows "to_double (of_nat k * a) = DFin (of_nat k * a)"
proof -
  obtain m e where a: "a = of_int m * 2 powi e" "\<bar>m\<bar> < 2 ^ 24" "- 149 \<le> e" "e \<le> 104"
    by (rule f32_finite_form [OF assms(1)])
  have "\<bar>int k * m\<bar> = int k * \<bar>m\<bar>" by (simp add: abs_mult)
  also have "\<dots> \<le> int k * 2 ^ 24" using a(2) by (intro mult_left_mono) auto
  also have "\<dots> < 2 ^ 29 * 2 ^ 24" using assms(2) by simp
  finally have m: "\<bar>int k * m\<bar> < 2 ^ 53" by simp
  have "\<bar>of_nat k * a\<bar> = of_nat k * \<bar>a\<bar>" by (simp add: abs_mult)
  also have "\<dots> \<le> of_nat k * 2 ^ 128" using f32_finite_bound [OF assms(1)] by (intro mult_left_mono) auto
  also have "\<dots> \<le> (2 ^ 29 :: rat) * 2 ^ 128"
    using assms(2) by (intro mult_right_mono) (simp_all add: less_imp_le)
  also have "\<dots> < 2 ^ 1024" by simp
  finally show ?thesis using m a(3) by (intro to_double_exact [of _ "int k * m" e]) (simp_all add: a(1))
qed

lemma dsum_bounds:
  assumes "f32_to_double u = DFin a" "f32_to_double v = DFin b" "length xs < 2 ^ 29"
    "\<forall>x \<in> set xs. \<exists>q. f32_to_double x = DFin q \<and> a \<le> q \<and> q \<le> b"
  shows "\<exists>s. dsum xs = DFin s \<and> of_nat (length xs) * a \<le> s \<and> s \<le> of_nat (length xs) * b"
  using assms(3,4)
proof (induction xs rule: rev_induct)
  case Nil
  show ?case by (simp add: dsum_def)
next
  case (snoc x xs)
  then obtain s where s: "dsum xs = DFin s" "of_nat (length xs) * a \<le> s" "s \<le> of_nat (length xs) * b"
    by auto
  obtain q where q: "f32_to_double x = DFin q" "a \<le> q" "q \<le> b" using snoc.prems(2) by auto
  define k where "k = length (xs @ [x])"
  have k: "k < 2 ^ 29" using snoc.prems(1) by (simp add: k_def)
  have "of_nat k * a \<le> s + q" "s + q \<le> of_nat k * b"
    using s q by (simp_all add: k_def algebra_simps)
  from to_double_bounded [OF f32_multiple_exact [OF assms(1) k] f32_multiple_exact [OF assms(2) k] this]
  show ?case using s(1) q(1) by (simp add: dsum_snoc k_def)
qed

lemma bucket_mean_bounds:
  assumes "f32_to_double u = DFin a" "f32_to_double v = DFin b"
    "readings m rows \<noteq> []" "length rows < 2 ^ 29"
    "\<forall>x \<in> set (readings m rows). \<exists>q. f32_to_double x = DFin q \<and> a \<le> q \<and> q \<le> b"
  shows "\<exists>r. f32_to_double (bucket_mean m rows) = DFin r \<and> a \<le> r \<and> r \<le> b"
proof -
  define xs where "xs = readings m rows"
  have k: "length xs < 2 ^ 29" using length_readings [of m rows] assms(4) by (simp add: xs_def)
  have pos: "(0 :: rat) < of_nat (length xs)" using assms(3) by (simp add: xs_def)
  obtain s where s: "dsum xs = DFin s" "of_nat (length xs) * a \<le> s" "s \<le> of_nat (length xs) * b"
    using dsum_bounds [OF assms(1,2) k] assms(5) by (auto simp: xs_def)
  have "a \<le> s / of_nat (length xs)" "s / of_nat (length xs) \<le> b"
    using s pos by (simp_all add: field_simps)
  from to_double_bounded [OF f32_multiple_exact [OF assms(1), of 1, simplified]
      f32_multiple_exact [OF assms(2), of 1, simplified] this]
  obtain w where w: "to_double (s / of_nat (length xs)) = DFin w" "a \<le> w" "w \<le> b" by auto
  have "ddiv (dsum xs) (to_double (of_nat (length xs))) = DFin w"
    using s(1) w(1) k pos by (simp add: to_double_of_nat)
  then have "bucket_mean m rows = double_to_f32 (DFin w)"
    using assms(3) by (simp add: bucket_mean_def xs_def Let_def)
  then show ?thesis using f32_round_bounded [OF assms(1,2) w(2,3)] by simp
qed

section \<open>Spacing of the coarse samples\<close>

lemma buckets_spacing:
  assumes "sorted_wrt (\<lambda>p q. fst p < fst q) ps" "\<forall>p \<in> set ps. 0 < fst p" "0 < iv"
  shows "sorted_wrt (\<lambda>p q. iv \<le> fst q - fst p) (buckets iv n start pend ps)
    \<and> (\<forall>q \<in> set (buckets iv n start pend ps). fst q \<in> fst ` set ps
         \<and> (start \<noteq> 0 \<longrightarrow> iv \<le> fst q - start))"
  using assms(1,2)
proof (induction iv n start pend ps rule: buckets.induct)
  case (2 iv n start pend ts row ps)
  have IH1: "sorted_wrt (\<lambda>p q. iv \<le> fst q - fst p) (buckets iv n ts [] ps)
    \<and> (\<forall>q \<in> set (buckets iv n ts [] ps). fst q \<in> fst ` set ps \<and> (ts \<noteq> 0 \<longrightarrow> iv \<le> fst q - ts))"
    if "iv \<le> ts - (if start = 0 then ts else start)"
    using 2 that by auto
  have IH2: "sorted_wrt (\<lambda>p q. iv \<le> fst q - fst p) (buckets iv n st (pend @ [row]) ps)
    \<and> (\<forall>q \<in> set (buckets iv n st (pend @ [row]) ps). fst q \<in> fst ` set ps \<and> (st \<noteq> 0 \<longrightarrow> iv \<le> fst q - st))"
    if "\<not> iv \<le> ts - st" "st = (if start = 0 then ts else start)" for st
    using 2 that by auto
  have ts: "0 < ts" using "2.prems"(2) by simp
  have later: "ts < fst q" if "q \<in> set ps" for q using "2.prems"(1) that by auto
  show ?case
  proof (cases "iv \<le> ts - (if start = 0 then ts else start)")
    case True
    note I = IH1 [OF True]
    have "iv \<le> fst q - start" if "q \<in> set (buckets iv n ts [] ps)" "start \<noteq> 0" for q
    proof -
      have "fst q \<in> fst ` set ps" using I that by auto
      then have "ts < fst q" using later by auto
      with True that show ?thesis by auto
    qed
    with True I ts show ?thesis by (auto simp: Let_def)
  next
    case False
    from IH2 [OF False refl] False ts show ?thesis by (auto simp: Let_def split: if_splits)
  qed
qed simp

section \<open>Properties\<close>

lemma fresh_acc_rel: "0 < i \<Longrightarrow> acc_rel (unat n) (new_tier n i iv cap) 0 []"
  by (simp add: acc_rel_def new_tier_def readings_def dsum_def)

text \<open>From a store just allocated, with the intervals of the coarse tiers filled in.\<close>

lemma fresh_store_pushed:
  assumes new: "store_new registry base memory = Some s" and n: "n = unat (reg_count registry)"
    and width: "list_all (\<lambda>p. length (snd p) = n) ps" and few: "length ps < 2 ^ 32"
  obtains s' where "store_push_all ps s = Some s'" "store_inv s'" "unat (st_n_metrics s') = n"
    "store_rows s' 0 = lastn (tier_cap (st_tiers s ! 0)) ps"
    "store_rows s' 1 = lastn (tier_cap (st_tiers s ! 1)) (buckets 15 n 0 [] ps)"
    "store_rows s' 2 = lastn (tier_cap (st_tiers s ! 2)) (buckets 300 n 0 [] ps)"
proof -
  obtain s0 c0 c1 c2 where s0: "store_new registry base memory = Some s0" "store_inv s0"
    "st_n_metrics s0 = reg_count registry"
    "st_tiers s0 = [new_tier (reg_count registry) 0 (max 1 base) c0,
       new_tier (reg_count registry) 1 15 c1, new_tier (reg_count registry) 2 300 c2]"
    by (rule store_new_ok)
  have s: "s0 = s" using new s0(1) by simp
  note s0 = s0(2-4) [unfolded s]
  have rows: "store_rows s i = []" if "i < 3" for i
    using that by (auto simp: s0(2,3) tier_rows_def ring_list_def new_tier_def less_Suc_eq numeral_3_eq_3)
  have acc: "acc_rel n (st_tiers s ! 1) 0 []" "acc_rel n (st_tiers s ! 2) 0 []"
    using fresh_acc_rel by (simp_all add: s0(3) n)
  have iv: "int (unat (tier_interval_s (st_tiers s ! 1))) = 15" "int (unat (tier_interval_s (st_tiers s ! 2))) = 300"
    by (simp_all add: s0(3) new_tier_def)
  have "unat (st_n_metrics s) = n" "length ([] :: gfloat list list) + length ps < 2 ^ 32"
    using few by (simp_all add: n s0(2))
  note all = store_push_all_refines [OF s0(1) this(1) width acc(1) this(2) acc(2) this(2), unfolded iv]
  obtain s' where s': "store_push_all ps s = Some s'" "store_inv s'" "unat (st_n_metrics s') = n"
    "store_rows s' 0 = lastn (tier_cap (st_tiers s ! 0)) ps"
    "store_rows s' 1 = lastn (tier_cap (st_tiers s ! 1)) (buckets 15 n 0 [] ps)"
    "store_rows s' 2 = lastn (tier_cap (st_tiers s ! 2)) (buckets 300 n 0 [] ps)"
    using all by (elim exE conjE) (simp only: rows [of 0] rows [of 1] rows [of 2] append_Nil)
  show thesis by (rule that [OF s'])
qed

text \<open>C1: A store just allocated takes any sequence of samples of the registry's width without
  leaving its buffers; the fine tier then holds the most recent samples, and the two coarse
  tiers hold the most recent 15-second and 5-minute means of the whole sequence.\<close>

theorem store_push_downsamples:
  assumes new: "store_new registry base memory = Some s" and n: "n = unat (reg_count registry)"
    and width: "list_all (\<lambda>p. length (snd p) = n) ps" and few: "length ps < 2 ^ 32"
  shows "\<exists>s'. store_push_all ps s = Some s' \<and> store_inv s'
    \<and> store_rows s' 0 = lastn (tier_cap (st_tiers s ! 0)) ps
    \<and> store_rows s' 1 = lastn (tier_cap (st_tiers s ! 1)) (buckets 15 n 0 [] ps)
    \<and> store_rows s' 2 = lastn (tier_cap (st_tiers s ! 2)) (buckets 300 n 0 [] ps)"
  by (rule fresh_store_pushed [OF assms]) blast

theorem store_push_downsamples_witness:
  "\<exists>s s'. store_new \<lparr>reg_defs = [], reg_count = 1, reg_capacity = 64\<rparr> 1 0 = Some s
    \<and> store_push_all [(1000, [1065353216]), (1001, [0x7fc00000]), (1015, [1077936128])] s = Some s'
    \<and> store_rows s' 1 = lastn (tier_cap (st_tiers s ! 1))
         (buckets 15 1 0 [] [(1000, [1065353216]), (1001, [0x7fc00000]), (1015, [1077936128])])"
proof -
  obtain s where s: "store_new \<lparr>reg_defs = [], reg_count = 1, reg_capacity = 64\<rparr> 1 0 = Some s"
    by (rule store_new_ok)
  from store_push_downsamples [OF s refl,
    of "[(1000, [1065353216]), (1001, [0x7fc00000]), (1015, [1077936128])]"]
  show ?thesis using s by auto
qed

text \<open>C2: The mean a coarse tier stores is between the smallest and the largest reading of its
  bucket, in IEEE arithmetic with all its roundings: if every reading that is not NaN is a
  finite float between two floats \<open>u\<close> and \<open>v\<close>, so is the mean.\<close>

theorem bucket_mean_between:
  assumes "f32_to_double u = DFin a" "f32_to_double v = DFin b"
    "readings m rows \<noteq> []" "length rows < 2 ^ 29"
    "\<forall>x \<in> set (readings m rows). \<exists>q. f32_to_double x = DFin q \<and> a \<le> q \<and> q \<le> b"
    "k = length (readings m rows)"
  shows "\<exists>r. f32_to_double (bucket_value (dsum (readings m rows)) (of_nat k)) = DFin r \<and> a \<le> r \<and> r \<le> b"
proof -
  have "k < 2 ^ 32" using length_readings [of m rows] assms(4,6) by simp
  then have "bucket_value (dsum (readings m rows)) (of_nat k) = bucket_mean m rows"
    unfolding assms(6) by (rule bucket_value_mean)
  with bucket_mean_bounds [OF assms(1-5)] show ?thesis by simp
qed

lemma f32_one_two: "f32_to_double 1065353216 = DFin 1" "f32_to_double 1073741824 = DFin 2"
  by (simp_all add: f32_to_double_def f32_exp_def f32_frac_def f32_neg_def f32_mag_def power_int_def power_divide)

theorem bucket_mean_between_witness:
  "\<exists>r. f32_to_double (bucket_value (dsum [1065353216, 1073741824]) 2) = DFin r \<and> 1 \<le> r \<and> r \<le> 2"
proof -
  have r: "readings 0 [[1065353216], [f32_nan], [1073741824]] = [1065353216, 1073741824]"
    by (simp add: readings_def f32_isnan_def f32_nan_def f32_exp_def f32_frac_def)
  have "length [[1065353216], [f32_nan], [1073741824]] < (2 :: nat) ^ 29" by simp
  from bucket_mean_between [OF f32_one_two, of 0 "[[1065353216], [f32_nan], [1073741824]]" 2, OF _ this]
  show ?thesis by (simp add: r f32_one_two)
qed

text \<open>With increasing positive timestamps, consecutive samples of a coarse tier are at least
  its interval apart, and each carries the timestamp of a pushed sample.\<close>

theorem coarse_tier_spacing:
  assumes new: "store_new registry base memory = Some s"
    and width: "list_all (\<lambda>p. length (snd p) = unat (reg_count registry)) ps" and few: "length ps < 2 ^ 32"
    and mono: "sorted_wrt (\<lambda>p q. fst p < fst q) ps" "\<forall>p \<in> set ps. 0 < fst p"
    and push: "store_push_all ps s = Some s'" and i: "i = 1 \<or> i = 2"
  shows "sorted_wrt (\<lambda>p q. int (unat (TIER_INTERVAL ! i)) \<le> fst q - fst p) (store_rows s' i)
    \<and> (\<forall>q \<in> set (store_rows s' i). fst q \<in> fst ` set ps)"
proof -
  define n where "n = unat (reg_count registry)"
  obtain s'' where "store_push_all ps s = Some s''"
    "store_rows s'' 1 = lastn (tier_cap (st_tiers s ! 1)) (buckets 15 n 0 [] ps)"
    "store_rows s'' 2 = lastn (tier_cap (st_tiers s ! 2)) (buckets 300 n 0 [] ps)"
    by (rule fresh_store_pushed [OF new n_def width [folded n_def] few])
  with push i have rows: "store_rows s' i = lastn (tier_cap (st_tiers s ! i))
      (buckets (int (unat (TIER_INTERVAL ! i))) n 0 [] ps)"
    by (auto simp: TIER_INTERVAL_def)
  have "0 < int (unat (TIER_INTERVAL ! i))" using i by (auto simp: TIER_INTERVAL_def)
  from buckets_spacing [OF mono this, of n 0 "[]"] show ?thesis
    unfolding rows using set_lastn by (fast intro: sorted_wrt_lastn)
qed

theorem coarse_tier_spacing_witness:
  "\<exists>s s'. store_new \<lparr>reg_defs = [], reg_count = 1, reg_capacity = 64\<rparr> 1 0 = Some s
    \<and> store_push_all [(1000, [0]), (1016, [0]), (1040, [0])] s = Some s'
    \<and> sorted_wrt (\<lambda>p q. 15 \<le> fst q - fst p) (store_rows s' 1)"
proof -
  define r where "r = \<lparr>reg_defs = [], reg_count = 1, reg_capacity = 64\<rparr>"
  define ps :: "(gint64 \<times> gfloat list) list" where "ps = [(1000, [0]), (1016, [0]), (1040, [0])]"
  obtain s where s: "store_new r 1 0 = Some s" by (rule store_new_ok)
  have w: "list_all (\<lambda>p. length (snd p) = unat (reg_count r)) ps" "length ps < 2 ^ 32"
    "sorted_wrt (\<lambda>p q. fst p < fst q) ps" "\<forall>p \<in> set ps. 0 < fst p" by (simp_all add: ps_def r_def)
  obtain s' where s': "store_push_all ps s = Some s'" by (rule fresh_store_pushed [OF s refl w(1,2)])
  have "int (unat (TIER_INTERVAL ! 1)) = 15" by (simp add: TIER_INTERVAL_def)
  with s s' coarse_tier_spacing [OF s w s', of 1] show ?thesis
    unfolding r_def ps_def by auto
qed

text \<open>A store of one metric with two samples, for the witnesses.\<close>

lemma pushed_store:
  obtains s where "store_inv s" "unat (st_n_metrics s) = 1" "store_rows s 0 = [(1000, [7]), (1001, [8])]"
proof -
  define r where "r = \<lparr>reg_defs = [], reg_count = 1, reg_capacity = 64\<rparr>"
  define ps :: "(gint64 \<times> gfloat list) list" where "ps = [(1000, [7]), (1001, [8])]"
  obtain s0 c0 c1 c2 where s0: "store_new r 1 0 = Some s0"
    "st_tiers s0 = [new_tier (reg_count r) 0 (max 1 1) c0, new_tier (reg_count r) 1 15 c1, new_tier (reg_count r) 2 300 c2]"
    "300 \<le> c0" by (rule store_new_ok [of r 1 0])
  have w: "list_all (\<lambda>p. length (snd p) = unat (reg_count r)) ps" "length ps < 2 ^ 32"
    by (simp_all add: ps_def r_def)
  obtain s where s: "store_inv s" "unat (st_n_metrics s) = unat (reg_count r)"
    "store_rows s 0 = lastn (tier_cap (st_tiers s0 ! 0)) ps"
    by (rule fresh_store_pushed [OF s0(1) refl w])
  have "store_rows s 0 = ps" using s0(3) by (simp add: s(3) s0(2) ps_def tier_cap_def new_tier_def word_le_nat_alt)
  note rows = this [unfolded ps_def]
  show thesis by (rule that [OF s(1) _ rows]) (simp add: s(2) r_def)
qed

text \<open>C18: The series of a metric is the samples of the tier with timestamp at least \<open>since\<close>,
  oldest first, cut to the first \<open>max_points\<close>; it never reads outside the tier.\<close>

theorem store_series_spec:
  assumes "store_inv s" "i < STORE_TIERS" "unat m < unat (st_n_metrics s)"
  shows "store_series s i m since max_points = Some (take (unat max_points)
     (map (\<lambda>r. (fst r, snd r ! unat m)) (filter (\<lambda>r. since \<le> fst r) (store_rows s i))))"
  using store_series_ok [OF assms] by (simp add: metric_points_def)

theorem store_series_spec_witness:
  "\<exists>s. store_inv s \<and> store_series s 0 0 1001 10 = Some [(1001, 8)]"
proof -
  obtain s where s: "store_inv s" "unat (st_n_metrics s) = 1" "store_rows s 0 = [(1000, [7]), (1001, [8])]"
    by (rule pushed_store)
  from store_series_spec [OF s(1), of 0 0 1001 10] s show ?thesis by (auto simp: STORE_TIERS_def)
qed

text \<open>Reading sample \<open>index\<close> of a tier gives the \<open>index\<close>-th oldest sample, or the FALSE
  return when the tier holds fewer.\<close>

theorem store_tier_sample_spec:
  assumes "store_inv s" "i < STORE_TIERS"
  shows "store_tier_sample s i index = Some (if unat index < length (store_rows s i)
     then Some (snd (store_rows s i ! unat index), fst (store_rows s i ! unat index)) else None)"
  using assms by (rule tier_sample_ok)

theorem store_tier_sample_spec_witness:
  "\<exists>s. store_inv s \<and> store_tier_sample s 0 1 = Some (Some ([8], 1001)) \<and> store_tier_sample s 0 2 = Some None"
proof -
  obtain s where s: "store_inv s" "unat (st_n_metrics s) = 1" "store_rows s 0 = [(1000, [7]), (1001, [8])]"
    by (rule pushed_store)
  have "unat (tier_count (st_tiers s ! 0)) = 2" using arg_cong [OF s(3), of length] by simp
  with store_tier_sample_spec [OF s(1), of 0 1] store_tier_sample_spec [OF s(1), of 0 2] s show ?thesis
    by (auto simp: STORE_TIERS_def)
qed

text \<open>C19: Allocation never fails and is bounded on every camera: with any amount of memory the fine
  tier keeps between 300 and 1800 samples, the medium between 720 and 2880 and the coarse between
  576 and 8640, all tiers start empty, and the scaling never overflows or divides by zero.\<close>

theorem store_new_bounded:
  "\<exists>s. store_new registry base memory = Some s \<and> store_inv s
    \<and> store_rows s 0 = [] \<and> store_rows s 1 = [] \<and> store_rows s 2 = []
    \<and> tier_cap (st_tiers s ! 0) \<in> {300..1800} \<and> tier_cap (st_tiers s ! 1) \<in> {720..2880}
    \<and> tier_cap (st_tiers s ! 2) \<in> {576..8640}"
proof -
  obtain s c0 c1 c2 where s: "store_new registry base memory = Some s" "store_inv s"
    "st_n_metrics s = reg_count registry"
    "st_tiers s = [new_tier (reg_count registry) 0 (max 1 base) c0,
       new_tier (reg_count registry) 1 15 c1, new_tier (reg_count registry) 2 300 c2]"
    "300 \<le> c0" "c0 \<le> max 300 (1800 div max 1 base)" "720 \<le> c1" "c1 \<le> 2880" "576 \<le> c2" "c2 \<le> 8640"
    by (rule store_new_ok)
  have "(1800 :: guint) div max 1 base \<le> 1800" by (simp add: word_le_nat_alt unat_div div_le_dividend)
  then have "max 300 (1800 div max 1 base) \<le> 1800" by simp
  with s(6) have "c0 \<le> 1800" by (rule order_trans)
  moreover have "store_rows s 0 = []" "store_rows s 1 = []" "store_rows s 2 = []"
    by (simp_all add: s(3,4) tier_rows_def ring_list_def new_tier_def)
  ultimately show ?thesis
    using s by (intro exI [of _ s]) (simp add: tier_cap_def new_tier_def word_le_nat_alt)
qed

text \<open>The tier chosen for a chart window is the finest that covers it in at most 2000 points, or
  the coarsest when none does.\<close>

theorem window_tier_finest:
  assumes "store_inv s"
  shows "\<exists>k. store_tier_for_window s w = Some k \<and> k < STORE_TIERS
    \<and> (\<forall>j < k. 2000 < unat w div unat (tier_interval_s (st_tiers s ! j)))
    \<and> (unat w div unat (tier_interval_s (st_tiers s ! k)) \<le> 2000 \<or> k = STORE_TIERS - 1)"
proof -
  have t: "\<forall>t \<in> set (st_tiers s). 0 < unat (tier_interval_s t)" "0 + length (st_tiers s) = STORE_TIERS"
    "0 < 0 + length (st_tiers s)" using assms by (auto simp: store_inv_def STORE_TIERS_def)
  show ?thesis unfolding store_tier_for_window_def
    by (rule tier_for_window_ok [OF t, of w]) auto
qed

theorem window_tier_finest_witness:
  "\<exists>s k. store_new \<lparr>reg_defs = [], reg_count = 1, reg_capacity = 64\<rparr> 1 0 = Some s
    \<and> store_tier_for_window s 3600 = Some k \<and> k < STORE_TIERS"
proof -
  obtain s where "store_new \<lparr>reg_defs = [], reg_count = 1, reg_capacity = 64\<rparr> 1 0 = Some s" "store_inv s"
    by (rule store_new_ok)
  with window_tier_finest [of s 3600] show ?thesis by blast
qed

end
