(* ===== verification/FileIO.thy ===== *)
theory FileIO
  imports Prelude
begin

text \<open>
  The file of \<^verbatim>\<open>app/persist.c\<close> at the level of bytes: little-endian integers as the
  cameras store them in memory, a file that grows with zeros when written past its end,
  \<open>pread\<close> and \<open>pwrite\<close> with partial and failed transfers, and the loops \<open>read_at\<close> and
  \<open>write_at\<close> around them.
\<close>

section \<open>Little-endian integers\<close>

fun le_bytes :: "nat \<Rightarrow> nat \<Rightarrow> byte list" where
  "le_bytes 0 x = []"
| "le_bytes (Suc n) x = of_nat (x mod 256) # le_bytes n (x div 256)"

fun le_value :: "byte list \<Rightarrow> nat" where
  "le_value [] = 0"
| "le_value (b # bs) = unat b + 256 * le_value bs"

lemma length_le_bytes [simp]: "length (le_bytes n x) = n"
  by (induction n arbitrary: x) auto

lemma unat_byte_of_mod [simp]: "unat (of_nat (x mod 256) :: byte) = x mod 256"
  by (simp add: unat_of_nat take_bit_nat_def)

lemma le_value_bytes: "le_value (le_bytes n x) = x mod 256 ^ n"
proof (induction n arbitrary: x)
  case (Suc n)
  have "x mod (256 * 256 ^ n) = 256 * (x div 256 mod 256 ^ n) + x mod 256"
    by (rule mod_mult2_eq)
  with Suc show ?case by simp
qed simp

definition u32_bytes :: "guint \<Rightarrow> byte list" where
  "u32_bytes w = le_bytes 4 (unat w)"

definition u32_of :: "byte list \<Rightarrow> guint" where
  "u32_of bs = of_nat (le_value (take 4 bs))"

definition i64_bytes :: "gint64 \<Rightarrow> byte list" where
  "i64_bytes t = le_bytes 8 (nat (t mod 2 ^ 64))"

definition i64_of :: "byte list \<Rightarrow> gint64" where
  "i64_of bs = (let v = int (le_value (take 8 bs)) in if v < 2 ^ 63 then v else v - 2 ^ 64)"

lemma length_u32_bytes [simp]: "length (u32_bytes w) = 4"
  by (simp add: u32_bytes_def)

lemma length_i64_bytes [simp]: "length (i64_bytes t) = 8"
  by (simp add: i64_bytes_def)

lemma u32_of_bytes [simp]: "u32_of (u32_bytes w @ bs) = w"
proof -
  have "(256 :: nat) ^ 4 = 2 ^ 32" by simp
  then have "le_value (le_bytes 4 (unat w)) = unat w"
    using unat_guint [of w] by (simp only: le_value_bytes) simp
  then show ?thesis by (simp add: u32_of_def u32_bytes_def)
qed

lemma i64_of_bytes:
  assumes "in_gint64 t"
  shows "i64_of (i64_bytes t @ bs) = t"
proof -
  have "(256 :: nat) ^ 8 = 2 ^ 64" by simp
  moreover have "nat (t mod 2 ^ 64) < 2 ^ 64" by (simp add: nat_less_iff)
  ultimately have "le_value (le_bytes 8 (nat (t mod 2 ^ 64))) = nat (t mod 2 ^ 64)"
    by (simp only: le_value_bytes mod_less)
  then have v: "int (le_value (take 8 (i64_bytes t @ bs))) = t mod 2 ^ 64"
    by (simp add: i64_bytes_def)
  show ?thesis
  proof (cases "0 \<le> t")
    case True
    with assms have "t mod 2 ^ 64 = t" by (intro mod_pos_pos_trivial) (simp_all add: in_gint64_def)
    with True assms v show ?thesis by (simp add: i64_of_def Let_def in_gint64_def)
  next
    case False
    have "t mod 2 ^ 64 = (t + 2 ^ 64) mod 2 ^ 64" by simp
    also have "\<dots> = t + 2 ^ 64"
      using False assms by (intro mod_pos_pos_trivial) (simp_all add: in_gint64_def)
    finally have "t mod 2 ^ 64 = t + 2 ^ 64" .
    with False assms v show ?thesis by (simp add: i64_of_def Let_def in_gint64_def)
  qed
qed

section \<open>File contents\<close>

definition get_bytes :: "nat \<Rightarrow> nat \<Rightarrow> byte list \<Rightarrow> byte list" where
  "get_bytes off n f = take n (drop off f)"

definition put_bytes :: "nat \<Rightarrow> byte list \<Rightarrow> byte list \<Rightarrow> byte list" where
  "put_bytes off bs f = (if bs = [] then f
     else take off (f @ replicate (off - length f) 0) @ bs @ drop (off + length bs) f)"

lemma length_put_bytes:
  "length (put_bytes off bs f) = (if bs = [] then length f else max (length f) (off + length bs))"
  by (auto simp: put_bytes_def)

lemma put_bytes_inside: "off + length bs \<le> length f \<Longrightarrow> length (put_bytes off bs f) = length f"
  by (auto simp: length_put_bytes)

lemma put_bytes_nth:
  assumes "i < length (put_bytes off bs f)"
  shows "put_bytes off bs f ! i = (if off \<le> i \<and> i < off + length bs then bs ! (i - off)
     else if i < length f then f ! i else 0)"
  using assms by (auto simp: put_bytes_def nth_append min_def split: if_splits)

lemma get_put_same: "get_bytes off (length bs) (put_bytes off bs f) = bs"
  by (auto simp: get_bytes_def put_bytes_def)

lemma get_put_other:
  assumes "off' + n \<le> off \<or> off + length bs \<le> off'" "off' + n \<le> length f"
  shows "get_bytes off' n (put_bytes off bs f) = get_bytes off' n f"
proof (rule nth_equalityI)
  have le: "length f \<le> length (put_bytes off bs f)" by (simp add: length_put_bytes)
  with assms(2) show "length (get_bytes off' n (put_bytes off bs f)) = length (get_bytes off' n f)"
    by (simp add: get_bytes_def)
  fix i assume "i < length (get_bytes off' n (put_bytes off bs f))"
  with assms le show "get_bytes off' n (put_bytes off bs f) ! i = get_bytes off' n f ! i"
    by (auto simp: get_bytes_def put_bytes_nth)
qed

lemma length_get_bytes: "off + n \<le> length f \<Longrightarrow> length (get_bytes off n f) = n"
  by (simp add: get_bytes_def)

lemma get_get_bytes: "a + k \<le> n \<Longrightarrow> get_bytes a k (get_bytes off n f) = get_bytes (off + a) k f"
  by (simp add: get_bytes_def drop_take add.commute)

lemma put_put_append:
  "put_bytes (off + length xs) ys (put_bytes off xs f) = put_bytes off (xs @ ys) f"
proof (rule nth_equalityI)
  show "length (put_bytes (off + length xs) ys (put_bytes off xs f)) = length (put_bytes off (xs @ ys) f)"
    by (auto simp: length_put_bytes)
  fix i assume i: "i < length (put_bytes (off + length xs) ys (put_bytes off xs f))"
  then have i': "i < length (put_bytes off (xs @ ys) f)" by (auto simp: length_put_bytes split: if_splits)
  show "put_bytes (off + length xs) ys (put_bytes off xs f) ! i = put_bytes off (xs @ ys) f ! i"
    unfolding put_bytes_nth [OF i] put_bytes_nth [OF i']
    using i by (auto simp: put_bytes_nth length_put_bytes nth_append split: if_splits)
qed

section \<open>Transfers\<close>

text \<open>
  \<open>disk_calls\<close> scripts the outcome of the coming transfers: \<open>0\<close> is a call that fails, \<open>k\<close> a
  call that moves at most \<open>k\<close> bytes; after its end every call moves all it can.
\<close>

record disk =
  disk_file :: "byte list"
  disk_calls :: "nat list"

definition call_limit :: "disk \<Rightarrow> nat \<Rightarrow> nat" where
  "call_limit d n = (case disk_calls d of [] \<Rightarrow> n | k # _ \<Rightarrow> min k n)"

definition next_call :: "disk \<Rightarrow> disk" where
  "next_call d = d\<lparr>disk_calls := tl (disk_calls d)\<rparr>"

definition pread :: "disk \<Rightarrow> nat \<Rightarrow> nat \<Rightarrow> byte list \<times> disk" where
  "pread d n off = (get_bytes off (call_limit d n) (disk_file d), next_call d)"

definition pwrite :: "disk \<Rightarrow> byte list \<Rightarrow> nat \<Rightarrow> nat \<times> disk" where
  "pwrite d bs off = (let k = call_limit d (length bs) in
     (k, (next_call d)\<lparr>disk_file := put_bytes off (take k bs) (disk_file d)\<rparr>))"

text \<open>\<open>None\<close> and \<open>False\<close> are the FALSE returns.\<close>

function read_at :: "disk \<Rightarrow> nat \<Rightarrow> nat \<Rightarrow> byte list option \<times> disk" where
  "read_at d n off = (if n = 0 then (Some [], d)
     else case pread d n off of (got, d') \<Rightarrow>
       if got = [] then (None, d')
       else case read_at d' (n - length got) (off + length got) of
         (None, d'') \<Rightarrow> (None, d'')
       | (Some rest, d'') \<Rightarrow> (Some (got @ rest), d''))"
  by pat_completeness auto
termination by (relation "measure (\<lambda>(d, n, off). n)") auto

function write_at :: "disk \<Rightarrow> byte list \<Rightarrow> nat \<Rightarrow> bool \<times> disk" where
  "write_at d bs off = (if bs = [] then (True, d)
     else case pwrite d bs off of (put, d') \<Rightarrow>
       if put = 0 then (False, d') else write_at d' (drop put bs) (off + put))"
  by pat_completeness auto
termination by (relation "measure (\<lambda>(d, bs, off). length bs)") auto

declare read_at.simps [simp del] write_at.simps [simp del]

lemma call_limit_le: "call_limit d n \<le> n"
  by (simp add: call_limit_def split: list.split)

lemma next_call_file [simp]: "disk_file (next_call d) = disk_file d"
  by (simp add: next_call_def)

text \<open>Scripts in which no call fails.\<close>

definition progressing :: "disk \<Rightarrow> bool" where
  "progressing d \<longleftrightarrow> 0 \<notin> set (disk_calls d)"

lemma progressing_next: "progressing d \<Longrightarrow> progressing (next_call d)"
  by (cases "disk_calls d") (auto simp: progressing_def next_call_def)

lemma progressing_limit: "progressing d \<Longrightarrow> 0 < n \<Longrightarrow> 0 < call_limit d n"
  by (auto simp: progressing_def call_limit_def split: list.split)

lemma progressing_file [simp]: "progressing (d\<lparr>disk_file := f\<rparr>) = progressing d"
  by (simp add: progressing_def)

lemma read_at_spec:
  "disk_file (snd (read_at d n off)) = disk_file d
   \<and> (\<forall>bs. fst (read_at d n off) = Some bs \<longrightarrow> bs = get_bytes off n (disk_file d) \<and> length bs = n)
   \<and> (progressing d \<longrightarrow> progressing (snd (read_at d n off))
        \<and> (off + n \<le> length (disk_file d) \<longrightarrow> fst (read_at d n off) \<noteq> None))"
proof (induction d n off rule: read_at.induct)
  case (1 d n off)
  define got where "got = get_bytes off (call_limit d n) (disk_file d)"
  have pr: "pread d n off = (got, next_call d)" by (simp add: pread_def got_def)
  have len: "length got \<le> n" using call_limit_le [of d n] by (simp add: got_def get_bytes_def)
  have got_take: "got = take (length got) (drop off (disk_file d))"
    by (auto simp: got_def get_bytes_def min_def)
  show ?case
  proof (cases "n = 0 \<or> got = []")
    case True
    moreover have "got \<noteq> []" if "progressing d" "off + n \<le> length (disk_file d)" "0 < n"
      using progressing_limit [OF that(1,3)] that(2) call_limit_le [of d n]
      by (simp add: got_def get_bytes_def)
    ultimately show ?thesis
      by (subst (1 2 3 4) read_at.simps) (auto simp: pr progressing_next get_bytes_def)
  next
    case False
    define r where "r = read_at (next_call d) (n - length got) (off + length got)"
    have split: "got @ get_bytes (off + length got) (n - length got) (disk_file d) = get_bytes off n (disk_file d)"
      using len take_add [of "length got" "n - length got" "drop off (disk_file d)"]
      by (subst got_take) (simp add: get_bytes_def add.commute)
    have eq: "read_at d n off = (case r of (None, d'') \<Rightarrow> (None, d'') | (Some rest, d'') \<Rightarrow> (Some (got @ rest), d''))"
      using False by (subst read_at.simps) (simp add: pr r_def)
    have ne: "n \<noteq> 0" "got \<noteq> []" using False by simp_all
    note ih = "1.IH" [OF ne(1) pr [symmetric] ne(2), folded r_def]
    have IH: "disk_file (snd r) = disk_file d"
      "\<forall>bs. fst r = Some bs \<longrightarrow> bs = get_bytes (off + length got) (n - length got) (disk_file d) \<and> length bs = n - length got"
      "progressing d \<longrightarrow> progressing (snd r)
        \<and> (off + n \<le> length (disk_file d) \<longrightarrow> fst r \<noteq> None)"
      using ih len progressing_next [of d] by simp_all
    have "length (get_bytes off n (disk_file d)) = length got
        + length (get_bytes (off + length got) (n - length got) (disk_file d))"
      by (simp only: length_append flip: split)
    then show ?thesis using IH split len False
      by (cases r; cases "fst r") (auto simp: eq)
  qed
qed

lemma read_at_fail_file [simp]: "disk_file (snd (read_at d n off)) = disk_file d"
  using read_at_spec [of d n off] by blast

lemma read_at_ok:
  assumes "progressing d" "off + n \<le> length (disk_file d)"
  obtains d' where "read_at d n off = (Some (get_bytes off n (disk_file d)), d')"
    "disk_file d' = disk_file d" "progressing d'"
proof -
  from read_at_spec [of d n off] assms obtain bs where "fst (read_at d n off) = Some bs" by auto
  with read_at_spec [of d n off] assms
  have "fst (read_at d n off) = Some (get_bytes off n (disk_file d))"
    "disk_file (snd (read_at d n off)) = disk_file d" "progressing (snd (read_at d n off))" by auto
  then show thesis by (intro that [of "snd (read_at d n off)"]) (auto simp: prod_eq_iff)
qed

lemma write_at_spec:
  "(\<exists>k. k \<le> length bs \<and> (fst (write_at d bs off) \<longleftrightarrow> k = length bs)
      \<and> disk_file (snd (write_at d bs off)) = put_bytes off (take k bs) (disk_file d))
   \<and> (progressing d \<longrightarrow> fst (write_at d bs off) \<and> progressing (snd (write_at d bs off)))"
proof (induction d bs off rule: write_at.induct)
  case (1 d bs off)
  define put where "put = call_limit d (length bs)"
  define d1 where "d1 = (next_call d)\<lparr>disk_file := put_bytes off (take put bs) (disk_file d)\<rparr>"
  have pw: "pwrite d bs off = (put, d1)" unfolding pwrite_def Let_def d1_def put_def by (rule refl)
  have len: "put \<le> length bs" by (simp add: put_def call_limit_le)
  show ?case
  proof (cases "bs = [] \<or> put = 0")
    case True
    have p: "bs = []" if "progressing d" "put = 0"
      using progressing_limit [OF that(1), of "length bs"] that(2) by (auto simp: put_def)
    have "write_at d bs off = (bs = [], if bs = [] then d else d1)"
      using True by (subst write_at.simps) (auto simp: pw)
    with True p show ?thesis by (intro conjI exI [of _ 0]) (auto simp: d1_def put_bytes_def)
  next
    case False
    define r where "r = write_at d1 (drop put bs) (off + put)"
    have eq: "write_at d bs off = r" using False by (subst write_at.simps) (simp add: pw r_def)
    obtain k where k: "k \<le> length bs - put" "fst r \<longleftrightarrow> k = length bs - put"
      "disk_file (snd r) = put_bytes (off + put) (take k (drop put bs)) (disk_file d1)"
      and prog: "progressing d1 \<longrightarrow> fst r \<and> progressing (snd r)"
      using "1.IH" [OF _ pw [symmetric]] False by (auto simp: r_def)
    have "length (take put bs) = put" using len by simp
    then have "disk_file (snd r) = put_bytes off (take put bs @ take k (drop put bs)) (disk_file d)"
      using k(3) put_put_append [of off "take put bs"] by (simp add: d1_def)
    then have "disk_file (snd r) = put_bytes off (take (put + k) bs) (disk_file d)"
      by (simp add: take_add)
    with k len prog show ?thesis unfolding eq
      by (intro conjI exI [of _ "put + k"]) (auto simp: d1_def progressing_next)
  qed
qed

lemma write_at_ok:
  assumes "progressing d"
  obtains d' where "write_at d bs off = (True, d')" "disk_file d' = put_bytes off bs (disk_file d)"
    "progressing d'"
proof -
  from write_at_spec [of bs d off] assms have "fst (write_at d bs off)"
    "disk_file (snd (write_at d bs off)) = put_bytes off bs (disk_file d)"
    "progressing (snd (write_at d bs off))" by auto
  then show thesis by (intro that [of "snd (write_at d bs off)"]) (auto simp: prod_eq_iff)
qed

lemma write_at_cases:
  obtains d' where "write_at d bs off = (True, d')" "disk_file d' = put_bytes off bs (disk_file d)"
  | d' k where "write_at d bs off = (False, d')" "k < length bs"
      "disk_file d' = put_bytes off (take k bs) (disk_file d)"
proof -
  obtain ok d' where w: "write_at d bs off = (ok, d')" by force
  from write_at_spec [of bs d off] obtain k where "k \<le> length bs" "ok \<longleftrightarrow> k = length bs"
    "disk_file d' = put_bytes off (take k bs) (disk_file d)" by (auto simp: w)
  with w show thesis using that(1) [of d'] that(2) [of d' k] by (cases ok) auto
qed

end
