(* ===== verification/Scanf.thy ===== *)
theory Scanf
  imports CString Floats
begin

text \<open>
  Reading text as the C library does: the conversions of \<open>scanf\<close> that the program uses, \<open>sscanf\<close>
  over a list of directives, and the lines of a file as \<open>fgets\<close> returns them. A number is
  accumulated in 64 bits, as \<open>unsigned long\<close> is on a 64-bit device. Converting a decimal fraction
  (\<open>%lf\<close>) is a parameter.
\<close>

section \<open>Conversions\<close>

text \<open>\<open>isspace\<close> in the C locale, which has the vertical tab as well.\<close>

definition is_cspace :: "char \<Rightarrow> bool" where
  "is_cspace c \<longleftrightarrow> is_space c \<or> ch_code c = 11"

text \<open>\<open>%<w>s\<close>: skip white space, then at most \<open>w\<close> characters up to the next white space.\<close>

definition scan_str :: "nat \<Rightarrow> string \<Rightarrow> (string \<times> string) option" where
  "scan_str w s = (let s1 = dropWhile is_cspace s;
       tok = takeWhile (\<lambda>c. \<not> is_cspace c) (take w s1) in
     if tok = [] then None else Some (tok, drop (length tok) s1))"

text \<open>\<open>%*d\<close>: skip white space, an optional sign and digits. The second result says whether it matched.\<close>

definition scan_int :: "string \<Rightarrow> string \<times> bool" where
  "scan_int s = (let s1 = dropWhile is_cspace s;
       s2 = (case s1 of c # cs \<Rightarrow> if c = CHR ''+'' \<or> c = CHR ''-'' then cs else s1 | [] \<Rightarrow> []);
       s3 = dropWhile is_digit s2 in (s3, s3 \<noteq> s2))"

lemma scan_str_shorter: "scan_str w s = Some (tok, s') \<Longrightarrow> length s' < length s"
proof -
  assume "scan_str w s = Some (tok, s')"
  then have "tok \<noteq> []" "tok = takeWhile (\<lambda>c. \<not> is_cspace c) (take w (dropWhile is_cspace s))"
    "s' = drop (length tok) (dropWhile is_cspace s)"
    by (auto simp: scan_str_def Let_def split: if_splits)
  moreover have "length (takeWhile (\<lambda>c. \<not> is_cspace c) (take w (dropWhile is_cspace s)))
      \<le> length (dropWhile is_cspace s)"
    by (metis length_take length_takeWhile_le min.cobounded1 min.coboundedI1 order_trans)
  moreover have "0 < length tok" using \<open>tok \<noteq> []\<close> by simp
  ultimately show ?thesis using length_dropWhile_le [of is_cspace s] by (metis diff_less_mono2 diff_less
        length_drop less_le_trans order_less_le_trans)
qed

lemma scan_int_shorter: "length (fst (scan_int s)) \<le> length s"
proof -
  define s1 where "s1 = dropWhile is_cspace s"
  define s2 where "s2 = (case s1 of c # cs \<Rightarrow> if c = CHR ''+'' \<or> c = CHR ''-'' then cs else s1 | [] \<Rightarrow> [])"
  have "length s2 \<le> length s1" by (auto simp: s2_def split: list.split)
  moreover have "length s1 \<le> length s" by (simp add: s1_def length_dropWhile_le)
  ultimately show ?thesis using length_dropWhile_le [of is_digit s2]
    by (simp add: scan_int_def Let_def flip: s1_def s2_def)
qed

text \<open>\<open>%u\<close> and \<open>%lu\<close>: white space, an optional sign and digits.\<close>

definition split_sign :: "string \<Rightarrow> string \<times> string" where
  "split_sign s = (case s of c # cs \<Rightarrow> if c = CHR ''+'' \<or> c = CHR ''-'' then ([c], cs) else ([], s) | [] \<Rightarrow> ([], []))"

definition scan_uns :: "string \<Rightarrow> (guint64 \<times> string) option" where
  "scan_uns s = (let (sign, t) = split_sign (dropWhile is_cspace s); digits = takeWhile is_digit t in
     if digits = [] then None else Some (strtoull10 (sign @ digits), dropWhile is_digit t))"

text \<open>\<open>%x\<close>, with an optional \<open>0x\<close>; the value saturates as the decimal one does.\<close>

definition hex_value :: "string \<Rightarrow> nat" where
  "hex_value s = foldl (\<lambda>n c. 16 * n + xdigit_value c) 0 s"

definition strip_0x :: "string \<Rightarrow> string" where
  "strip_0x s = (if has_prefix s ''0x'' \<or> has_prefix s ''0X'' then drop 2 s else s)"

definition signed_value :: "string \<Rightarrow> nat \<Rightarrow> guint64" where
  "signed_value sign n = (if 2 ^ 64 \<le> n then - 1 else if sign = ''-'' then - of_nat n else of_nat n)"

definition scan_hex :: "string \<Rightarrow> (guint64 \<times> string) option" where
  "scan_hex s = (let (sign, t) = split_sign (dropWhile is_cspace s); u = strip_0x t; digits = takeWhile is_xdigit u in
     if digits = [] then None else Some (signed_value sign (hex_value digits), dropWhile is_xdigit u))"

text \<open>
  \<open>g_ascii_strtoull (s, NULL, 16)\<close>; a \<open>0x\<close> that no digit follows is the number 0.
\<close>

definition strtoull16 :: "string \<Rightarrow> guint64" where
  "strtoull16 s = (let (sign, t) = split_sign (dropWhile is_space s) in
     signed_value sign (hex_value (takeWhile is_xdigit (strip_0x t))))"

section \<open>Formats\<close>

text \<open>
  White space in a format, an ordinary character, \<open>%<w>s\<close>, \<open>%*s\<close>, \<open>%u\<close> and \<open>%lu\<close>, \<open>%*u\<close>, \<open>%x\<close>,
  \<open>%lf\<close>. The result lists the values assigned until a directive fails, so its length is what the
  call returns (where the call returns \<open>EOF\<close> the list is empty).
\<close>

datatype directive = Ws | Lit char | StrW nat | SkipStr | Uns | SkipUns | Hex | Dbl

datatype sval = UVal guint64 | SVal string | DVal double

definition lits :: "string \<Rightarrow> directive list" where
  "lits s = map (\<lambda>c. if is_cspace c then Ws else Lit c) s"

type_synonym lf_scanner = "string \<Rightarrow> (double \<times> string) option"

primrec sscanf :: "lf_scanner \<Rightarrow> directive list \<Rightarrow> string \<Rightarrow> sval list" where
  "sscanf lf [] s = []"
| "sscanf lf (d # ds) s = (case d of
       Ws \<Rightarrow> sscanf lf ds (dropWhile is_cspace s)
     | Lit c \<Rightarrow> (case s of x # xs \<Rightarrow> if x = c then sscanf lf ds xs else [] | [] \<Rightarrow> [])
     | StrW w \<Rightarrow> (case scan_str w s of None \<Rightarrow> [] | Some (t, r) \<Rightarrow> SVal t # sscanf lf ds r)
     | SkipStr \<Rightarrow> (case scan_str (length s) s of None \<Rightarrow> [] | Some (t, r) \<Rightarrow> sscanf lf ds r)
     | Uns \<Rightarrow> (case scan_uns s of None \<Rightarrow> [] | Some (n, r) \<Rightarrow> UVal n # sscanf lf ds r)
     | SkipUns \<Rightarrow> (case scan_uns s of None \<Rightarrow> [] | Some (n, r) \<Rightarrow> sscanf lf ds r)
     | Hex \<Rightarrow> (case scan_hex s of None \<Rightarrow> [] | Some (n, r) \<Rightarrow> UVal n # sscanf lf ds r)
     | Dbl \<Rightarrow> (case lf s of None \<Rightarrow> [] | Some (v, r) \<Rightarrow> DVal v # sscanf lf ds r))"

text \<open>The value assigned to the variable in position \<open>i\<close>, which keeps its old value otherwise.\<close>

definition uval :: "sval list \<Rightarrow> nat \<Rightarrow> guint64 \<Rightarrow> guint64" where
  "uval vs i old = (if i < length vs then (case vs ! i of UVal n \<Rightarrow> n | _ \<Rightarrow> old) else old)"

definition dval :: "sval list \<Rightarrow> nat \<Rightarrow> double \<Rightarrow> double" where
  "dval vs i old = (if i < length vs then (case vs ! i of DVal v \<Rightarrow> v | _ \<Rightarrow> old) else old)"

definition strval :: "sval list \<Rightarrow> nat \<Rightarrow> string \<Rightarrow> string" where
  "strval vs i old = (if i < length vs then (case vs ! i of SVal s \<Rightarrow> s | _ \<Rightarrow> old) else old)"

section \<open>Lines\<close>

text \<open>\<open>fgets\<close> with a buffer of \<open>n\<close> bytes: through the next newline, at most \<open>n - 1\<close> characters.\<close>

definition fgets_chunk :: "nat \<Rightarrow> string \<Rightarrow> string" where
  "fgets_chunk n s = take (n - 1) (takeWhile (\<lambda>c. c \<noteq> CHR 0x0A) s
     @ take 1 (dropWhile (\<lambda>c. c \<noteq> CHR 0x0A) s))"

function fgets_lines :: "nat \<Rightarrow> string \<Rightarrow> string list" where
  "fgets_lines n s = (if s = [] \<or> n \<le> 1 then []
     else fgets_chunk n s # fgets_lines n (drop (length (fgets_chunk n s)) s))"
  by pat_completeness auto
termination
proof (relation "measure (\<lambda>(n, s). length s)")
  fix n :: nat and s :: string
  assume a: "\<not> (s = [] \<or> n \<le> 1)"
  then obtain c cs where "s = c # cs" by (cases s) auto
  with a have "fgets_chunk n s \<noteq> []" by (auto simp: fgets_chunk_def)
  with a show "((n, drop (length (fgets_chunk n s)) s), (n, s)) \<in> measure (\<lambda>(n, s). length s)" by simp
qed simp

declare fgets_lines.simps [simp del]

end
