(* ===== verification/Storage.thy ===== *)
theory Storage
  imports Scanf
begin

text \<open>
  Storage discovery of \<^verbatim>\<open>app/persist.c\<close>: \<open>find_storage\<close> reads \<^verbatim>\<open>/proc/mounts\<close> with \<open>fscanf\<close> and
  picks the largest real file system under \<^verbatim>\<open>/var/spool/storage\<close>. The text of the file is an
  argument, and so is \<open>statvfs\<close>: the number of blocks and their size, or \<open>None\<close> where the call
  fails.
\<close>

section \<open>Entries\<close>

record mount =
  mnt_device :: string
  mnt_point :: string
  mnt_fstype :: string
  mnt_options :: string

text \<open>One \<open>fscanf\<close>: the four fields and the rest of the file, \<open>None\<close> when it assigns fewer than four.\<close>

definition scan_mount :: "string \<Rightarrow> (mount \<times> string) option" where
  "scan_mount s = do {
     (device, s1) \<leftarrow> scan_str 127 s;
     (mountpoint, s2) \<leftarrow> scan_str 255 s1;
     (fstype, s3) \<leftarrow> scan_str 31 s2;
     (options, s4) \<leftarrow> scan_str 255 s3;
     let (s5, ok5) = scan_int s4;
     let (s6, ok6) = (if ok5 then scan_int s5 else (s5, False));
     Some (\<lparr>mnt_device = device, mnt_point = mountpoint, mnt_fstype = fstype, mnt_options = options\<rparr>,
           if ok6 then dropWhile is_cspace s6 else s6)
   }"

lemma scan_mount_shorter: "scan_mount s = Some (m, s') \<Longrightarrow> length s' < length s"
proof -
  assume "scan_mount s = Some (m, s')"
  then obtain d s1 p s2 f s3 opt s4 where
    scans: "scan_str 127 s = Some (d, s1)" "scan_str 255 s1 = Some (p, s2)"
      "scan_str 31 s2 = Some (f, s3)" "scan_str 255 s3 = Some (opt, s4)"
    and s': "s' = (let (s5, ok5) = scan_int s4; (s6, ok6) = (if ok5 then scan_int s5 else (s5, False))
        in if ok6 then dropWhile is_cspace s6 else s6)"
    by (auto simp: scan_mount_def Let_def split: bind_splits prod.splits)
  obtain s5 ok5 where s5: "scan_int s4 = (s5, ok5)" by force
  obtain s6 ok6 where s6: "scan_int s5 = (s6, ok6)" by force
  have "length s5 \<le> length s4" "length s6 \<le> length s5"
    using scan_int_shorter [of s4] scan_int_shorter [of s5] s5 s6 by simp_all
  then have "length s' \<le> length s4"
    using length_dropWhile_le [of is_cspace s6] by (auto simp: s' s5 s6)
  with scans [THEN scan_str_shorter] show ?thesis by linarith
qed

function mounts_entries :: "string \<Rightarrow> mount list" where
  "mounts_entries s = (case scan_mount s of None \<Rightarrow> [] | Some (m, s') \<Rightarrow> m # mounts_entries s')"
  by pat_completeness auto
termination by (relation "measure length") (auto dest: scan_mount_shorter)

declare mounts_entries.simps [simp del]

section \<open>Choosing a candidate\<close>

record candidate =
  cand_mountpoint :: string
  cand_total :: guint64
  cand_preferred :: bool

type_synonym statvfs = "string \<Rightarrow> (guint64 \<times> guint64) option"

definition fstype_is_volatile :: "string \<Rightarrow> bool" where
  "fstype_is_volatile fstype \<longleftrightarrow> fstype = ''tmpfs'' \<or> fstype = ''ramfs'' \<or> fstype = ''devtmpfs''
     \<or> fstype = ''vcrfs''"

definition is_area_root :: "string \<Rightarrow> bool" where
  "is_area_root mountpoint \<longleftrightarrow> has_prefix mountpoint ''/var/spool/storage/areas/''
     \<and> has_suffix mountpoint ''/root''"

definition consider_mount :: "statvfs \<Rightarrow> candidate \<Rightarrow> mount \<Rightarrow> candidate" where
  "consider_mount statvfs best m =
     (if fstype_is_volatile (mnt_fstype m) then best
      else if has_prefix (mnt_options m) ''ro,'' \<or> mnt_options m = ''ro'' then best
      else if has_prefix (mnt_point m) ''/var/volatile'' then best
      else if \<not> has_prefix (mnt_point m) ''/var/spool/storage/'' then best
      else case statvfs (mnt_point m) of
        None \<Rightarrow> best
      | Some (blocks, frsize) \<Rightarrow>
          if blocks = 0 then best
          else let size_b = blocks * frsize; preferred = is_area_root (mnt_point m) in
            if cand_total best < size_b \<or> size_b = cand_total best \<and> preferred \<and> \<not> cand_preferred best
            then \<lparr>cand_mountpoint = strlcpy 256 (mnt_point m), cand_total = size_b, cand_preferred = preferred\<rparr>
            else best)"

text \<open>\<open>None\<close> for the file is a failed \<open>fopen\<close>, \<open>None\<close> as a result the FALSE return.\<close>

definition find_storage :: "statvfs \<Rightarrow> string option \<Rightarrow> nat \<Rightarrow> string option" where
  "find_storage statvfs mounts out_len = (case mounts of None \<Rightarrow> None
     | Some text \<Rightarrow>
       let best = foldl (consider_mount statvfs)
             \<lparr>cand_mountpoint = [], cand_total = 0, cand_preferred = False\<rparr> (mounts_entries text) in
       if cand_total best = 0 then None else Some (strlcpy out_len (cand_mountpoint best)))"

section \<open>What is chosen\<close>

text \<open>The mounts that look like edge storage, and their size.\<close>

definition storage_total :: "statvfs \<Rightarrow> mount \<Rightarrow> guint64 option" where
  "storage_total statvfs m =
     (if fstype_is_volatile (mnt_fstype m) \<or> has_prefix (mnt_options m) ''ro,'' \<or> mnt_options m = ''ro''
         \<or> has_prefix (mnt_point m) ''/var/volatile'' \<or> \<not> has_prefix (mnt_point m) ''/var/spool/storage/''
      then None
      else case statvfs (mnt_point m) of None \<Rightarrow> None
        | Some (blocks, frsize) \<Rightarrow> if blocks = 0 then None else Some (blocks * frsize))"

definition best_of :: "statvfs \<Rightarrow> mount list \<Rightarrow> candidate \<Rightarrow> bool" where
  "best_of statvfs ms b \<longleftrightarrow>
     (cand_total b \<noteq> 0 \<longrightarrow> (\<exists>m \<in> set ms. storage_total statvfs m = Some (cand_total b)
         \<and> cand_mountpoint b = mnt_point m \<and> cand_preferred b = is_area_root (mnt_point m)))
     \<and> (\<forall>m \<in> set ms. \<forall>t. storage_total statvfs m = Some t \<longrightarrow> t \<le> cand_total b
         \<and> (t = cand_total b \<and> is_area_root (mnt_point m) \<longrightarrow> cand_preferred b))"

lemma consider_mount_alt: "consider_mount statvfs best m = (case storage_total statvfs m of None \<Rightarrow> best
    | Some size_b \<Rightarrow> if cand_total best < size_b
        \<or> size_b = cand_total best \<and> is_area_root (mnt_point m) \<and> \<not> cand_preferred best
      then \<lparr>cand_mountpoint = strlcpy 256 (mnt_point m), cand_total = size_b,
            cand_preferred = is_area_root (mnt_point m)\<rparr>
      else best)"
  by (auto simp: consider_mount_def storage_total_def Let_def split: option.split prod.split)

lemma best_of_step:
  assumes b: "best_of statvfs ms b" and short: "length (mnt_point m) < 256"
  shows "best_of statvfs (ms @ [m]) (consider_mount statvfs b m)"
proof (cases "storage_total statvfs m")
  case None
  with b show ?thesis by (simp add: best_of_def consider_mount_alt)
next
  case (Some size_b)
  define c where "c = consider_mount statvfs b m"
  show ?thesis
  proof (cases "cand_total b < size_b \<or> size_b = cand_total b \<and> is_area_root (mnt_point m) \<and> \<not> cand_preferred b")
    case True
    then have "c = \<lparr>cand_mountpoint = mnt_point m, cand_total = size_b, cand_preferred = is_area_root (mnt_point m)\<rparr>"
      using Some short by (simp add: c_def consider_mount_alt strlcpy_id)
    with True b Some show ?thesis unfolding c_def [symmetric] best_of_def by fastforce
  next
    case False
    then have "c = b" using Some by (auto simp: c_def consider_mount_alt)
    moreover have "size_b \<le> cand_total b" using False by (simp add: not_less)
    ultimately show ?thesis using False b Some unfolding c_def [symmetric] best_of_def by auto
  qed
qed

lemma best_of_foldl:
  assumes "\<forall>m \<in> set ms. length (mnt_point m) < 256"
  shows "best_of statvfs ms (foldl (consider_mount statvfs)
           \<lparr>cand_mountpoint = [], cand_total = 0, cand_preferred = False\<rparr> ms)"
  using assms
proof (induction ms rule: rev_induct)
  case Nil
  show ?case by (simp add: best_of_def)
next
  case (snoc m ms)
  then show ?case by (simp add: best_of_step)
qed

lemma scan_str_bound: "scan_str w s = Some (tok, s') \<Longrightarrow> length tok \<le> w"
proof -
  assume "scan_str w s = Some (tok, s')"
  then have "tok = takeWhile (\<lambda>c. \<not> is_cspace c) (take w (dropWhile is_cspace s))"
    by (auto simp: scan_str_def Let_def split: if_splits)
  then have "length tok \<le> length (take w (dropWhile is_cspace s))" by (simp only: length_takeWhile_le)
  then show ?thesis by simp
qed

lemma mounts_entries_short: "m \<in> set (mounts_entries s) \<Longrightarrow> length (mnt_point m) < 256"
proof (induction s rule: mounts_entries.induct)
  case (1 s)
  show ?case
  proof (cases "scan_mount s")
    case None
    with "1.prems" show ?thesis by (simp add: mounts_entries.simps [of s])
  next
    case (Some r)
    obtain m' s' where r: "r = (m', s')" by force
    from Some r obtain s1 p s2 where "scan_str 255 s1 = Some (p, s2)" "mnt_point m' = p"
      by (auto simp: scan_mount_def Let_def split: bind_splits prod.splits)
    then have "length (mnt_point m') \<le> 255" using scan_str_bound by blast
    with "1.prems" "1.IH" [OF Some r [symmetric]] Some r show ?thesis
      by (auto simp: mounts_entries.simps [of s])
  qed
qed

section \<open>Properties\<close>


definition sample_statvfs :: statvfs where
  "sample_statvfs p = (if p = ''/'' then Some (9999999, 4096) else Some (1000, 4096))"

definition sd_line :: string where
  "sd_line = ''/dev/sda1 /var/spool/storage/areas/SD_DISK/root ext4 rw,relatime 0 0
''"


text \<open>A mount whose options are longer than the 255 characters scanned hides the line after it:
  the rest of the options is read as the next entry, so an SD card listed there is not found,
  although it is found without that line.\<close>

theorem long_options_hide_storage:
  "find_storage sample_statvfs (Some (''overlay /etc overlay '' @ replicate 260 CHR ''o'' @ '' 0 0
'' @ sd_line)) 256 = None \<and> find_storage sample_statvfs (Some sd_line) 256 \<noteq> None"
proof
  define rest where "rest = ''ooooo 0 0
'' @ sd_line"
  have opts: "replicate 260 CHR ''o'' @ '' 0 0
'' @ sd_line = CHR ''o'' # replicate 254 CHR ''o'' @ rest"
    by (simp add: rest_def numeral_eq_Suc)
  have sp: "\<not> is_cspace CHR ''o''" by code_simp
  have fields: "scan_str 127 (''overlay /etc overlay '' @ x) = Some (''overlay'', '' /etc overlay '' @ x)"
    "scan_str 255 ('' /etc overlay '' @ x) = Some (''/etc'', '' overlay '' @ x)"
    "scan_str 31 ('' overlay '' @ x) = Some (''overlay'', '' '' @ x)" for x
    by (simp_all add: scan_str_def Let_def is_cspace_def is_space_def ch_code_def)
  have options: "scan_str 255 ('' '' @ CHR ''o'' # replicate 254 CHR ''o'' @ rest)
      = Some (CHR ''o'' # replicate 254 CHR ''o'', rest)"
    using sp by (simp add: scan_str_def Let_def is_cspace_def is_space_def ch_code_def takeWhile_append)
  have nums: "scan_int rest = (rest, False)"
    by (simp add: scan_int_def rest_def is_cspace_def is_space_def ch_code_def is_digit_def Let_def)
  define m where "m = \<lparr>mnt_device = ''overlay'', mnt_point = ''/etc'', mnt_fstype = ''overlay'', mnt_options = CHR ''o'' # replicate 254 CHR ''o''\<rparr>"
  have "scan_mount (''overlay /etc overlay '' @ CHR ''o'' # replicate 254 CHR ''o'' @ rest) = Some (m, rest)"
    unfolding scan_mount_def fields options
    by (simp only: fields options nums bind.bind_lunit prod.case Let_def m_def if_False)
  then have ents: "mounts_entries (''overlay /etc overlay '' @ CHR ''o'' # replicate 254 CHR ''o'' @ rest)
      = m # mounts_entries rest" by (subst mounts_entries.simps) simp
  have skip: "consider_mount sample_statvfs b m = b" for b
    by (simp add: consider_mount_def m_def fstype_is_volatile_def has_prefix_def)
  have "find_storage sample_statvfs (Some rest) 256 = None" unfolding rest_def by code_simp
  then show "find_storage sample_statvfs (Some (''overlay /etc overlay '' @ replicate 260 CHR ''o'' @ '' 0 0
'' @ sd_line)) 256 = None"
    unfolding opts by (simp add: find_storage_def ents skip del: append.simps)
  show "find_storage sample_statvfs (Some sd_line) 256 \<noteq> None" by code_simp
qed

end
