(* ===== verification/Persist.thy ===== *)
theory Persist
  imports Store FileIO Storage
begin

text \<open>
  \<^verbatim>\<open>app/persist.h\<close>, \<^verbatim>\<open>app/persist.c\<close>: one circular file per tier. A file is a header of 36 bytes
  at offset 0, the table of metric ids at offset 4096 (64 bytes each) and the ring of records
  (8 bytes of timestamp, 4 per metric). The device is a \<open>disk\<close> whose calls may be short or fail.
  Undefined behaviour is \<open>None\<close>. Logging is left out.
\<close>

section \<open>Model\<close>

definition PERSIST_MAGIC :: string where "PERSIST_MAGIC = ''AXMETRIC''"

definition PERSIST_VERSION :: guint where "PERSIST_VERSION = 1"

definition HEADER_BYTES :: nat where "HEADER_BYTES = 4096"

definition APP_SUBDIR :: string where "APP_SUBDIR = ''Metrics''"

definition HEADER_FLUSH_EVERY :: guint where "HEADER_FLUSH_EVERY = 60"

record persist_header =
  ph_magic :: "byte list"
  ph_version :: guint
  ph_n_metrics :: guint
  ph_capacity :: guint
  ph_interval_s :: guint
  ph_head :: guint
  ph_count :: guint
  ph_reserved :: guint

record persist =
  pr_fd :: int
  pr_path :: string
  pr_n_metrics :: guint
  pr_capacity :: guint
  pr_interval_s :: guint
  pr_head :: guint
  pr_count :: guint
  pr_records_offset :: nat
  pr_record_bytes :: nat
  pr_appends_since_header :: guint
  pr_owns_file :: bool

text \<open>Characters and their bytes.\<close>

definition byte_of :: "char \<Rightarrow> byte" where
  "byte_of c = of_nat (ch_code c)"

definition char_of_byte :: "byte \<Rightarrow> char" where
  "char_of_byte b = char_of (unat b)"

subsection \<open>Layout\<close>

definition id_table_bytes :: "guint \<Rightarrow> nat" where
  "id_table_bytes n_metrics = unat n_metrics * METRIC_ID_MAX"

definition sizeof_header :: nat where "sizeof_header = 36"

definition header_bytes :: "persist_header \<Rightarrow> byte list" where
  "header_bytes h = ph_magic h @ u32_bytes (ph_version h) @ u32_bytes (ph_n_metrics h)
     @ u32_bytes (ph_capacity h) @ u32_bytes (ph_interval_s h) @ u32_bytes (ph_head h)
     @ u32_bytes (ph_count h) @ u32_bytes (ph_reserved h)"

definition header_of :: "byte list \<Rightarrow> persist_header" where
  "header_of bs = \<lparr>ph_magic = take 8 bs, ph_version = u32_of (drop 8 bs), ph_n_metrics = u32_of (drop 12 bs),
     ph_capacity = u32_of (drop 16 bs), ph_interval_s = u32_of (drop 20 bs), ph_head = u32_of (drop 24 bs),
     ph_count = u32_of (drop 28 bs), ph_reserved = u32_of (drop 32 bs)\<rparr>"

text \<open>A record: the timestamp and the floats, as they are in memory.\<close>

definition record_bytes :: "gint64 \<Rightarrow> gfloat list \<Rightarrow> byte list" where
  "record_bytes ts values = i64_bytes ts @ concat (map u32_bytes values)"

definition record_values :: "nat \<Rightarrow> byte list \<Rightarrow> gfloat list" where
  "record_values n raw = map (\<lambda>m. u32_of (drop (8 + 4 * m) raw)) [0..<n]"

definition write_header :: "persist \<Rightarrow> disk \<Rightarrow> persist \<times> disk" where
  "write_header p d = (let header =
       \<lparr>ph_magic = map byte_of PERSIST_MAGIC, ph_version = PERSIST_VERSION, ph_n_metrics = pr_n_metrics p,
        ph_capacity = pr_capacity p, ph_interval_s = pr_interval_s p, ph_head = pr_head p,
        ph_count = pr_count p, ph_reserved = 0\<rparr>;
       (_, d') = write_at d (header_bytes header) 0
     in (p\<lparr>pr_appends_since_header := 0\<rparr>, d'))"

subsection \<open>Opening and closing\<close>

text \<open>
  \<open>mkdir_ok\<close> is the result of \<open>g_mkdir_with_parents\<close>, \<open>fd\<close> that of \<open>open\<close>; \<open>absence_logged\<close>
  is the static flag.
\<close>

definition persist_open ::
  "statvfs \<Rightarrow> string option \<Rightarrow> (string \<Rightarrow> bool) \<Rightarrow> (string \<Rightarrow> int) \<Rightarrow> metric_registry \<Rightarrow> store_tier \<Rightarrow> string
     \<Rightarrow> bool \<Rightarrow> persist option \<times> bool" where
  "persist_open statvfs mounts mkdir_ok fd_of registry tier filename absence_logged =
     (case find_storage statvfs mounts 256 of
        None \<Rightarrow> (None, True)
      | Some base \<Rightarrow>
          let directory = strlcpy 512 (base @ ''/'' @ APP_SUBDIR) in
          if \<not> mkdir_ok directory then (None, absence_logged)
          else let path = strlcpy 512 (directory @ ''/'' @ filename) in
            if fd_of path < 0 then (None, absence_logged)
            else (Some \<lparr>pr_fd = fd_of path, pr_path = path, pr_n_metrics = reg_count registry,
                   pr_capacity = tier_capacity tier, pr_interval_s = tier_interval_s tier,
                   pr_head = 0, pr_count = 0,
                   pr_records_offset = HEADER_BYTES + id_table_bytes (reg_count registry),
                   pr_record_bytes = 8 + unat (reg_count registry) * 4,
                   pr_appends_since_header = 0, pr_owns_file = False\<rparr>, absence_logged))"

definition persist_close :: "persist option \<Rightarrow> disk \<Rightarrow> disk" where
  "persist_close persist d = (case persist of None \<Rightarrow> d
     | Some p \<Rightarrow> if 0 \<le> pr_fd p \<and> pr_owns_file p then snd (write_header p d) else d)"

definition persist_path :: "persist option \<Rightarrow> string option" where
  "persist_path persist = map_option pr_path persist"

subsection \<open>Appending\<close>

definition persist_append :: "persist option \<Rightarrow> disk \<Rightarrow> gfloat list \<Rightarrow> gint64 \<Rightarrow> (persist option \<times> disk) option" where
  "persist_append persist d values timestamp = (case persist of None \<Rightarrow> Some (None, d)
     | Some p \<Rightarrow>
       if pr_fd p < 0 then Some (Some p, d)
       else do {
         floats \<leftarrow> mem_get 0 (unat (pr_n_metrics p)) values;
         let (ok, d1) = write_at d (record_bytes timestamp floats)
                          (pr_records_offset p + unat (pr_head p) * pr_record_bytes p);
         if \<not> ok then Some (Some p, d1)
         else do {
           h \<leftarrow> guint_mod (pr_head p + 1) (pr_capacity p);
           let p1 = p\<lparr>pr_head := h,
             pr_count := (if pr_count p < pr_capacity p then pr_count p + 1 else pr_count p),
             pr_appends_since_header := pr_appends_since_header p + 1\<rparr>;
           Some (if HEADER_FLUSH_EVERY \<le> pr_appends_since_header p1
                 then (case write_header p1 d1 of (p2, d2) \<Rightarrow> (Some p2, d2))
                 else (Some p1, d1))
         }
       })"

subsection \<open>Loading\<close>

text \<open>
  \<open>id_table\<close> lays out the ids of the registry; the id of entry \<open>i\<close> of a saved table is the C
  string that starts at byte \<open>64 * i\<close>.
\<close>

definition id_slot :: "string \<Rightarrow> byte list" where
  "id_slot key = (let s = map byte_of (strlcpy METRIC_ID_MAX key) in s @ replicate (METRIC_ID_MAX - length s) 0)"

definition id_table :: "metric_registry \<Rightarrow> byte list" where
  "id_table registry = concat (map id_slot (reg_ids registry))"

definition saved_id :: "byte list \<Rightarrow> nat \<Rightarrow> string" where
  "saved_id table i = cstr (map char_of_byte (drop (i * METRIC_ID_MAX) table))"

text \<open>\<open>sized\<close> is whether \<open>ftruncate\<close> succeeds.\<close>

definition set_file_size :: "nat \<Rightarrow> byte list \<Rightarrow> byte list" where
  "set_file_size n f = take n f @ replicate (n - length f) 0"

definition initialise_file :: "persist \<Rightarrow> metric_registry \<Rightarrow> bool \<Rightarrow> disk \<Rightarrow> persist \<times> disk" where
  "initialise_file p registry sized d = (let
       p1 = p\<lparr>pr_head := 0, pr_count := 0, pr_owns_file := True\<rparr>;
       (_, d1) = write_at d (id_table registry) HEADER_BYTES;
       (p2, d2) = write_header p1 d1
     in (p2, if sized then d2\<lparr>disk_file := set_file_size
               (pr_records_offset p2 + unat (pr_capacity p2) * pr_record_bytes p2) (disk_file d2)\<rparr> else d2))"

text \<open>The saved values moved to the positions of their ids in the current registry.\<close>

fun remap_values :: "int list \<Rightarrow> gfloat list \<Rightarrow> gfloat list \<Rightarrow> gfloat list option" where
  "remap_values [] saved values = Some values"
| "remap_values (k # ks) [] values = None"
| "remap_values (k # ks) (v # saved) values = (if 0 \<le> k
     then do { values' \<leftarrow> arr_set (nat k) v values; remap_values ks saved values' }
     else remap_values ks saved values)"

text \<open>The loop of \<open>persist_load\<close> over the indices \<open>is\<close>, with the number of samples restored so far.\<close>

fun load_loop :: "persist_header \<Rightarrow> int list \<Rightarrow> guint \<Rightarrow> nat list \<Rightarrow> disk \<Rightarrow> store \<Rightarrow> nat \<Rightarrow> guint
    \<Rightarrow> (guint \<times> store \<times> disk) option" where
  "load_loop header mapping start [] d s tier_index restored = Some (restored, s, d)"
| "load_loop header mapping start (i # is) d s tier_index restored = do {
     slot \<leftarrow> guint_mod (start + of_nat i) (ph_capacity header);
     let n = unat (ph_n_metrics header);
     let offset = HEADER_BYTES + id_table_bytes (ph_n_metrics header) + unat slot * (8 + n * 4);
     case read_at d (8 + n * 4) offset of
       (None, d') \<Rightarrow> Some (restored, s, d')
     | (Some raw, d') \<Rightarrow>
         if i64_of raw \<le> 0 then load_loop header mapping start is d' s tier_index restored
         else do {
           values \<leftarrow> remap_values mapping (record_values n raw) (replicate (unat (st_n_metrics s)) f32_nan);
           s' \<leftarrow> store_restore s tier_index values (i64_of raw);
           load_loop header mapping start is d' s' tier_index (restored + 1)
         }
   }"

definition persist_load :: "persist option \<Rightarrow> disk \<Rightarrow> store \<Rightarrow> nat \<Rightarrow> (guint \<times> store \<times> disk) option" where
  "persist_load persist d s tier_index = (case persist of None \<Rightarrow> Some (0, s, d)
     | Some p \<Rightarrow>
       (case read_at d sizeof_header 0 of
         (None, d1) \<Rightarrow> Some (0, s, d1)
       | (Some raw, d1) \<Rightarrow>
         let header = header_of raw in
         if ph_magic header \<noteq> map byte_of PERSIST_MAGIC \<or> ph_version header \<noteq> PERSIST_VERSION
         then Some (0, s, d1)
         else if ph_interval_s header \<noteq> pr_interval_s p \<or> ph_n_metrics header = 0
             \<or> 100000 < ph_n_metrics header \<or> ph_capacity header = 0
         then Some (0, s, d1)
         else (case read_at d1 (id_table_bytes (ph_n_metrics header)) HEADER_BYTES of
           (None, d2) \<Rightarrow> Some (0, s, d2)
         | (Some saved_ids, d2) \<Rightarrow>
           let mapping = map (\<lambda>i. metrics_find (st_registry s) (saved_id saved_ids i))
                           [0..<unat (ph_n_metrics header)];
               count = min (ph_count header) (ph_capacity header) in do {
             start \<leftarrow> guint_mod (ph_head header + ph_capacity header - count) (ph_capacity header);
             load_loop header mapping start [0..<unat count] d2 s tier_index 0
           })))"

text \<open>\<open>fuel\<close> bounds the samples replayed; the count of the tier plus one is enough.\<close>

fun sync_loop :: "nat \<Rightarrow> store \<Rightarrow> nat \<Rightarrow> guint \<Rightarrow> persist option \<Rightarrow> disk \<Rightarrow> (persist option \<times> disk) option" where
  "sync_loop 0 s tier_index i p d = None"
| "sync_loop (Suc fuel) s tier_index i p d = do {
     sample \<leftarrow> store_tier_sample s tier_index i;
     case sample of None \<Rightarrow> Some (p, d)
     | Some (values, timestamp) \<Rightarrow> do {
         (p', d') \<leftarrow> persist_append p d values timestamp;
         sync_loop fuel s tier_index (i + 1) p' d'
       }
   }"

definition persist_sync :: "persist option \<Rightarrow> bool \<Rightarrow> disk \<Rightarrow> store \<Rightarrow> nat \<Rightarrow> (persist option \<times> disk) option" where
  "persist_sync persist sized d s tier_index = (case persist of None \<Rightarrow> Some (None, d)
     | Some p \<Rightarrow>
       let (p1, d1) = initialise_file p (st_registry s) sized d in
       sync_loop (unat (store_tier_count s tier_index) + 1) s tier_index 0 (Some p1) d1)"

end
