(* ===== verification/PersistLog.thy ===== *)
theory PersistLog
  imports Persist
begin

text \<open>
  The history file as a bounded log of samples: the ring of records refines appending to a list
  cut to its last \<open>capacity\<close> entries, through the same interface as the tiers in memory, and
  what a later load gets back.
\<close>

section \<open>Records\<close>

lemma drop_concat_blocks:
  assumes "\<forall>x \<in> set xs. length x = k" "i \<le> length xs"
  shows "drop (i * k) (concat xs) = concat (drop i xs)"
  using assms
proof (induction i arbitrary: xs)
  case (Suc i)
  then obtain x ys where "xs = x # ys" by (cases xs) auto
  with Suc show ?case by simp
qed simp

lemma length_concat_blocks: "\<forall>x \<in> set xs. length x = k \<Longrightarrow> length (concat xs) = length xs * k"
  by (induction xs) auto

lemma length_record_bytes [simp]: "length (record_bytes ts vs) = 8 + 4 * length vs"
  using length_concat_blocks [of "map u32_bytes vs" 4] by (simp add: record_bytes_def)

lemma record_values_bytes:
  assumes "length vs = n"
  shows "record_values n (record_bytes ts vs) = vs"
proof (rule nth_equalityI)
  fix m assume "m < length (record_values n (record_bytes ts vs))"
  then have m: "m < n" by (simp add: record_values_def)
  have "drop (8 + 4 * m) (record_bytes ts vs) = drop (m * 4) (concat (map u32_bytes vs))"
    by (simp add: record_bytes_def mult.commute)
  also have "\<dots> = concat (drop m (map u32_bytes vs))"
    using m assms by (intro drop_concat_blocks) auto
  also have "\<dots> = u32_bytes (vs ! m) @ concat (map u32_bytes (drop (Suc m) vs))"
    using m assms by (simp add: drop_map flip: Cons_nth_drop_Suc)
  finally show "record_values n (record_bytes ts vs) ! m = vs ! m" using m by (simp add: record_values_def)
qed (use assms in \<open>simp add: record_values_def\<close>)

definition row_of :: "nat \<Rightarrow> byte list \<Rightarrow> gint64 \<times> gfloat list" where
  "row_of n raw = (i64_of raw, record_values n raw)"

lemma row_of_record: "in_gint64 ts \<Longrightarrow> length vs = n \<Longrightarrow> row_of n (record_bytes ts vs) = (ts, vs)"
  using i64_of_bytes [of ts "concat (map u32_bytes vs)"]
  by (simp add: row_of_def record_values_bytes) (simp add: record_bytes_def)

section \<open>The ring of records\<close>

definition records_at :: "nat \<Rightarrow> nat" where
  "records_at n = HEADER_BYTES + n * METRIC_ID_MAX"

definition file_row :: "nat \<Rightarrow> byte list \<Rightarrow> nat \<Rightarrow> gint64 \<times> gfloat list" where
  "file_row n f s = row_of n (get_bytes (records_at n + s * (8 + n * 4)) (8 + n * 4) f)"

definition file_inv :: "nat \<Rightarrow> persist \<times> disk \<Rightarrow> bool" where
  [inv_defs]: "file_inv n pd \<longleftrightarrow> (let p = fst pd; d = snd pd in
     0 \<le> pr_fd p \<and> unat (pr_n_metrics p) = n \<and> 0 < unat (pr_capacity p) \<and> unat (pr_capacity p) < 2 ^ 31
     \<and> unat (pr_head p) < unat (pr_capacity p) \<and> unat (pr_count p) \<le> unat (pr_capacity p)
     \<and> pr_records_offset p = records_at n \<and> pr_record_bytes p = 8 + n * 4
     \<and> records_at n + unat (pr_capacity p) * (8 + n * 4) \<le> length (disk_file d)
     \<and> progressing d)"

definition file_rows :: "nat \<Rightarrow> persist \<times> disk \<Rightarrow> (gint64 \<times> gfloat list) list" where
  "file_rows n pd = ring_list (unat (pr_capacity (fst pd))) (unat (pr_head (fst pd))) (unat (pr_count (fst pd)))
     (file_row n (disk_file (snd pd)))"

definition file_cap :: "persist \<times> disk \<Rightarrow> nat" where
  "file_cap pd = unat (pr_capacity (fst pd))"

lemma length_header_bytes: "length (ph_magic h) = 8 \<Longrightarrow> length (header_bytes h) = 36"
  by (simp add: header_bytes_def)

lemma header_of_bytes:
  assumes "length (ph_magic h) = 8"
  shows "header_of (header_bytes h) = h"
proof -
  have d: "drop 8 (header_bytes h) = u32_bytes (ph_version h) @ drop 12 (header_bytes h)"
    "drop 12 (header_bytes h) = u32_bytes (ph_n_metrics h) @ drop 16 (header_bytes h)"
    "drop 16 (header_bytes h) = u32_bytes (ph_capacity h) @ drop 20 (header_bytes h)"
    "drop 20 (header_bytes h) = u32_bytes (ph_interval_s h) @ drop 24 (header_bytes h)"
    "drop 24 (header_bytes h) = u32_bytes (ph_head h) @ drop 28 (header_bytes h)"
    "drop 28 (header_bytes h) = u32_bytes (ph_count h) @ drop 32 (header_bytes h)"
    "drop 32 (header_bytes h) = u32_bytes (ph_reserved h) @ []"
    "take 8 (header_bytes h) = ph_magic h"
    using assms by (simp_all add: header_bytes_def)
  show ?thesis unfolding header_of_def d(8) by (subst d(1-7), simp only: u32_of_bytes)+ simp
qed

definition saved_header :: "persist \<Rightarrow> persist_header" where
  "saved_header p = \<lparr>ph_magic = map byte_of PERSIST_MAGIC, ph_version = PERSIST_VERSION,
     ph_n_metrics = pr_n_metrics p, ph_capacity = pr_capacity p, ph_interval_s = pr_interval_s p,
     ph_head = pr_head p, ph_count = pr_count p, ph_reserved = 0\<rparr>"

definition file_header :: "byte list \<Rightarrow> persist_header" where
  "file_header f = header_of (get_bytes 0 sizeof_header f)"

definition file_table :: "nat \<Rightarrow> byte list \<Rightarrow> byte list" where
  "file_table n f = get_bytes HEADER_BYTES (n * METRIC_ID_MAX) f"

lemma length_saved_header [simp]: "length (header_bytes (saved_header p)) = 36"
  by (rule length_header_bytes) (simp add: saved_header_def PERSIST_MAGIC_def)

lemma write_header_ok:
  assumes "progressing d"
  obtains d' where "write_header p d = (p\<lparr>pr_appends_since_header := 0\<rparr>, d')" "progressing d'"
    "disk_file d' = put_bytes 0 (header_bytes (saved_header p)) (disk_file d)"
proof -
  obtain d' where "write_at d (header_bytes (saved_header p)) 0 = (True, d')" "progressing d'"
    "disk_file d' = put_bytes 0 (header_bytes (saved_header p)) (disk_file d)"
    using write_at_ok [OF assms] by metis
  then show thesis using that [of d'] by (simp add: write_header_def saved_header_def)
qed

text \<open>Writing the header leaves the id table and the records alone.\<close>

lemma header_put:
  assumes "records_at n + k \<le> length f"
  shows "file_header (put_bytes 0 (header_bytes (saved_header p)) f) = saved_header p"
    "file_table n (put_bytes 0 (header_bytes (saved_header p)) f) = file_table n f"
    "s < c \<Longrightarrow> c * (8 + n * 4) \<le> k \<Longrightarrow>
       file_row n (put_bytes 0 (header_bytes (saved_header p)) f) s = file_row n f s"
    "length (put_bytes 0 (header_bytes (saved_header p)) f) = length f"
proof -
  let ?f = "put_bytes 0 (header_bytes (saved_header p)) f"
  have "get_bytes 0 sizeof_header ?f = header_bytes (saved_header p)"
    using get_put_same [of 0 "header_bytes (saved_header p)" f] by (simp add: sizeof_header_def)
  then show "file_header ?f = saved_header p"
    by (simp add: file_header_def header_of_bytes saved_header_def PERSIST_MAGIC_def)
  show "file_table n ?f = file_table n f"
    using assms unfolding file_table_def
    by (intro get_put_other) (simp_all add: records_at_def HEADER_BYTES_def)
  show "file_row n ?f s = file_row n f s" if s: "s < c" "c * (8 + n * 4) \<le> k"
  proof -
    have "s * (8 + n * 4) + (8 + n * 4) \<le> c * (8 + n * 4)" using s(1) by (rule row_offset)
    then have "records_at n + s * (8 + n * 4) + (8 + n * 4) \<le> length f" using assms s(2) by linarith
    then show ?thesis unfolding file_row_def
      by (subst get_put_other) (simp_all add: records_at_def HEADER_BYTES_def)
  qed
  show "length ?f = length f"
    using assms by (intro put_bytes_inside) (simp add: records_at_def HEADER_BYTES_def)
qed

text \<open>Writing a record changes its slot only.\<close>

lemma record_put:
  fixes n :: nat
  assumes "h < c" "records_at n + c * (8 + n * 4) \<le> length f" "length r = 8 + n * 4"
  defines "f' \<equiv> put_bytes (records_at n + h * (8 + n * 4)) r f"
  shows "s < c \<Longrightarrow> file_row n f' s = (if s = h then row_of n r else file_row n f s)"
    "length f' = length f" "file_header f' = file_header f" "file_table n f' = file_table n f"
proof -
  have off: "h * (8 + n * 4) + (8 + n * 4) \<le> c * (8 + n * 4)" using assms(1) by (rule row_offset)
  have b: "records_at n + h * (8 + n * 4) + (8 + n * 4) \<le> length f" using off assms(2) by linarith
  show "length f' = length f" unfolding f'_def using b assms(3) by (intro put_bytes_inside) simp
  show "file_header f' = file_header f" unfolding f'_def file_header_def
    using b by (subst get_put_other) (simp_all add: records_at_def HEADER_BYTES_def sizeof_header_def)
  show "file_table n f' = file_table n f" unfolding f'_def file_table_def
    using b by (subst get_put_other) (simp_all add: records_at_def)
  show "file_row n f' s = (if s = h then row_of n r else file_row n f s)" if s: "s < c"
  proof (cases "s = h")
    case True
    then show ?thesis
      using get_put_same [of "records_at n + h * (8 + n * 4)" r f] assms(3)
      by (simp add: file_row_def f'_def)
  next
    case False
    have "s * (8 + n * 4) + (8 + n * 4) \<le> c * (8 + n * 4)" using s by (rule row_offset)
    then have sb: "records_at n + s * (8 + n * 4) + (8 + n * 4) \<le> length f" using assms(2) by linarith
    have "s * (8 + n * 4) + (8 + n * 4) \<le> h * (8 + n * 4) \<or> h * (8 + n * 4) + (8 + n * 4) \<le> s * (8 + n * 4)"
      using False row_offset [of s h "8 + n * 4"] row_offset [of h s "8 + n * 4"] by linarith
    with sb False assms(3) show ?thesis unfolding file_row_def f'_def
      by (subst get_put_other) auto
  qed
qed

text \<open>One append: the log grows by the sample, the header on disk is left or brought up to date.\<close>

lemma persist_append_ok:
  assumes inv: "file_inv n (p, d)" and len: "n \<le> length values" and ts: "in_gint64 ts"
  obtains p' d' where "persist_append (Some p) d values ts = Some (Some p', d')" "file_inv n (p', d')"
    "pr_capacity p' = pr_capacity p" "pr_interval_s p' = pr_interval_s p" "pr_owns_file p' = pr_owns_file p"
    "pr_n_metrics p' = pr_n_metrics p"
    "file_rows n (p', d') = lastn (file_cap (p, d)) (file_rows n (p, d) @ [(ts, take n values)])"
    "file_table n (disk_file d') = file_table n (disk_file d)"
    "unat (pr_head p') = (unat (pr_head p) + 1) mod unat (pr_capacity p)"
    "\<forall>s < unat (pr_capacity p). file_row n (disk_file d') s =
       (if s = unat (pr_head p) then (ts, take n values) else file_row n (disk_file d) s)"
    "if HEADER_FLUSH_EVERY \<le> pr_appends_since_header p + 1
     then pr_appends_since_header p' = 0 \<and> file_header (disk_file d') = saved_header p'
     else pr_appends_since_header p' = pr_appends_since_header p + 1
       \<and> file_header (disk_file d') = file_header (disk_file d)"
proof -
  let ?c = "unat (pr_capacity p)" and ?h = "unat (pr_head p)" and ?k = "unat (pr_count p)"
  define r where "r = record_bytes ts (take n values)"
  have b: "0 \<le> pr_fd p" "unat (pr_n_metrics p) = n" "?c < 2 ^ 31" "?h < ?c" "?k \<le> ?c"
    "pr_records_offset p = records_at n" "pr_record_bytes p = 8 + n * 4"
    "records_at n + ?c * (8 + n * 4) \<le> length (disk_file d)" "progressing d"
    using inv by (simp_all add: file_inv_def)
  have lr: "length r = 8 + n * 4" using len by (simp add: r_def)
  obtain d1 where d1: "write_at d r (records_at n + ?h * (8 + n * 4)) = (True, d1)" "progressing d1"
    "disk_file d1 = put_bytes (records_at n + ?h * (8 + n * 4)) r (disk_file d)"
    using write_at_ok [OF b(9)] by metis
  note put = record_put [OF b(4,8) lr, folded d1(3)]
  define p1 where "p1 = p\<lparr>pr_head := (pr_head p + 1) mod pr_capacity p,
    pr_count := (if pr_count p < pr_capacity p then pr_count p + 1 else pr_count p),
    pr_appends_since_header := pr_appends_since_header p + 1\<rparr>"
  have hd: "unat (pr_head p1) = (?h + 1) mod ?c"
    using unat_Suc_small [of "pr_head p"] b by (simp add: p1_def unat_mod)
  have cnt: "unat (pr_count p1) = (if ?k < ?c then ?k + 1 else ?k)"
    using unat_Suc_small [of "pr_count p"] b by (simp add: p1_def word_less_nat_alt)
  have eq: "persist_append (Some p) d values ts = Some (if HEADER_FLUSH_EVERY \<le> pr_appends_since_header p + 1
      then (case write_header p1 d1 of (p2, d2) \<Rightarrow> (Some p2, d2)) else (Some p1, d1))"
    using b len d1(1) by (simp add: persist_append_def arr_simps Let_def p1_def flip: r_def)
  have inv1: "file_inv n (p1, d1)"
    using inv hd cnt put(2) d1(2) by (simp add: file_inv_def Let_def) (simp add: p1_def)
  have "file_rows n (p1, d1) = ring_list ?c ((?h + 1) mod ?c) (if ?k < ?c then ?k + 1 else ?k)
      (file_row n (disk_file d1))"
    using hd cnt by (simp add: file_rows_def) (simp add: p1_def)
  also have "\<dots> = ring_list ?c ((?h + 1) mod ?c) (if ?k < ?c then ?k + 1 else ?k)
      ((file_row n (disk_file d))(?h := (ts, take n values)))"
    using b(4) put(1) len ts by (intro ring_list_cong) (auto simp: r_def row_of_record)
  also have "\<dots> = lastn (file_cap (p, d)) (file_rows n (p, d) @ [(ts, take n values)])"
    unfolding file_rows_def file_cap_def fst_conv snd_conv by (rule ring_list_push [OF b(4,5)])
  finally have rows1: "file_rows n (p1, d1) = lastn (file_cap (p, d)) (file_rows n (p, d) @ [(ts, take n values)])" .
  have slots: "\<forall>s < ?c. file_row n (disk_file d1) s =
      (if s = ?h then (ts, take n values) else file_row n (disk_file d) s)"
    using put(1) len ts by (simp add: r_def row_of_record)
  show thesis
  proof (cases "HEADER_FLUSH_EVERY \<le> pr_appends_since_header p + 1")
    case False
    with eq have "persist_append (Some p) d values ts = Some (Some p1, d1)" by simp
    then show thesis
      by (rule that [OF _ inv1 _ _ _ _ rows1 _ hd slots]) (use False put(3,4) in \<open>simp_all add: p1_def\<close>)
  next
    case True
    obtain d2 where d2: "write_header p1 d1 = (p1\<lparr>pr_appends_since_header := 0\<rparr>, d2)" "progressing d2"
      "disk_file d2 = put_bytes 0 (header_bytes (saved_header p1)) (disk_file d1)"
      by (rule write_header_ok [OF d1(2)])
    define p2 where "p2 = p1\<lparr>pr_appends_since_header := 0\<rparr>"
    have "records_at n + ?c * (8 + n * 4) \<le> length (disk_file d1)" using b(8) put(2) by simp
    note hp = header_put [OF this, where p = p1, folded d2(3)]
    have "persist_append (Some p) d values ts = Some (Some p2, d2)"
      using True eq d2(1) by (simp add: p2_def)
    moreover have "file_inv n (p2, d2)"
      using inv1 d2(2) hp(4) by (simp add: file_inv_def Let_def p2_def)
    moreover have "file_rows n (p2, d2) = file_rows n (p1, d1)"
    proof -
      have "0 < ?c" using b(4) by simp
      then have "ring_list ?c h k (file_row n (disk_file d2)) = ring_list ?c h k (file_row n (disk_file d1))" for h k
        using hp(3) [of _ ?c] by (intro ring_list_cong) auto
      then show ?thesis by (simp add: file_rows_def p2_def p1_def)
    qed
    moreover have "unat (pr_head p2) = (?h + 1) mod ?c" using hd by (simp add: p2_def)
    moreover have "\<forall>s < ?c. file_row n (disk_file d2) s =
        (if s = ?h then (ts, take n values) else file_row n (disk_file d) s)"
      using slots hp(3) [of _ ?c] by simp
    ultimately show thesis
      by (intro that [of p2 d2]) (use True rows1 put(4) hp(1,2) in \<open>simp_all add: p2_def p1_def saved_header_def\<close>)
  qed
qed

definition file_push :: "gint64 \<times> gfloat list \<Rightarrow> persist \<times> disk \<Rightarrow> (persist \<times> disk) option" where
  "file_push x pd = (case persist_append (Some (fst pd)) (snd pd) (snd x) (fst x) of
     Some (Some p', d') \<Rightarrow> Some (p', d') | _ \<Rightarrow> None)"

text \<open>A history file is a bounded log of samples, as a tier in memory is.\<close>

interpretation history: bounded_log "file_rows n" file_cap "file_inv n"
  "\<lambda>x. length (snd x) = n \<and> in_gint64 (fst x)" file_push for n
proof unfold_locales
  show "length (file_rows n pd) \<le> file_cap pd" if "file_inv n pd" for pd
    using that by (cases pd) (simp add: file_inv_def file_rows_def file_cap_def)
next
  fix pd and x :: "gint64 \<times> gfloat list"
  assume inv: "file_inv n pd" and ok: "length (snd x) = n \<and> in_gint64 (fst x)"
  obtain p d where pd: "pd = (p, d)" by force
  have "n \<le> length (snd x)" using ok by simp
  obtain p' d' where "persist_append (Some p) d (snd x) (fst x) = Some (Some p', d')" "file_inv n (p', d')"
    "pr_capacity p' = pr_capacity p"
    "file_rows n (p', d') = lastn (file_cap (p, d)) (file_rows n (p, d) @ [(fst x, take n (snd x))])"
    using persist_append_ok [OF inv [unfolded pd] \<open>n \<le> length (snd x)\<close> conjunct2 [OF ok]] by metis
  with ok show "\<exists>s'. file_push x pd = Some s' \<and> file_inv n s' \<and> file_cap s' = file_cap pd
      \<and> file_rows n s' = lastn (file_cap pd) (file_rows n pd @ [x])"
    by (intro exI [of _ "(p', d')"]) (simp add: file_push_def pd file_cap_def)
qed

end
