(* ===== verification/PersistLoad.thy ===== *)
theory PersistLoad
  imports PersistLog
begin

text \<open>
  Loading a history file: safe on any contents, and what it restores from the files this program
  writes, after a clean close and after a crash between two header writes.
\<close>

section \<open>Remapping\<close>

text \<open>The last saved column with a metric's position is the one that counts.\<close>

definition column :: "'k list \<Rightarrow> gfloat list \<Rightarrow> 'k \<Rightarrow> gfloat" where
  "column keys saved k = (case map_of (rev (zip keys saved)) k of None \<Rightarrow> f32_nan | Some v \<Rightarrow> v)"

lemma remap_values_map_of:
  assumes "length saved = length ks" "\<forall>k \<in> set ks. k < int (length vals)"
  shows "remap_values ks saved vals = Some (map (\<lambda>m. case map_of (rev (zip ks saved)) (int m) of
     None \<Rightarrow> vals ! m | Some v \<Rightarrow> v) [0..<length vals])"
  using assms
proof (induction ks saved vals rule: remap_values.induct)
  case (1 saved vals)
  then show ?case by (simp add: map_nth)
next
  case (2 k ks vals)
  then show ?case by simp
next
  case (3 k ks v saved vals)
  show ?case
  proof (cases "0 \<le> k")
    case True
    have "nat k < length vals" using 3(4) True by auto
    with True 3 show ?thesis
      by (auto simp: arr_simps map_add_def nth_list_update split: option.split)
  next
    case False
    with 3 show ?thesis by (auto simp: map_add_def split: option.split)
  qed
qed

lemma map_of_rev_zip_map:
  assumes "\<forall>k \<in> set keys. f k = y \<longleftrightarrow> k = x" "length keys = length saved"
  shows "map_of (rev (zip (map f keys) saved)) y = map_of (rev (zip keys saved)) x"
  using assms(2,1)
  by (induction keys saved rule: list_induct2) (auto simp: map_add_def split: option.split)

text \<open>A column of a loaded sample is found by the id of its metric.\<close>

lemma column_by_id:
  assumes inv: "reg_inv r" and dist: "distinct (reg_ids r)" and m: "m < length (reg_ids r)"
    and len: "length keys = length saved"
  shows "column (map (metrics_find r) keys) saved (int m) = column keys saved (reg_ids r ! m)"
proof -
  have "metrics_find r k = int m \<longleftrightarrow> k = reg_ids r ! m" for k
    using registry.find_distinct [OF inv dist m] registry.find_hit [OF inv, of k] registry.find_miss [OF inv, of k]
      by (cases "k \<in> set (reg_ids r)") auto
  then have "map_of (rev (zip (map (metrics_find r) keys) saved)) (int m) = map_of (rev (zip keys saved)) (reg_ids r ! m)"
    by (intro map_of_rev_zip_map len) auto
  then show ?thesis by (simp add: column_def)
qed

lemma find_less_count:
  assumes "reg_inv r" "reg_count r = n"
  shows "metrics_find r k < int (unat n)"
proof -
  have "int (unat n) = int (length (reg_ids r))" using length_reg_ids [OF assms(1)] assms(2) by simp
  moreover have "metrics_find r k < int (length (reg_ids r))"
    using registry.find_hit [OF assms(1), of k] registry.find_miss [OF assms(1), of k]
    by (cases "k \<in> set (reg_ids r)") auto
  ultimately show ?thesis by simp
qed

section \<open>Safety\<close>

definition same_store :: "store \<Rightarrow> store \<Rightarrow> bool" where
  "same_store s s' \<longleftrightarrow> st_registry s' = st_registry s \<and> st_n_metrics s' = st_n_metrics s"

lemma load_loop_safe:
  assumes "store_inv s" "i < STORE_TIERS" "length mapping = unat (ph_n_metrics header)"
    "\<forall>k \<in> set mapping. k < int (unat (st_n_metrics s))" "0 < unat (ph_capacity header)"
  shows "\<exists>restored' s' d'. load_loop header mapping start is d s i restored = Some (restored', s', d')
    \<and> store_inv s' \<and> same_store s s' \<and> disk_file d' = disk_file d"
  using assms
proof (induction "is" arbitrary: d s restored)
  case Nil
  then show ?case by (simp add: same_store_def)
next
  case (Cons j "is")
  define n where "n = unat (ph_n_metrics header)"
  define offset where "offset = HEADER_BYTES + id_table_bytes (ph_n_metrics header)
    + unat ((start + of_nat j) mod ph_capacity header) * (8 + n * 4)"
  obtain raw d' where r: "read_at d (8 + n * 4) offset = (raw, d')" by force
  have same: "disk_file d' = disk_file d" using read_at_fail_file [of d "8 + n * 4" offset] r by simp
  show ?case
  proof (cases raw)
    case None
    with r Cons.prems same show ?thesis
      by (simp add: arr_simps Let_def same_store_def flip: n_def offset_def)
  next
    case (Some bs)
    show ?thesis
    proof (cases "i64_of bs \<le> 0")
      case True
      with r Some Cons.prems same Cons.IH [of s d' restored] show ?thesis
        by (simp add: arr_simps Let_def flip: n_def offset_def)
    next
      case False
      define vals where "vals = map (\<lambda>m. case map_of (rev (zip mapping (record_values n bs))) (int m) of
          None \<Rightarrow> replicate (unat (st_n_metrics s)) f32_nan ! m | Some v \<Rightarrow> v) [0..<unat (st_n_metrics s)]"
      have v: "remap_values mapping (record_values n bs) (replicate (unat (st_n_metrics s)) f32_nan) = Some vals"
        using remap_values_map_of [of "record_values n bs" mapping "replicate (unat (st_n_metrics s)) f32_nan"] Cons.prems(3,4)
        by (simp add: vals_def record_values_def n_def)
      have "unat (st_n_metrics s) \<le> length vals" by (simp add: vals_def)
      then obtain s1 where s1: "store_restore s i vals (i64_of bs) = Some s1" "store_inv s1"
        "st_n_metrics s1 = st_n_metrics s" "st_registry s1 = st_registry s"
        using store_restore_ok [OF Cons.prems(1,2)] by metis
      with r Some False v Cons.prems same Cons.IH [of s1 d' "restored + 1"] show ?thesis
        by (simp add: arr_simps Let_def same_store_def flip: n_def offset_def)
    qed
  qed
qed

lemma persist_load_safe:
  assumes s: "store_inv s" and i: "i < STORE_TIERS"
    and reg: "reg_inv (st_registry s)" "reg_count (st_registry s) = st_n_metrics s"
  shows "\<exists>restored s' d'. persist_load persist d s i = Some (restored, s', d')
    \<and> store_inv s' \<and> same_store s s' \<and> disk_file d' = disk_file d"
proof (cases persist)
  case None
  with s show ?thesis by (simp add: persist_load_def same_store_def)
next
  case (Some p)
  obtain raw d1 where r1: "read_at d sizeof_header 0 = (raw, d1)" by force
  have f1: "disk_file d1 = disk_file d" using read_at_fail_file [of d sizeof_header 0] r1 by simp
  note triv = s f1 same_store_def
  show ?thesis
  proof (cases raw)
    case None
    with Some r1 triv show ?thesis by (simp add: persist_load_def)
  next
    case raw: (Some bs)
    define h where "h = header_of bs"
    show ?thesis
    proof (cases "ph_magic h \<noteq> map byte_of PERSIST_MAGIC \<or> ph_version h \<noteq> PERSIST_VERSION
        \<or> ph_interval_s h \<noteq> pr_interval_s p \<or> ph_n_metrics h = 0 \<or> 100000 < ph_n_metrics h \<or> ph_capacity h = 0")
      case True
      with Some raw r1 triv show ?thesis by (auto simp: persist_load_def Let_def simp flip: h_def)
    next
      case False
      obtain tab d2 where r2: "read_at d1 (id_table_bytes (ph_n_metrics h)) HEADER_BYTES = (tab, d2)" by force
      have f2: "disk_file d2 = disk_file d"
        using read_at_fail_file [of d1 "id_table_bytes (ph_n_metrics h)" HEADER_BYTES] r2 f1 by simp
      show ?thesis
      proof (cases tab)
        case None
        with False Some raw r1 r2 f2 s show ?thesis
          by (auto simp: persist_load_def Let_def same_store_def simp flip: h_def)
      next
        case tab: (Some saved_ids)
        define mapping where "mapping = map (\<lambda>i. metrics_find (st_registry s) (saved_id saved_ids i))
            [0..<unat (ph_n_metrics h)]"
        define count where "count = min (ph_count h) (ph_capacity h)"
        have cap: "0 < unat (ph_capacity h)" using False by (metis gr0I unsigned_0 unat_inject)
        note find_less_count [OF reg]
        then have map: "\<forall>k \<in> set mapping. k < int (unat (st_n_metrics s))" "length mapping = unat (ph_n_metrics h)"
          by (auto simp: mapping_def)
        have "persist_load persist d s i = load_loop h mapping
            ((ph_head h + ph_capacity h - count) mod ph_capacity h) [0..<unat count] d2 s i 0"
          using False Some raw tab r1 r2 cap
          by (simp add: persist_load_def Let_def arr_simps flip: h_def mapping_def count_def)
        with load_loop_safe [OF s i map(2,1) cap] f2 show ?thesis by metis
      qed
    qed
  qed
qed

section \<open>What is restored\<close>

text \<open>The samples of a file as its header describes them, and a sample in the current columns.\<close>

definition saved_rows :: "byte list \<Rightarrow> (gint64 \<times> gfloat list) list" where
  "saved_rows f = (let h = file_header f in
     ring_list (unat (ph_capacity h)) (unat (ph_head h)) (min (unat (ph_count h)) (unat (ph_capacity h)))
       (file_row (unat (ph_n_metrics h)) f))"

definition saved_ids :: "byte list \<Rightarrow> string list" where
  "saved_ids f = (let n = unat (ph_n_metrics (file_header f)) in map (saved_id (file_table n f)) [0..<n])"

definition remapped :: "metric_registry \<Rightarrow> string list \<Rightarrow> gint64 \<times> gfloat list \<Rightarrow> gint64 \<times> gfloat list" where
  "remapped r keys x = (fst x, map (column keys (snd x)) (reg_ids r))"

text \<open>A complete file of this program's format for the interval of the tier.\<close>

definition file_ok :: "guint \<Rightarrow> byte list \<Rightarrow> bool" where
  "file_ok interval f \<longleftrightarrow> (let h = file_header f; n = unat (ph_n_metrics h) in
     ph_magic h = map byte_of PERSIST_MAGIC \<and> ph_version h = PERSIST_VERSION \<and> ph_interval_s h = interval
     \<and> 0 < n \<and> n \<le> 100000 \<and> 0 < unat (ph_capacity h) \<and> unat (ph_capacity h) < 2 ^ 31
     \<and> unat (ph_head h) < unat (ph_capacity h)
     \<and> records_at n + unat (ph_capacity h) * (8 + n * 4) \<le> length f)"

lemma load_loop_restores:
  assumes "store_inv s" "i < STORE_TIERS" "progressing d"
    "n = unat (ph_n_metrics header)" "c = unat (ph_capacity header)" "c < 2 ^ 31"
    "records_at n + c * (8 + n * 4) \<le> length (disk_file d)"
    "unat start < c" "\<forall>j \<in> set is. j < c"
    "mapping = map (metrics_find (st_registry s)) keys" "length keys = n"
    "reg_inv (st_registry s)" "distinct (reg_ids (st_registry s))" "reg_count (st_registry s) = st_n_metrics s"
    "rows = map (\<lambda>j. file_row n (disk_file d) ((unat start + j) mod c)) is"
  shows "\<exists>restored' s' d'. load_loop header mapping start is d s i restored = Some (restored', s', d')
    \<and> store_rows s' i = lastn (tier_cap (st_tiers s ! i)) (store_rows s i
         @ map (remapped (st_registry s) keys) (filter (\<lambda>r. 0 < fst r) rows))
    \<and> (\<forall>j. j \<noteq> i \<longrightarrow> st_tiers s' ! j = st_tiers s ! j)
    \<and> tier_cap (st_tiers s' ! i) = tier_cap (st_tiers s ! i) \<and> store_inv s' \<and> same_store s s'"
  using assms
proof (induction "is" arbitrary: d s restored rows)
  case Nil
  have "length (store_rows s i) \<le> tier_cap (st_tiers s ! i)"
    by (rule tier.log_bound [OF store_inv_tier [OF Nil.prems(1,2)]])
  with Nil show ?case by (simp add: same_store_def)
next
  case (Cons j "is")
  note n = Cons.prems(4) and c = Cons.prems(5)
  define slot where "slot = unat ((start + of_nat j) mod ph_capacity header)"
  have jc: "j < c" using Cons.prems(9) by simp
  have "unat (start + of_nat j) = unat start + j"
    using jc Cons.prems(6,8) by (subst unat_add_small) (simp_all add: unat_of_nat take_bit_nat_def)
  then have slot: "slot = (unat start + j) mod c" by (simp add: slot_def c unat_mod)
  have sc: "slot < c" using jc by (simp add: slot)
  have "slot * (8 + n * 4) + (8 + n * 4) \<le> c * (8 + n * 4)" using sc by (rule row_offset)
  then have inside: "records_at n + slot * (8 + n * 4) + (8 + n * 4) \<le> length (disk_file d)"
    using Cons.prems(7) by linarith
  define bs where "bs = get_bytes (records_at n + slot * (8 + n * 4)) (8 + n * 4) (disk_file d)"
  obtain d' where r: "read_at d (8 + n * 4) (records_at n + slot * (8 + n * 4)) = (Some bs, d')"
    "disk_file d' = disk_file d" "progressing d'"
    unfolding bs_def by (rule read_at_ok [OF Cons.prems(3) inside])
  have row: "file_row n (disk_file d) slot = (i64_of bs, record_values n bs)"
    by (simp add: file_row_def bs_def row_of_def)
  have off: "HEADER_BYTES + id_table_bytes (ph_n_metrics header)
      + unat ((start + of_nat j) mod ph_capacity header) * (8 + n * 4)
      = records_at n + slot * (8 + n * 4)"
    by (simp add: records_at_def id_table_bytes_def slot_def n)
  have cap: "0 < unat (ph_capacity header)" using jc c by simp
  have step: "load_loop header mapping start (j # is) d s i restored =
      (if i64_of bs \<le> 0 then load_loop header mapping start is d' s i restored
       else do {
         values \<leftarrow> remap_values mapping (record_values n bs) (replicate (unat (st_n_metrics s)) f32_nan);
         s' \<leftarrow> store_restore s i values (i64_of bs);
         load_loop header mapping start is d' s' i (restored + 1)
       })"
    using cap r(1) by (simp add: arr_simps Let_def off flip: n)
  define rest where "rest = map (\<lambda>j. file_row n (disk_file d) ((unat start + j) mod c)) is"
  have rows: "rows = (i64_of bs, record_values n bs) # rest"
    using Cons.prems(15) row slot by (simp add: rest_def)
  have idx: "\<forall>j \<in> set is. j < c" using Cons.prems(9) by simp
  have len: "records_at n + c * (8 + n * 4) \<le> length (disk_file d')" using Cons.prems(7) r(2) by simp
  show ?case
  proof (cases "i64_of bs \<le> 0")
    case True
    from Cons.IH [OF Cons.prems(1,2) r(3) n c Cons.prems(6) len Cons.prems(8) idx Cons.prems(10-14), of rest restored]
    show ?thesis using True by (simp add: step rows rest_def r(2) del: load_loop.simps)
  next
    case False
    define vals where "vals = map (\<lambda>m. column mapping (record_values n bs) (int m)) [0..<unat (st_n_metrics s)]"
    note find_bound = find_less_count [OF Cons.prems(12,14)]
    have "remap_values mapping (record_values n bs) (replicate (unat (st_n_metrics s)) f32_nan) =
        Some (map (\<lambda>m. case map_of (rev (zip mapping (record_values n bs))) (int m) of
          None \<Rightarrow> replicate (unat (st_n_metrics s)) f32_nan ! m | Some v \<Rightarrow> v) [0..<unat (st_n_metrics s)])"
      using remap_values_map_of [of "record_values n bs" mapping "replicate (unat (st_n_metrics s)) f32_nan"]
        Cons.prems(10,11) find_bound by (simp add: record_values_def)
    also have "\<dots> = Some vals" by (auto simp: vals_def column_def split: option.split)
    finally have v: "remap_values mapping (record_values n bs) (replicate (unat (st_n_metrics s)) f32_nan) = Some vals" .
    have nr: "length (reg_ids (st_registry s)) = unat (st_n_metrics s)"
      using length_reg_ids [OF Cons.prems(12)] Cons.prems(14) by simp
    have vals: "vals = map (column keys (record_values n bs)) (reg_ids (st_registry s))"
      using Cons.prems(10,11) column_by_id [OF Cons.prems(12,13)] nr
      by (intro nth_equalityI) (simp_all add: vals_def record_values_def)
    have "unat (st_n_metrics s) \<le> length vals" by (simp add: vals_def)
    then obtain s1 where s1: "store_restore s i vals (i64_of bs) = Some s1" "store_inv s1"
      "st_n_metrics s1 = st_n_metrics s" "st_registry s1 = st_registry s"
      "store_rows s1 i = lastn (tier_cap (st_tiers s ! i))
         (store_rows s i @ [(i64_of bs, take (unat (st_n_metrics s)) vals)])"
      "tier_cap (st_tiers s1 ! i) = tier_cap (st_tiers s ! i)"
      "\<forall>j. j \<noteq> i \<longrightarrow> st_tiers s1 ! j = st_tiers s ! j"
      by (rule store_restore_ok [OF Cons.prems(1,2)])
    have tk: "take (unat (st_n_metrics s)) vals = vals" by (simp add: vals_def)
    have rem: "remapped (st_registry s) keys (i64_of bs, record_values n bs) = (i64_of bs, vals)"
      by (simp add: remapped_def vals)
    from Cons.IH [OF s1(2) Cons.prems(2) r(3) n c Cons.prems(6) len Cons.prems(8) idx, of rest "restored + 1"]
    obtain restored' s' d'' where "load_loop header mapping start is d' s1 i (restored + 1) = Some (restored', s', d'')"
      "store_rows s' i = lastn (tier_cap (st_tiers s1 ! i)) (store_rows s1 i
         @ map (remapped (st_registry s) keys) (filter (\<lambda>r. 0 < fst r) rest))"
      "\<forall>j. j \<noteq> i \<longrightarrow> st_tiers s' ! j = st_tiers s1 ! j"
      "tier_cap (st_tiers s' ! i) = tier_cap (st_tiers s1 ! i)" "store_inv s'" "same_store s1 s'"
      using Cons.prems(10-14) s1(3,4) by (auto simp: rest_def r(2))
    with s1 False v show ?thesis
      by (auto simp: step rows rem tk lastn_append_lastn same_store_def simp del: load_loop.simps)
  qed
qed

text \<open>A complete file is restored: its samples, by id, go at the end of the tier.\<close>

lemma persist_load_ok:
  assumes f: "file_ok (pr_interval_s p) (disk_file d)" "progressing d"
    and s: "store_inv s" "i < STORE_TIERS"
    and reg: "reg_inv (st_registry s)" "distinct (reg_ids (st_registry s))" "reg_count (st_registry s) = st_n_metrics s"
  obtains restored s' d' where "persist_load (Some p) d s i = Some (restored, s', d')"
    "store_rows s' i = lastn (tier_cap (st_tiers s ! i)) (store_rows s i
       @ map (remapped (st_registry s) (saved_ids (disk_file d)))
           (filter (\<lambda>r. 0 < fst r) (saved_rows (disk_file d))))"
    "\<forall>j. j \<noteq> i \<longrightarrow> st_tiers s' ! j = st_tiers s ! j" "store_inv s'" "same_store s s'"
proof -
  define h where "h = file_header (disk_file d)"
  define n where "n = unat (ph_n_metrics h)"
  define c where "c = unat (ph_capacity h)"
  define k where "k = min (unat (ph_count h)) c"
  have ok: "ph_magic h = map byte_of PERSIST_MAGIC" "ph_version h = PERSIST_VERSION"
    "ph_interval_s h = pr_interval_s p" "0 < n" "n \<le> 100000" "0 < c" "c < 2 ^ 31" "unat (ph_head h) < c"
    "records_at n + c * (8 + n * 4) \<le> length (disk_file d)"
    using f(1) by (simp_all add: file_ok_def Let_def h_def n_def c_def)
  have words: "ph_n_metrics h \<noteq> 0" "\<not> 100000 < ph_n_metrics h" "ph_capacity h \<noteq> 0"
    using ok(4-6) by (auto simp: n_def c_def word_less_nat_alt)
  obtain d1 where d1: "read_at d sizeof_header 0 = (Some (get_bytes 0 sizeof_header (disk_file d)), d1)"
    "disk_file d1 = disk_file d" "progressing d1"
  proof -
    have "0 + sizeof_header \<le> length (disk_file d)"
      using ok(9) by (simp add: sizeof_header_def records_at_def HEADER_BYTES_def)
    then show thesis using read_at_ok [OF f(2)] that by metis
  qed
  obtain d2 where d2: "read_at d1 (id_table_bytes (ph_n_metrics h)) HEADER_BYTES
      = (Some (file_table n (disk_file d)), d2)" "disk_file d2 = disk_file d" "progressing d2"
  proof -
    have "HEADER_BYTES + id_table_bytes (ph_n_metrics h) \<le> length (disk_file d1)"
      using ok(9) d1(2) by (simp add: records_at_def id_table_bytes_def n_def)
    from read_at_ok [OF d1(3) this] obtain d2 where
      "read_at d1 (id_table_bytes (ph_n_metrics h)) HEADER_BYTES
        = (Some (get_bytes HEADER_BYTES (id_table_bytes (ph_n_metrics h)) (disk_file d1)), d2)"
      "disk_file d2 = disk_file d1" "progressing d2" by metis
    then show thesis using d1(2) that by (simp add: file_table_def id_table_bytes_def n_def)
  qed
  define keys where "keys = saved_ids (disk_file d)"
  define mapping where "mapping = map (metrics_find (st_registry s)) keys"
  define start where "start = (ph_head h + ph_capacity h - min (ph_count h) (ph_capacity h)) mod ph_capacity h"
  have keys: "map (\<lambda>i. metrics_find (st_registry s) (saved_id (file_table n (disk_file d)) i)) [0..<n] = mapping"
    "length keys = n"
    by (simp_all add: mapping_def keys_def saved_ids_def Let_def n_def h_def)
  have count: "unat (min (ph_count h) (ph_capacity h)) = k"
    by (simp add: k_def c_def min_def word_le_nat_alt)
  have "unat (ph_head h + ph_capacity h) = unat (ph_head h) + c"
    using ok(7,8) by (subst unat_add_small) (simp_all add: c_def)
  then have "unat (ph_head h + ph_capacity h - min (ph_count h) (ph_capacity h)) = unat (ph_head h) + c - k"
    using count by (subst unat_sub_small) (simp_all add: k_def)
  then have start: "unat start = ring_start c (unat (ph_head h)) k"
    by (simp add: start_def ring_start_def unat_mod c_def)
  then have startc: "unat start < c" using ok(6) by (simp add: ring_start_def)
  have load: "persist_load (Some p) d s i = load_loop h mapping start [0..<k] d2 s i 0"
    using ok(1-3) words d1 d2(1) keys(1) count ok(6)
    by (simp add: persist_load_def Let_def arr_simps start_def c_def n_def flip: file_header_def h_def)
  have rows: "saved_rows (disk_file d) = map (\<lambda>j. file_row n (disk_file d2) ((unat start + j) mod c)) [0..<k]"
    by (simp add: saved_rows_def ring_list_def Let_def d2(2) start k_def flip: h_def n_def c_def)
  have "records_at n + c * (8 + n * 4) \<le> length (disk_file d2)" using ok(9) d2(2) by simp
  from load_loop_restores [OF s d2(3) n_def c_def ok(7) this startc _ mapping_def keys(2) reg rows, of 0]
  obtain restored' s' d' where "load_loop h mapping start [0..<k] d2 s i 0 = Some (restored', s', d')"
    "store_rows s' i = lastn (tier_cap (st_tiers s ! i)) (store_rows s i
       @ map (remapped (st_registry s) keys) (filter (\<lambda>r. 0 < fst r) (saved_rows (disk_file d))))"
    "\<forall>j. j \<noteq> i \<longrightarrow> st_tiers s' ! j = st_tiers s ! j" "store_inv s'" "same_store s s'"
    by (auto simp: k_def)
  then show thesis using that load by (simp add: keys_def)
qed

end
