(* ===== verification/PersistSync.thy ===== *)
theory PersistSync
  imports PersistLoad
begin

text \<open>
  A whole life of a history file: laid out and filled from a tier by \<open>persist_sync\<close>, appended
  to, closed and loaded by the next run, or left behind by a crash.
\<close>

section \<open>The id table\<close>

definition ids_ok :: "metric_registry \<Rightarrow> bool" where
  "ids_ok r \<longleftrightarrow> (\<forall>k \<in> set (reg_ids r). length k < METRIC_ID_MAX \<and> nul \<notin> set k)"

lemma char_of_byte_of [simp]: "char_of_byte (byte_of c) = c"
  by (simp add: char_of_byte_def byte_of_def unat_of_nat take_bit_nat_def)

lemma char_of_byte_0 [simp]: "char_of_byte 0 = nul"
  by (simp add: char_of_byte_def nul_def)

lemma length_id_slot [simp]: "length (id_slot key) = METRIC_ID_MAX"
  using length_strlcpy [of METRIC_ID_MAX key] by (simp add: id_slot_def Let_def METRIC_ID_MAX_def)

lemma length_id_table: "reg_inv r \<Longrightarrow> length (id_table r) = unat (reg_count r) * METRIC_ID_MAX"
  using length_concat_blocks [of "map id_slot (reg_ids r)" METRIC_ID_MAX]
  by (simp add: id_table_def length_reg_ids)

lemma saved_id_table:
  assumes "ids_ok r" "i < length (reg_ids r)"
  shows "saved_id (id_table r) i = reg_ids r ! i"
proof -
  define key where "key = reg_ids r ! i"
  have key: "length key < METRIC_ID_MAX" "nul \<notin> set key" using assms by (auto simp: ids_ok_def key_def)
  have "drop (i * METRIC_ID_MAX) (id_table r) = concat (drop i (map id_slot (reg_ids r)))"
    unfolding id_table_def using assms(2) by (intro drop_concat_blocks) auto
  also have "\<dots> = id_slot key @ concat (map id_slot (drop (Suc i) (reg_ids r)))"
    using assms(2) by (simp add: drop_map key_def flip: Cons_nth_drop_Suc)
  finally have "map char_of_byte (drop (i * METRIC_ID_MAX) (id_table r))
      = key @ replicate (METRIC_ID_MAX - length key) nul
          @ map char_of_byte (concat (map id_slot (drop (Suc i) (reg_ids r))))"
    using key by (simp add: id_slot_def Let_def strlcpy_id comp_def)
  moreover have "replicate (METRIC_ID_MAX - length key) nul = nul # replicate (METRIC_ID_MAX - length key - 1) nul"
    using key(1) by (simp flip: replicate_Suc)
  moreover have "takeWhile (\<lambda>c. c \<noteq> nul) (key @ nul # rest) = key" for rest
    using key(2) by (subst takeWhile_append2) auto
  ultimately show ?thesis by (simp add: saved_id_def cstr_def flip: key_def)
qed

section \<open>Laying out the file\<close>

definition opened_for :: "metric_registry \<Rightarrow> store_tier \<Rightarrow> persist \<Rightarrow> bool" where
  "opened_for r t p \<longleftrightarrow> 0 \<le> pr_fd p \<and> pr_n_metrics p = reg_count r \<and> pr_capacity p = tier_capacity t
     \<and> pr_interval_s p = tier_interval_s t \<and> pr_records_offset p = records_at (unat (reg_count r))
     \<and> pr_record_bytes p = 8 + unat (reg_count r) * 4 \<and> \<not> pr_owns_file p"

lemma persist_open_fields:
  "persist_open statvfs mounts mkdir_ok fd_of r t name logged = (Some p, logged') \<Longrightarrow> opened_for r t p"
  by (auto simp: persist_open_def opened_for_def records_at_def id_table_bytes_def Let_def
      split: option.splits if_splits)

text \<open>What a file keeps while it is written: its table, its dimensions, and a header that is
  up to date when no append has been made since it was written.\<close>

definition synced :: "metric_registry \<Rightarrow> guint \<Rightarrow> guint \<Rightarrow> persist \<times> disk \<Rightarrow> bool" where
  "synced r cap interval pd \<longleftrightarrow> file_inv (unat (reg_count r)) pd \<and> pr_owns_file (fst pd)
     \<and> pr_capacity (fst pd) = cap \<and> pr_interval_s (fst pd) = interval
     \<and> file_table (unat (reg_count r)) (disk_file (snd pd)) = id_table r
     \<and> unat (pr_appends_since_header (fst pd)) < 60
     \<and> (pr_appends_since_header (fst pd) = 0 \<longrightarrow> file_header (disk_file (snd pd)) = saved_header (fst pd))"

lemma get_set_file_size:
  "off + k \<le> N \<Longrightarrow> off + k \<le> length f \<Longrightarrow> get_bytes off k (set_file_size N f) = get_bytes off k f"
  unfolding get_bytes_def set_file_size_def by (simp add: drop_take min_def)

lemma initialise_file_ok:
  assumes op: "opened_for r t p" and inv: "reg_inv r" and "progressing d"
    and cap: "0 < unat (tier_capacity t)" "unat (tier_capacity t) < 2 ^ 31"
  obtains p1 d1 where "initialise_file p r True d = (p1, d1)"
    "synced r (tier_capacity t) (tier_interval_s t) (p1, d1)" "file_rows (unat (reg_count r)) (p1, d1) = []"
    "pr_appends_since_header p1 = 0"
proof -
  define n where "n = unat (reg_count r)"
  define p0 where "p0 = p\<lparr>pr_head := 0, pr_count := 0, pr_owns_file := True\<rparr>"
  define p1 where "p1 = p0\<lparr>pr_appends_since_header := 0\<rparr>"
  note op = op [unfolded opened_for_def, folded n_def]
  define N where "N = records_at n + unat (tier_capacity t) * (8 + n * 4)"
  obtain d1 where d1: "write_at d (id_table r) HEADER_BYTES = (True, d1)" "progressing d1"
    "disk_file d1 = put_bytes HEADER_BYTES (id_table r) (disk_file d)"
    using write_at_ok [OF assms(3)] by metis
  obtain d2 where d2: "write_header p0 d1 = (p1, d2)" "progressing d2"
    "disk_file d2 = put_bytes 0 (header_bytes (saved_header p0)) (disk_file d1)"
    unfolding p1_def by (rule write_header_ok [OF d1(2)])
  define d3 where "d3 = d2\<lparr>disk_file := set_file_size N (disk_file d2)\<rparr>"
  have eq: "initialise_file p r True d = (p1, d3)"
    using d1(1) d2(1) op
    by (simp add: initialise_file_def Let_def d3_def N_def p1_def p0_def)
  have lt: "length (id_table r) = n * METRIC_ID_MAX" using length_id_table [OF inv] by (simp add: n_def)
  have tab: "get_bytes HEADER_BYTES (n * METRIC_ID_MAX) (disk_file d1) = id_table r"
    using get_put_same [of HEADER_BYTES "id_table r" "disk_file d"] d1(3) lt by simp
  have l1: "n \<noteq> 0 \<Longrightarrow> records_at n \<le> length (disk_file d1)"
    using lt by (auto simp: d1(3) length_put_bytes records_at_def METRIC_ID_MAX_def)
  have l2: "length (disk_file d1) \<le> length (disk_file d2)" "36 \<le> length (disk_file d2)"
    using length_saved_header [of p0] by (auto simp: d2(3) length_put_bytes simp del: length_saved_header)
  have N: "records_at n \<le> N" "HEADER_BYTES + n * METRIC_ID_MAX \<le> N" "0 + sizeof_header \<le> N"
    by (simp_all add: N_def records_at_def sizeof_header_def HEADER_BYTES_def)
  have hdr: "file_header (disk_file d3) = saved_header p0"
  proof -
    have "get_bytes 0 sizeof_header (disk_file d3) = get_bytes 0 sizeof_header (disk_file d2)"
      using N(3) l2(2) by (simp add: d3_def) (intro get_set_file_size, auto simp: sizeof_header_def)
    also have "\<dots> = header_bytes (saved_header p0)"
      using get_put_same [of 0 "header_bytes (saved_header p0)" "disk_file d1"]
      by (simp add: d2(3) sizeof_header_def)
    finally show ?thesis by (simp add: file_header_def header_of_bytes saved_header_def PERSIST_MAGIC_def)
  qed
  have "file_table n (disk_file d3) = id_table r"
  proof (cases "n = 0")
    case True
    then show ?thesis using lt by (simp add: file_table_def get_bytes_def)
  next
    case False
    note l = l1 [OF False]
    have "get_bytes HEADER_BYTES (n * METRIC_ID_MAX) (disk_file d3) = get_bytes HEADER_BYTES (n * METRIC_ID_MAX) (disk_file d2)"
      unfolding d3_def using N(2) l l2(1)
      by simp (intro get_set_file_size, auto simp: records_at_def)
    also have "\<dots> = get_bytes HEADER_BYTES (n * METRIC_ID_MAX) (disk_file d1)"
      unfolding d2(3) using l
      by (intro get_put_other) (simp_all add: records_at_def HEADER_BYTES_def)
    finally show ?thesis using tab by (simp add: file_table_def)
  qed
  moreover have "file_inv n (p1, d3)"
    using op cap d2(2) by (simp add: file_inv_def p1_def p0_def n_def)
      (simp add: d3_def set_file_size_def N_def n_def)
  ultimately have "synced r (tier_capacity t) (tier_interval_s t) (p1, d3)"
    using hdr op by (simp add: synced_def n_def p1_def p0_def saved_header_def)
  moreover have "file_rows n (p1, d3) = []" by (simp add: file_rows_def p1_def p0_def ring_list_def)
  ultimately show thesis using that eq by (simp add: n_def p1_def)
qed

section \<open>Appending a sequence\<close>

primrec persist_append_all ::
  "(gint64 \<times> gfloat list) list \<Rightarrow> persist option \<Rightarrow> disk \<Rightarrow> (persist option \<times> disk) option" where
  "persist_append_all [] p d = Some (p, d)"
| "persist_append_all (x # xs) p d = (case persist_append p d (snd x) (fst x) of
     None \<Rightarrow> None | Some (p', d') \<Rightarrow> persist_append_all xs p' d')"

abbreviation row_ok :: "nat \<Rightarrow> gint64 \<times> gfloat list \<Rightarrow> bool" where
  "row_ok n x \<equiv> length (snd x) = n \<and> in_gint64 (fst x)"

lemma append_synced:
  assumes sync: "synced r cap iv (p, d)" and x: "row_ok (unat (reg_count r)) x"
  obtains p' d' where "persist_append (Some p) d (snd x) (fst x) = Some (Some p', d')"
    "synced r cap iv (p', d')"
    "file_rows (unat (reg_count r)) (p', d') = lastn (unat cap) (file_rows (unat (reg_count r)) (p, d) @ [x])"
    "unat (pr_head p') = (unat (pr_head p) + 1) mod unat cap"
    "\<forall>s < unat cap. file_row (unat (reg_count r)) (disk_file d') s =
       (if s = unat (pr_head p) then x else file_row (unat (reg_count r)) (disk_file d) s)"
    "unat (pr_appends_since_header p) + 1 < 60 \<longrightarrow>
       pr_appends_since_header p' = pr_appends_since_header p + 1
       \<and> file_header (disk_file d') = file_header (disk_file d)"
proof -
  define n where "n = unat (reg_count r)"
  have inv: "file_inv n (p, d)" and cap: "pr_capacity p = cap" "file_cap (p, d) = unat cap"
    using sync by (simp_all add: synced_def n_def file_cap_def)
  have len: "n \<le> length (snd x)" "in_gint64 (fst x)" using x by (simp_all add: n_def)
  have all: "take n (snd x) = snd x" using x by (simp add: n_def)
  obtain p' d' where 1: "persist_append (Some p) d (snd x) (fst x) = Some (Some p', d')" "file_inv n (p', d')"
    "pr_capacity p' = pr_capacity p" "pr_interval_s p' = pr_interval_s p" "pr_owns_file p' = pr_owns_file p"
    "pr_n_metrics p' = pr_n_metrics p"
    "file_rows n (p', d') = lastn (file_cap (p, d)) (file_rows n (p, d) @ [(fst x, take n (snd x))])"
    "file_table n (disk_file d') = file_table n (disk_file d)"
    "unat (pr_head p') = (unat (pr_head p) + 1) mod unat (pr_capacity p)"
    "\<forall>s < unat (pr_capacity p). file_row n (disk_file d') s =
       (if s = unat (pr_head p) then (fst x, take n (snd x)) else file_row n (disk_file d) s)"
    "if HEADER_FLUSH_EVERY \<le> pr_appends_since_header p + 1
     then pr_appends_since_header p' = 0 \<and> file_header (disk_file d') = saved_header p'
     else pr_appends_since_header p' = pr_appends_since_header p + 1
       \<and> file_header (disk_file d') = file_header (disk_file d)"
    by (rule persist_append_ok [OF inv len])
  have few: "unat (pr_appends_since_header p) < 60" using sync by (simp add: synced_def)
  then have u: "unat (pr_appends_since_header p + 1) = unat (pr_appends_since_header p) + 1"
    by (intro unat_Suc_small) simp
  have flush: "HEADER_FLUSH_EVERY \<le> pr_appends_since_header p + 1 \<longleftrightarrow> 60 \<le> unat (pr_appends_since_header p) + 1"
    using u by (simp add: HEADER_FLUSH_EVERY_def word_le_nat_alt)
  have "pr_appends_since_header p + 1 \<noteq> 0" using u by (metis add_is_0 one_neq_zero unsigned_0)
  with 1(11) u flush have lag: "pr_appends_since_header p' = 0 \<longrightarrow> file_header (disk_file d') = saved_header p'"
    "unat (pr_appends_since_header p') < 60"
    by (auto split: if_splits)
  have "synced r cap iv (p', d')"
    using sync 1(2-5,8) lag by (simp add: synced_def n_def)
  moreover have "file_rows n (p', d') = lastn (unat cap) (file_rows n (p, d) @ [x])"
    using 1(7) cap all by simp
  moreover have "unat (pr_appends_since_header p) + 1 < 60 \<longrightarrow>
       pr_appends_since_header p' = pr_appends_since_header p + 1
       \<and> file_header (disk_file d') = file_header (disk_file d)"
    using 1(11) flush by auto
  ultimately show thesis using that [OF 1(1)] 1(9,10) cap all by (simp add: n_def)
qed

lemma append_all_synced:
  assumes "synced r cap iv (p, d)" "list_all (row_ok (unat (reg_count r))) xs"
  shows "\<exists>p' d'. persist_append_all xs (Some p) d = Some (Some p', d') \<and> synced r cap iv (p', d')
    \<and> file_rows (unat (reg_count r)) (p', d')
        = lastn (unat cap) (file_rows (unat (reg_count r)) (p, d) @ xs)"
  using assms
proof (induction xs arbitrary: p d)
  case Nil
  have "file_inv (unat (reg_count r)) (p, d)" "file_cap (p, d) = unat cap"
    using Nil.prems(1) by (simp_all add: synced_def file_cap_def)
  then show ?case using history.log_bound [of "unat (reg_count r)" "(p, d)"] Nil by simp
next
  case (Cons x xs)
  have x: "row_ok (unat (reg_count r)) x" using Cons.prems(2) by simp
  obtain p1 d1 where "persist_append (Some p) d (snd x) (fst x) = Some (Some p1, d1)" "synced r cap iv (p1, d1)"
    "file_rows (unat (reg_count r)) (p1, d1) = lastn (unat cap) (file_rows (unat (reg_count r)) (p, d) @ [x])"
    by (rule append_synced [OF Cons.prems(1) x])
  with Cons.IH [of p1 d1] Cons.prems(2) show ?case by (auto simp: lastn_append_lastn)
qed

section \<open>Replaying the tier\<close>

lemma sync_loop_append_all:
  assumes "store_inv s" "i < STORE_TIERS" "length (store_rows s i) - unat idx < fuel"
    "persist_append_all (drop (unat idx) (store_rows s i)) p d \<noteq> None"
  shows "sync_loop fuel s i idx p d = persist_append_all (drop (unat idx) (store_rows s i)) p d"
  using assms(3,4)
proof (induction fuel arbitrary: idx p d)
  case (Suc fuel)
  note sample = tier_sample_ok [OF assms(1,2), of idx]
  show ?case
  proof (cases "unat idx < length (store_rows s i)")
    case False
    then show ?thesis by (simp add: sample)
  next
    case True
    have "tier_inv (unat (st_n_metrics s)) (st_tiers s ! i)" by (rule store_inv_tier [OF assms(1,2)])
    then have "unat idx + 1 < 2 ^ 32" using True by (simp add: tier_inv_def)
    note u = unat_Suc_small [OF this]
    have dropi: "drop (unat idx) (store_rows s i) = store_rows s i ! unat idx # drop (unat (idx + 1)) (store_rows s i)"
      using True u by (simp add: Cons_nth_drop_Suc)
    obtain p1 d1 where a: "persist_append p d (snd (store_rows s i ! unat idx)) (fst (store_rows s i ! unat idx))
        = Some (p1, d1)" "persist_append_all (drop (unat (idx + 1)) (store_rows s i)) p1 d1 \<noteq> None"
      using Suc.prems(2) unfolding dropi by (auto split: option.splits)
    have "length (store_rows s i) - unat (idx + 1) < fuel" using Suc.prems(1) True u by simp
    from Suc.IH [OF this a(2)] a(1) True show ?thesis unfolding dropi by (simp add: sample)
  qed
qed simp

text \<open>The file after \<open>persist_sync\<close> holds the samples of the tier.\<close>

lemma persist_sync_ok:
  assumes op: "opened_for (st_registry s) t p" and reg: "reg_inv (st_registry s)" and "progressing d"
    and cap: "0 < unat (tier_capacity t)" "unat (tier_capacity t) < 2 ^ 31"
    and s: "store_inv s" "i < STORE_TIERS"
    and rows: "list_all (row_ok (unat (reg_count (st_registry s)))) (store_rows s i)"
  obtains p1 d1 where "persist_sync (Some p) True d s i = Some (Some p1, d1)"
    "synced (st_registry s) (tier_capacity t) (tier_interval_s t) (p1, d1)"
    "file_rows (unat (reg_count (st_registry s))) (p1, d1) = lastn (unat (tier_capacity t)) (store_rows s i)"
proof -
  obtain p0 d0 where init: "initialise_file p (st_registry s) True d = (p0, d0)"
    "synced (st_registry s) (tier_capacity t) (tier_interval_s t) (p0, d0)"
    "file_rows (unat (reg_count (st_registry s))) (p0, d0) = []"
    by (rule initialise_file_ok [OF op reg assms(3) cap])
  obtain p1 d1 where all: "persist_append_all (store_rows s i) (Some p0) d0 = Some (Some p1, d1)"
    "synced (st_registry s) (tier_capacity t) (tier_interval_s t) (p1, d1)"
    "file_rows (unat (reg_count (st_registry s))) (p1, d1) = lastn (unat (tier_capacity t)) (store_rows s i)"
    using append_all_synced [OF init(2) rows] init(3) by auto
  have "sync_loop (unat (store_tier_count s i) + 1) s i 0 (Some p0) d0 = Some (Some p1, d1)"
    using sync_loop_append_all [OF s, of 0 _ "Some p0" d0] all(1) s(2)
    by (simp add: store_tier_count_def del: sync_loop.simps)
  then have "persist_sync (Some p) True d s i = Some (Some p1, d1)"
    using init(1) by (simp add: persist_sync_def del: sync_loop.simps)
  then show thesis using that all by blast
qed

section \<open>Closing\<close>

text \<open>What the next run finds in a file whose header is that of \<open>p\<close>.\<close>

lemma saved_of_header:
  assumes sync: "synced r cap iv (p, d)" and reg: "reg_inv r" "ids_ok r"
    and n: "0 < unat (reg_count r)" "unat (reg_count r) \<le> 100000"
    and hdr: "file_header (disk_file d) = saved_header q" "pr_n_metrics q = reg_count r" "pr_capacity q = cap"
      "pr_interval_s q = iv" "unat (pr_head q) < unat cap" "unat (pr_count q) \<le> unat cap"
  shows "file_ok iv (disk_file d)" "saved_ids (disk_file d) = reg_ids r"
    "saved_rows (disk_file d) = ring_list (unat cap) (unat (pr_head q)) (unat (pr_count q))
       (file_row (unat (reg_count r)) (disk_file d))"
proof -
  have inv: "file_inv (unat (reg_count r)) (p, d)" "pr_capacity p = cap"
    "file_table (unat (reg_count r)) (disk_file d) = id_table r"
    using sync by (simp_all add: synced_def)
  show "file_ok iv (disk_file d)"
    using inv hdr n unfolding file_ok_def Let_def hdr(1)
    by (simp add: saved_header_def file_inv_def)
  show "saved_ids (disk_file d) = reg_ids r"
    using inv(3) hdr saved_id_table [OF reg(2)] length_reg_ids [OF reg(1)]
    by (intro nth_equalityI) (simp_all add: saved_ids_def Let_def hdr(1) saved_header_def)
  show "saved_rows (disk_file d) = ring_list (unat cap) (unat (pr_head q)) (unat (pr_count q))
       (file_row (unat (reg_count r)) (disk_file d))"
    using hdr(2-6) by (simp add: saved_rows_def Let_def hdr(1) saved_header_def)
qed

lemma persist_close_ok:
  assumes sync: "synced r cap iv (p, d)" and reg: "reg_inv r" "ids_ok r"
    and n: "0 < unat (reg_count r)" "unat (reg_count r) \<le> 100000"
  shows "file_ok iv (disk_file (persist_close (Some p) d))" "progressing (persist_close (Some p) d)"
    "saved_ids (disk_file (persist_close (Some p) d)) = reg_ids r"
    "saved_rows (disk_file (persist_close (Some p) d)) = file_rows (unat (reg_count r)) (p, d)"
proof -
  let ?n = "unat (reg_count r)"
  have b: "file_inv ?n (p, d)" "pr_capacity p = cap" "pr_interval_s p = iv" "pr_owns_file p"
    "file_table ?n (disk_file d) = id_table r" "unat (pr_appends_since_header p) < 60"
    using sync by (simp_all add: synced_def)
  then have c: "0 \<le> pr_fd p" "unat (pr_head p) < unat cap" "unat (pr_count p) \<le> unat cap" "progressing d"
    "records_at ?n + unat cap * (8 + ?n * 4) \<le> length (disk_file d)" "pr_n_metrics p = reg_count r"
    by (simp_all add: file_inv_def) (simp add: unat_inject)
  obtain d' where d': "write_header p d = (p\<lparr>pr_appends_since_header := 0\<rparr>, d')" "progressing d'"
    "disk_file d' = put_bytes 0 (header_bytes (saved_header p)) (disk_file d)"
    by (rule write_header_ok [OF c(4)])
  have close: "persist_close (Some p) d = d'" using b(4) c(1) d'(1) by (simp add: persist_close_def)
  note hp = header_put [OF c(5), where p = p, folded d'(3)]
  define q where "q = p\<lparr>pr_appends_since_header := 0\<rparr>"
  have "file_inv ?n (q, d')" using b(1) d'(2) hp(4) by (simp add: file_inv_def q_def)
  then have "synced r cap iv (q, d')"
    using b(2-5) hp(1,2) by (simp add: synced_def q_def saved_header_def)
  note saved = saved_of_header [OF this reg n hp(1) c(6) b(2,3) c(2,3)]
  show "file_ok iv (disk_file (persist_close (Some p) d))" "saved_ids (disk_file (persist_close (Some p) d)) = reg_ids r"
    "progressing (persist_close (Some p) d)"
    using saved d'(2) by (simp_all add: close)
  have "0 < unat cap" using c(2) by simp
  then show "saved_rows (disk_file (persist_close (Some p) d)) = file_rows ?n (p, d)"
    using saved(3) hp(3) [of _ "unat cap"] b(2) unfolding close file_rows_def fst_conv snd_conv
    by simp (intro ring_list_cong, auto)
qed

section \<open>A crash\<close>

text \<open>While the header is not rewritten, the records after its head are overwritten in order.\<close>

lemma append_all_lag:
  assumes "synced r cap iv (p, d)" "list_all (row_ok (unat (reg_count r))) xs"
    "unat (pr_appends_since_header p) + length xs < 60" "length xs \<le> unat cap"
  shows "\<exists>p' d'. persist_append_all xs (Some p) d = Some (Some p', d') \<and> synced r cap iv (p', d')
    \<and> file_header (disk_file d') = file_header (disk_file d)
    \<and> (\<forall>i < unat cap. file_row (unat (reg_count r)) (disk_file d') ((unat (pr_head p) + i) mod unat cap)
         = (if i < length xs then xs ! i
            else file_row (unat (reg_count r)) (disk_file d) ((unat (pr_head p) + i) mod unat cap)))"
  using assms
proof (induction xs arbitrary: p d)
  case (Cons x xs)
  let ?n = "unat (reg_count r)" and ?c = "unat cap" and ?h = "unat (pr_head p)"
  have x: "row_ok ?n x" using Cons.prems(2) by simp
  have h: "?h < ?c" using Cons.prems(1) by (auto simp: synced_def file_inv_def)
  obtain p1 d1 where 1: "persist_append (Some p) d (snd x) (fst x) = Some (Some p1, d1)" "synced r cap iv (p1, d1)"
    "unat (pr_head p1) = (?h + 1) mod ?c"
    "\<forall>s < ?c. file_row ?n (disk_file d1) s = (if s = ?h then x else file_row ?n (disk_file d) s)"
    "unat (pr_appends_since_header p) + 1 < 60 \<longrightarrow>
       pr_appends_since_header p1 = pr_appends_since_header p + 1
       \<and> file_header (disk_file d1) = file_header (disk_file d)"
    by (rule append_synced [OF Cons.prems(1) x])
  have few: "unat (pr_appends_since_header p) + 1 < 60" using Cons.prems(3) by simp
  then have u: "unat (pr_appends_since_header p + 1) = unat (pr_appends_since_header p) + 1"
    by (intro unat_Suc_small) simp
  have "unat (pr_appends_since_header p1) + length xs < 60" "length xs \<le> ?c" "list_all (row_ok ?n) xs"
    using 1(5) few u Cons.prems(2-4) by simp_all
  from Cons.IH [OF 1(2) this(3,1,2)]
  obtain p' d' where IH: "persist_append_all xs (Some p1) d1 = Some (Some p', d')" "synced r cap iv (p', d')"
    "file_header (disk_file d') = file_header (disk_file d1)"
    "\<forall>i < ?c. file_row ?n (disk_file d') ((unat (pr_head p1) + i) mod ?c)
         = (if i < length xs then xs ! i else file_row ?n (disk_file d1) ((unat (pr_head p1) + i) mod ?c))"
    by blast
  have "file_row ?n (disk_file d') ((?h + i) mod ?c)
      = (if i < length (x # xs) then (x # xs) ! i else file_row ?n (disk_file d) ((?h + i) mod ?c))"
    if i: "i < ?c" for i
  proof (cases i)
    case 0
    have "(unat (pr_head p1) + (?c - 1)) mod ?c = (?h + 1 + (?c - 1)) mod ?c"
      by (simp add: 1(3) mod_add_left_eq)
    also have "?h + 1 + (?c - 1) = ?h + ?c" using h by simp
    finally have "(unat (pr_head p1) + (?c - 1)) mod ?c = ?h" using h by simp
    moreover have last: "?c - 1 < ?c" "\<not> ?c - 1 < length xs" using h Cons.prems(4) by auto
    ultimately have "file_row ?n (disk_file d') ?h = x"
      using IH(4) [rule_format, OF last(1)] 1(4) h by simp
    with 0 h show ?thesis by simp
  next
    case (Suc j)
    have "(unat (pr_head p1) + j) mod ?c = (?h + 1 + j) mod ?c" by (simp add: 1(3) mod_add_left_eq)
    then have slot: "(unat (pr_head p1) + j) mod ?c = (?h + i) mod ?c" by (simp add: Suc)
    have "(?h + i) mod ?c \<noteq> ?h"
      using ring_slot_neq_head [of ?h ?c ?c i] h i Suc by simp
    then have "file_row ?n (disk_file d1) ((?h + i) mod ?c) = file_row ?n (disk_file d) ((?h + i) mod ?c)"
      using 1(4) h by simp
    moreover have "j < ?c" using i Suc by simp
    ultimately show ?thesis using IH(4) [rule_format, of j] slot Suc by simp
  qed
  with 1 few IH(1-3) show ?case by auto
qed simp

text \<open>
  So the next run reads, in the place of the oldest records, the newest ones that did not fit
  in the free slots, and then the rest of what was there when the header was written.
\<close>

lemma crash_rows:
  assumes sync: "synced r cap iv (p, d)" and fresh: "pr_appends_since_header p = 0"
    and xs: "list_all (row_ok (unat (reg_count r))) xs" "length xs < 60" "length xs \<le> unat cap"
    and reg: "reg_inv r" "ids_ok r" "0 < unat (reg_count r)" "unat (reg_count r) \<le> 100000"
  defines "room \<equiv> unat cap - unat (pr_count p)"
  obtains p' d' where "persist_append_all xs (Some p) d = Some (Some p', d')" "file_ok iv (disk_file d')"
    "saved_ids (disk_file d') = reg_ids r" "progressing d'"
    "saved_rows (disk_file d') = drop room xs @ drop (length xs - room) (file_rows (unat (reg_count r)) (p, d))"
proof -
  let ?n = "unat (reg_count r)" and ?c = "unat cap" and ?h = "unat (pr_head p)" and ?k = "unat (pr_count p)"
  have "unat (pr_appends_since_header p) + length xs < 60" using fresh xs(2) by simp
  from append_all_lag [OF sync xs(1) this xs(3)]
  obtain p' d' where a: "persist_append_all xs (Some p) d = Some (Some p', d')" "synced r cap iv (p', d')"
    "file_header (disk_file d') = file_header (disk_file d)"
    "\<forall>i < ?c. file_row ?n (disk_file d') ((?h + i) mod ?c)
         = (if i < length xs then xs ! i else file_row ?n (disk_file d) ((?h + i) mod ?c))" by blast
  have b: "?h < ?c" "?k \<le> ?c" "pr_n_metrics p = reg_count r" "pr_capacity p = cap" "pr_interval_s p = iv"
    using sync by (auto simp: synced_def file_inv_def unat_inject)
  have "file_header (disk_file d') = saved_header p" using a(3) sync fresh by (simp add: synced_def)
  note saved = saved_of_header [OF a(2) reg this b(3-5,1,2)]
  have "saved_rows (disk_file d') = drop room xs @ drop (length xs - room) (file_rows ?n (p, d))"
  proof (rule nth_equalityI)
    show len: "length (saved_rows (disk_file d')) = length (drop room xs @ drop (length xs - room) (file_rows ?n (p, d)))"
      using b(2) xs(3) by (simp add: saved(3) file_rows_def room_def)
    fix j assume "j < length (saved_rows (disk_file d'))"
    then have j: "j < ?k" by (simp add: saved(3))
    have slot: "(ring_start ?c ?h ?k + j) mod ?c = (?h + (room + j)) mod ?c"
    proof -
      have "?h + ?c - ?k + j = ?h + (room + j)" using b(2) by (simp add: room_def)
      then show ?thesis using ring_start_slot [OF b(1,2) j] by (simp add: add.assoc)
    qed
    have rj: "room + j < ?c" using j b(2) by (simp add: room_def)
    have old: "file_rows ?n (p, d) ! j = file_row ?n (disk_file d) ((?h + (room + j)) mod ?c)"
      using j slot b(4) by (simp add: file_rows_def ring_list_nth)
    have "saved_rows (disk_file d') ! j = file_row ?n (disk_file d') ((?h + (room + j)) mod ?c)"
      using j slot by (simp add: saved(3) ring_list_nth)
    also have "\<dots> = (if room + j < length xs then xs ! (room + j) else file_rows ?n (p, d) ! j)"
      using a(4) rj old by simp
    finally show "saved_rows (disk_file d') ! j
        = (drop room xs @ drop (length xs - room) (file_rows ?n (p, d))) ! j"
      using j by (auto simp: nth_append file_rows_def)
  qed
  moreover have "progressing d'" using a(2) by (simp add: synced_def file_inv_def)
  ultimately show thesis using that a(1) saved(1,2) by blast
qed

end
