(* ===== verification/PersistProps.thy ===== *)
theory PersistProps
  imports PersistSync
begin

text \<open>
  The properties of the history files: round trips through a clean close, what a crash leaves,
  safety on foreign contents, failed writes and files that were never laid out.
\<close>

text \<open>A registry of one metric and an open file for it, for the witnesses.\<close>

definition one_registry :: metric_registry where
  "one_registry = \<lparr>reg_defs = [\<lparr>md_id = ''cpu'', md_label = ''CPU'', md_unit = ''%'', md_group = ''cpu''\<rparr>],
     reg_count = 1, reg_capacity = 1\<rparr>"

definition one_file :: persist where
  "one_file = \<lparr>pr_fd = 3, pr_path = ''/mnt/tier0'', pr_n_metrics = 1, pr_capacity = 2, pr_interval_s = 1,
     pr_head = 0, pr_count = 0, pr_records_offset = records_at 1, pr_record_bytes = 12,
     pr_appends_since_header = 0, pr_owns_file = False\<rparr>"

lemma one_registry_ok:
  "reg_inv one_registry" "ids_ok one_registry" "distinct (reg_ids one_registry)" "reg_count one_registry = 1"
  "reg_ids one_registry = [''cpu'']"
  by (simp_all add: one_registry_def reg_inv_def ids_ok_def reg_ids_def METRIC_ID_MAX_def nul_char)

lemma one_file_opened: "opened_for one_registry (new_tier 1 0 1 2) one_file"
  by (simp add: opened_for_def one_file_def one_registry_def new_tier_def)

lemma one_store:
  obtains s where "store_new one_registry 1 0 = Some s" "store_inv s" "st_registry s = one_registry"
    "st_n_metrics s = 1" "store_rows s 0 = []" "300 \<le> tier_cap (st_tiers s ! 0)"
proof -
  obtain s c0 c1 c2 where s: "store_new one_registry 1 0 = Some s" "store_inv s" "st_registry s = one_registry"
    "st_n_metrics s = reg_count one_registry"
    "st_tiers s = [new_tier (reg_count one_registry) 0 (max 1 1) c0,
       new_tier (reg_count one_registry) 1 15 c1, new_tier (reg_count one_registry) 2 300 c2]" "300 \<le> c0"
    by (rule store_new_ok [of one_registry 1 0])
  have "300 \<le> tier_cap (st_tiers s ! 0)"
    using s(6) by (simp add: s(5) tier_cap_def new_tier_def word_le_nat_alt)
  moreover have "store_rows s 0 = []" by (simp add: s(5) tier_rows_def new_tier_def ring_list_def)
  ultimately show thesis using that s(1-4) one_registry_ok(4) by simp
qed

lemma remapped_same:
  assumes "distinct (reg_ids r)" "length (snd x) = length (reg_ids r)"
  shows "remapped r (reg_ids r) x = x"
proof -
  have "column (reg_ids r) (snd x) (reg_ids r ! m) = snd x ! m" if m: "m < length (reg_ids r)" for m
  proof -
    have "distinct (map fst (rev (zip (reg_ids r) (snd x))))"
      using assms by (simp add: rev_map [symmetric])
    moreover have "(reg_ids r ! m, snd x ! m) \<in> set (rev (zip (reg_ids r) (snd x)))"
      using m assms(2) by (auto simp: set_zip)
    ultimately show ?thesis unfolding column_def by (simp only: map_of_is_SomeI option.case)
  qed
  with assms(2) have "map (column (reg_ids r) (snd x)) (reg_ids r) = snd x"
    by (intro nth_equalityI) auto
  then show ?thesis by (simp add: remapped_def)
qed

text \<open>C3: What is saved is restored: a file laid out from a tier, appended to and closed gives the
  next run the last \<open>capacity\<close> samples of the tier and the appends, with each value under the id it
  was saved with (NaN where the id is new), whatever short transfers the device makes.\<close>

theorem persist_round_trip:
  assumes op: "opened_for (st_registry s) t p" and "progressing d"
    and cap: "0 < unat (tier_capacity t)" "unat (tier_capacity t) < 2 ^ 31"
    and s: "store_inv s" "i < STORE_TIERS" and reg: "reg_inv (st_registry s)" "ids_ok (st_registry s)"
    and n: "n = unat (reg_count (st_registry s))" "0 < n" "n \<le> 100000"
    and rows: "list_all (row_ok n) (store_rows s i)" "list_all (row_ok n) xs"
    and next_run: "store_inv s2" "reg_inv (st_registry s2)" "distinct (reg_ids (st_registry s2))"
      "reg_count (st_registry s2) = st_n_metrics s2" "pr_interval_s q = tier_interval_s t"
  shows "\<exists>p1 d1 p2 d2 restored s3 d3. persist_sync (Some p) True d s i = Some (Some p1, d1)
    \<and> persist_append_all xs (Some p1) d1 = Some (Some p2, d2)
    \<and> persist_load (Some q) (persist_close (Some p2) d2) s2 i = Some (restored, s3, d3)
    \<and> store_rows s3 i = lastn (tier_cap (st_tiers s2 ! i)) (store_rows s2 i
        @ map (remapped (st_registry s2) (reg_ids (st_registry s)))
            (filter (\<lambda>r. 0 < fst r) (lastn (unat (tier_capacity t)) (store_rows s i @ xs))))"
proof -
  let ?r = "st_registry s" and ?c = "unat (tier_capacity t)"
  obtain p1 d1 where 1: "persist_sync (Some p) True d s i = Some (Some p1, d1)"
    "synced ?r (tier_capacity t) (tier_interval_s t) (p1, d1)" "file_rows n (p1, d1) = lastn ?c (store_rows s i)"
    unfolding n(1) by (rule persist_sync_ok [OF op reg(1) assms(2) cap s rows(1) [unfolded n(1)]])
  obtain p2 d2 where 2: "persist_append_all xs (Some p1) d1 = Some (Some p2, d2)"
    "synced ?r (tier_capacity t) (tier_interval_s t) (p2, d2)"
    "file_rows n (p2, d2) = lastn ?c (file_rows n (p1, d1) @ xs)"
    using append_all_synced [OF 1(2) rows(2) [unfolded n(1)]] n(1) by auto
  note close = persist_close_ok [OF 2(2) reg n(2,3) [unfolded n(1)]]
  obtain restored s3 d3 where
    "persist_load (Some q) (persist_close (Some p2) d2) s2 i = Some (restored, s3, d3)"
    "store_rows s3 i = lastn (tier_cap (st_tiers s2 ! i)) (store_rows s2 i
       @ map (remapped (st_registry s2) (saved_ids (disk_file (persist_close (Some p2) d2))))
           (filter (\<lambda>r. 0 < fst r) (saved_rows (disk_file (persist_close (Some p2) d2)))))"
    by (rule persist_load_ok [OF close(1) [folded next_run(5)] close(2) next_run(1) s(2) next_run(2-4)])
  with 1 2 show ?thesis by (auto simp: close(3,4) lastn_append_lastn simp flip: n(1))
qed

theorem persist_round_trip_witness:
  "\<exists>s p1 d1 p2 d2 restored s3 d3. store_new one_registry 1 0 = Some s
    \<and> persist_sync (Some one_file) True \<lparr>disk_file = [], disk_calls = [7, 1]\<rparr> s 0 = Some (Some p1, d1)
    \<and> persist_append_all [(5, [1]), (6, [2]), (7, [3])] (Some p1) d1 = Some (Some p2, d2)
    \<and> persist_load (Some one_file) (persist_close (Some p2) d2) s 0 = Some (restored, s3, d3)
    \<and> store_rows s3 0 = [(6, [2]), (7, [3])]"
proof -
  obtain s where s: "store_new one_registry 1 0 = Some s" "store_inv s" "st_registry s = one_registry"
    "st_n_metrics s = 1" "store_rows s 0 = []" "300 \<le> tier_cap (st_tiers s ! 0)" by (rule one_store)
  have last: "lastn 2 [(5, [1]), (6, [2]), (7, [3])] = [(6, [2]), (7, [3 :: gfloat])]" by (simp add: lastn_def)
  have rem: "remapped one_registry [''cpu''] (t, [v]) = (t, [v])" for t v
    using remapped_same [of one_registry "(t, [v])"] by (simp add: one_registry_ok)
  from persist_round_trip [of s "new_tier 1 0 1 2" one_file "\<lparr>disk_file = [], disk_calls = [7, 1]\<rparr>" 0 1
      "[(5, [1]), (6, [2]), (7, [3])]" s one_file]
  show ?thesis
    using s one_registry_ok one_file_opened
    by (simp add: progressing_def new_tier_def STORE_TIERS_def in_gint64_def one_file_def last rem)
qed


text \<open>A full file of two records with an up-to-date header.\<close>

definition full_file :: persist where
  "full_file = one_file\<lparr>pr_count := 2, pr_owns_file := True\<rparr>"

definition full_disk :: disk where
  "full_disk = \<lparr>disk_file = put_bytes 0 (header_bytes (saved_header full_file))
     (replicate 4096 0 @ id_table one_registry @ record_bytes 5 [1] @ record_bytes 6 [2]), disk_calls = []\<rparr>"

lemma full_disk_ok:
  "synced one_registry 2 1 (full_file, full_disk)" "file_rows 1 (full_file, full_disk) = [(5, [1]), (6, [2])]"
proof -
  define f where "f = replicate 4096 0 @ id_table one_registry @ record_bytes 5 [1] @ record_bytes 6 [2]"
  have tab: "length (id_table one_registry) = 64"
    using length_id_table [of one_registry] by (simp add: one_registry_ok METRIC_ID_MAX_def)
  have len: "records_at 1 + 24 \<le> length f" "length f = 4184"
    using tab by (simp_all add: f_def records_at_def HEADER_BYTES_def METRIC_ID_MAX_def)
  note hp = header_put [OF len(1), where p = full_file]
  have t: "file_table 1 f = id_table one_registry"
    using tab by (simp add: file_table_def get_bytes_def f_def HEADER_BYTES_def METRIC_ID_MAX_def)
  have r: "file_row 1 f 0 = (5, [1])" "file_row 1 f 1 = (6, [2])"
    using tab row_of_record [of 5 "[1]" 1] row_of_record [of 6 "[2]" 1]
    by (simp_all add: file_row_def get_bytes_def f_def records_at_def HEADER_BYTES_def METRIC_ID_MAX_def in_gint64_def)
  have d: "disk_file full_disk = put_bytes 0 (header_bytes (saved_header full_file)) f" "progressing full_disk"
    by (simp_all add: full_disk_def f_def progressing_def)
  have inv: "file_inv 1 (full_file, full_disk)"
    using len hp(4) d by (simp add: file_inv_def full_file_def one_file_def)
  have "unat (reg_count one_registry) = 1" by (simp add: one_registry_ok)
  then show "synced one_registry 2 1 (full_file, full_disk)"
    using inv hp(1,2) t d(1) unfolding synced_def fst_conv snd_conv
    by (simp add: full_file_def one_file_def)
  have "file_row 1 (disk_file full_disk) s = file_row 1 f s" if "s < 2" for s
    using hp(3) [of s 2] that d(1) by simp
  from this [of 0] this [of 1] r
  show "file_rows 1 (full_file, full_disk) = [(5, [1]), (6, [2])]"
    by (simp add: file_rows_def ring_list_def ring_start_def full_file_def one_file_def upt_conv_Cons)
qed


text \<open>C8: Loading is safe whatever the file holds and however the device answers: it leaves no
  buffer, keeps the store's invariant, its registry and width, and never writes the file.\<close>

theorem persist_load_any_file:
  assumes "store_inv s" "i < STORE_TIERS" "reg_inv (st_registry s)" "reg_count (st_registry s) = st_n_metrics s"
  shows "\<exists>restored s' d'. persist_load persist d s i = Some (restored, s', d') \<and> store_inv s'
    \<and> st_registry s' = st_registry s \<and> st_n_metrics s' = st_n_metrics s \<and> disk_file d' = disk_file d"
  using persist_load_safe [OF assms] by (auto simp: same_store_def)

theorem persist_load_any_file_witness:
  "\<exists>s restored s' d'. store_new one_registry 1 0 = Some s
    \<and> persist_load (Some one_file) \<lparr>disk_file = replicate 5000 255, disk_calls = [2, 0]\<rparr> s 0 = Some (restored, s', d')
    \<and> store_inv s'"
proof -
  obtain s where s: "store_new one_registry 1 0 = Some s" "store_inv s" "st_registry s = one_registry"
    "st_n_metrics s = 1" by (rule one_store)
  from persist_load_any_file [OF s(2), of 0] s one_registry_ok show ?thesis
    by (simp add: STORE_TIERS_def) blast
qed

text \<open>An append whose write fails leaves the index of the ring as it was and touches no byte
  outside the slot it writes to, so the header, the ids and the other records survive.\<close>

theorem persist_append_failed_write:
  assumes inv: "file_inv n (p, d\<lparr>disk_calls := []\<rparr>)" and len: "n \<le> length values"
    and fails: "persist_append (Some p) d values ts = Some (Some p', d')"
      "\<not> fst (write_at d (record_bytes ts (take n values)) (records_at n + unat (pr_head p) * (8 + n * 4)))"
  shows "p' = p \<and> file_header (disk_file d') = file_header (disk_file d)
    \<and> file_table n (disk_file d') = file_table n (disk_file d)
    \<and> (\<forall>s < unat (pr_capacity p). s \<noteq> unat (pr_head p) \<longrightarrow>
         file_row n (disk_file d') s = file_row n (disk_file d) s)"
proof -
  let ?c = "unat (pr_capacity p)" and ?h = "unat (pr_head p)"
  define r where "r = record_bytes ts (take n values)"
  have b: "0 \<le> pr_fd p" "unat (pr_n_metrics p) = n" "?h < ?c"
    "pr_records_offset p = records_at n" "pr_record_bytes p = 8 + n * 4"
    "records_at n + ?c * (8 + n * 4) \<le> length (disk_file d)"
    using inv by (simp_all add: file_inv_def)
  obtain d1 k where w: "write_at d r (records_at n + ?h * (8 + n * 4)) = (False, d1)" "k < length r"
    "disk_file d1 = put_bytes (records_at n + ?h * (8 + n * 4)) (take k r) (disk_file d)"
    using fails(2) by (auto simp flip: r_def intro: write_at_cases [of d r "records_at n + ?h * (8 + n * 4)"])
  have "persist_append (Some p) d values ts = Some (Some p, d1)"
    using b len w(1) by (simp add: persist_append_def arr_simps Let_def flip: r_def)
  then have eq: "p' = p" "d' = d1" using fails(1) by simp_all
  have off: "?h * (8 + n * 4) + (8 + n * 4) \<le> ?c * (8 + n * 4)" using b(3) by (rule row_offset)
  have lr: "length r = 8 + n * 4" using len by (simp add: r_def)
  have "file_row n (disk_file d1) s = file_row n (disk_file d) s" if "s < ?c" "s \<noteq> ?h" for s
  proof -
    have "s * (8 + n * 4) + (8 + n * 4) \<le> ?c * (8 + n * 4)" using that(1) by (rule row_offset)
    moreover have "s * (8 + n * 4) + (8 + n * 4) \<le> ?h * (8 + n * 4) \<or> ?h * (8 + n * 4) + (8 + n * 4) \<le> s * (8 + n * 4)"
      using that(2) row_offset [of s ?h "8 + n * 4"] row_offset [of ?h s "8 + n * 4"] by linarith
    ultimately show ?thesis using w(2) lr b(6) unfolding file_row_def w(3)
      by (subst get_put_other) auto
  qed
  moreover have "file_header (disk_file d1) = file_header (disk_file d)"
    using b(6) off unfolding file_header_def w(3)
    by (subst get_put_other) (simp_all add: records_at_def HEADER_BYTES_def sizeof_header_def)
  moreover have "file_table n (disk_file d1) = file_table n (disk_file d)"
    using b(6) off unfolding file_table_def w(3)
    by (subst get_put_other) (simp_all add: records_at_def)
  ultimately show ?thesis using eq by simp
qed

theorem persist_append_failed_write_witness:
  "\<exists>p' d'. persist_append (Some full_file) (full_disk\<lparr>disk_calls := [3, 0]\<rparr>) [9] 8 = Some (Some p', d')
    \<and> p' = full_file \<and> file_row 1 (disk_file d') 1 = file_row 1 (disk_file full_disk) 1"
proof -
  define d where "d = full_disk\<lparr>disk_calls := [3, 0]\<rparr>"
  have inv: "file_inv 1 (full_file, d\<lparr>disk_calls := []\<rparr>)"
    using full_disk_ok(1) by (simp add: synced_def one_registry_ok d_def full_disk_def)
  have b: "pr_fd full_file = 3" "pr_head full_file = 0" "pr_n_metrics full_file = 1"
    "pr_record_bytes full_file = 12" "pr_records_offset full_file = records_at 1" "pr_capacity full_file = 2"
    by (simp_all add: full_file_def one_file_def)
  have fails: "\<not> fst (write_at d (record_bytes 8 (take 1 [9])) (records_at 1 + unat (pr_head full_file) * (8 + 1 * 4)))"
    by (subst write_at.simps, simp add: d_def pwrite_def call_limit_def next_call_def Let_def record_bytes_def i64_bytes_def
        flip: length_greater_0_conv, subst write_at.simps)
      (simp add: pwrite_def call_limit_def next_call_def Let_def flip: length_greater_0_conv)
  then obtain d' where a: "persist_append (Some full_file) d [9] 8 = Some (Some full_file, d')"
    by (cases "write_at d (record_bytes 8 [9]) (records_at 1)") (simp add: persist_append_def b arr_simps)
  from persist_append_failed_write [OF inv _ a fails] b a show ?thesis
    by (auto simp: d_def)
qed

text \<open>A run that opens a file and never lays it out leaves its bytes alone: loading and closing
  do not overwrite the saved index with the zero head and count of the new handle.\<close>

theorem unsynced_file_untouched:
  assumes "persist_open statvfs mounts mkdir_ok fd_of registry tier name logged = (Some p, logged')"
    and "persist_load (Some p) d s i = Some (restored, s', d')"
    and "store_inv s" "i < STORE_TIERS" "reg_inv (st_registry s)" "reg_count (st_registry s) = st_n_metrics s"
  shows "disk_file (persist_close (Some p) d') = disk_file d"
proof -
  have "\<not> pr_owns_file p" using persist_open_fields [OF assms(1)] by (simp add: opened_for_def)
  moreover have "disk_file d' = disk_file d"
    using persist_load_safe [OF assms(3-6), of "Some p" d] assms(2) by auto
  ultimately show ?thesis by (simp add: persist_close_def)
qed

theorem unsynced_file_untouched_witness:
  "\<exists>p s restored s' d'. persist_open sample_statvfs (Some sd_line) (\<lambda>_. True) (\<lambda>_. 3) one_registry (new_tier 1 0 1 2)
       ''fine'' False = (Some p, False)
    \<and> persist_load (Some p) full_disk s 0 = Some (restored, s', d')
    \<and> disk_file (persist_close (Some p) d') = disk_file full_disk"
proof -
  have "find_storage sample_statvfs (Some sd_line) 256 = Some ''/var/spool/storage/areas/SD_DISK/root''"
    by code_simp
  then obtain p where p: "persist_open sample_statvfs (Some sd_line) (\<lambda>_. True) (\<lambda>_. 3) one_registry
      (new_tier 1 0 1 2) ''fine'' False = (Some p, False)"
    by (simp add: persist_open_def Let_def)
  obtain s where s: "store_inv s" "st_registry s = one_registry" "st_n_metrics s = 1" by (rule one_store)
  obtain restored s' d' where l: "persist_load (Some p) full_disk s 0 = Some (restored, s', d')"
    using persist_load_safe [OF s(1), of 0 "Some p" full_disk] s one_registry_ok by (auto simp: STORE_TIERS_def)
  have "disk_file (persist_close (Some p) d') = disk_file full_disk"
    by (rule unsynced_file_untouched [OF p l s(1)]) (simp_all add: s one_registry_ok STORE_TIERS_def)
  with p l show ?thesis by blast
qed

end
