(* ===== verification/Query.thy ===== *)
theory Query
  imports CString
begin

text \<open>
  URL-encoded parameters: \<open>url_decode\<close> and \<open>api_query_param\<close> of \<^verbatim>\<open>app/api.c\<close>, the same decoder and
  the splitting of a settings body in \<^verbatim>\<open>app/main.c\<close>. The encoder is the browser's; it is a function
  of the set of characters it leaves alone.
\<close>

section \<open>Model\<close>

text \<open>
  The bytes decoded; \<open>g_strdup\<close> of the buffer then cuts the result at a decoded terminator.
\<close>

fun decode_bytes :: "string \<Rightarrow> string" where
  "decode_bytes [] = []"
| "decode_bytes (c # h # l # rest) =
     (if c = CHR ''+'' then CHR '' '' # decode_bytes (h # l # rest)
      else if c = CHR ''%'' \<and> is_xdigit h \<and> is_xdigit l
      then char_of (xdigit_value h * 16 + xdigit_value l) # decode_bytes rest
      else c # decode_bytes (h # l # rest))"
| "decode_bytes (c # rest) = (if c = CHR ''+'' then CHR '' '' else c) # decode_bytes rest"

definition url_decode :: "string \<Rightarrow> string" where
  "url_decode s = cstr (decode_bytes s)"

lemma strchr_length: "strchr s c = Some e \<Longrightarrow> e \<noteq> [] \<and> length e \<le> length s"
  by (induction s c rule: strchr.induct) (auto split: if_splits)

text \<open>The loop of \<open>api_query_param\<close> from the cursor on.\<close>

function param_from :: "string \<Rightarrow> string \<Rightarrow> string option" where
  "param_from cursor name = (if cursor = [] then None
     else let segment = takeWhile (\<lambda>c. c \<noteq> CHR ''&'') cursor in
       if length name < length segment \<and> take (length name) segment = name
          \<and> segment ! length name = CHR ''=''
       then Some (url_decode (drop (length name + 1) segment))
       else case strchr cursor CHR ''&'' of None \<Rightarrow> None | Some end \<Rightarrow> param_from (tl end) name)"
  by pat_completeness auto

termination
proof (relation "measure (\<lambda>(cursor, name). length cursor)")
  fix cursor name segment e
  assume "cursor \<noteq> []" "strchr cursor CHR ''&'' = Some e"
  then show "((tl e, name), cursor, name) \<in> measure (\<lambda>(cursor, name). length cursor)"
    using strchr_length [of cursor "CHR ''&''" e] by (cases e) auto
qed simp

declare param_from.simps [simp del]

definition api_query_param :: "string option \<Rightarrow> string \<Rightarrow> string option" where
  "api_query_param query name = (case query of None \<Rightarrow> None
     | Some q \<Rightarrow> param_from (case strchr q CHR ''?'' of Some c \<Rightarrow> tl c | None \<Rightarrow> q) name)"

section \<open>Encoding\<close>

definition hex_digit :: "nat \<Rightarrow> char" where
  "hex_digit k = (if k < 10 then char_of (48 + k) else char_of (55 + k))"

definition url_encode :: "(char \<Rightarrow> bool) \<Rightarrow> string \<Rightarrow> string" where
  "url_encode safe s = concat (map (\<lambda>c. if safe c then [c]
     else [CHR ''%'', hex_digit (ch_code c div 16), hex_digit (ch_code c mod 16)]) s)"

text \<open>An encoder must escape the characters with a meaning in a query.\<close>

definition proper :: "(char \<Rightarrow> bool) \<Rightarrow> bool" where
  "proper safe \<longleftrightarrow> \<not> safe CHR ''%'' \<and> \<not> safe CHR ''+'' \<and> \<not> safe CHR ''&'' \<and> \<not> safe CHR ''?''
     \<and> \<not> safe CHR ''='' \<and> \<not> safe nul"

definition form_body :: "(char \<Rightarrow> bool) \<Rightarrow> (string \<times> string) list \<Rightarrow> string" where
  "form_body safe fields = join CHR ''&'' (map (\<lambda>(n, v). n @ CHR ''='' # url_encode safe v) fields)"

lemma hex_digit_code: "k < 16 \<Longrightarrow> ch_code (hex_digit k) = (if k < 10 then 48 + k else 55 + k)"
  by (simp add: hex_digit_def)

lemma hex_digit_ok:
  assumes "k < 16"
  shows "is_xdigit (hex_digit k)" "xdigit_value (hex_digit k) = k"
  using assms by (auto simp: is_xdigit_def is_digit_def xdigit_value_def hex_digit_code)

lemma decode_escaped:
  "decode_bytes (CHR ''%'' # hex_digit (ch_code c div 16) # hex_digit (ch_code c mod 16) # rest) = c # decode_bytes rest"
proof -
  have "ch_code c div 16 < 16" using ch_code_less [of c] by (simp add: less_mult_imp_div_less)
  moreover have "ch_code c mod 16 < 16" by simp
  moreover have "ch_code c div 16 * 16 + ch_code c mod 16 = ch_code c" by simp
  ultimately show ?thesis by (simp add: hex_digit_ok)
qed

lemma decode_plain: "c \<noteq> CHR ''%'' \<Longrightarrow> c \<noteq> CHR ''+'' \<Longrightarrow> decode_bytes (c # rest) = c # decode_bytes rest"
  by (cases rest rule: remdups_adj.cases) auto

lemma decode_encode:
  assumes "proper safe"
  shows "decode_bytes (url_encode safe s) = s"
proof (induction s)
  case (Cons c s)
  have cons: "url_encode safe (c # s) = (if safe c then c # url_encode safe s
      else CHR ''%'' # hex_digit (ch_code c div 16) # hex_digit (ch_code c mod 16) # url_encode safe s)"
    by (simp add: url_encode_def)
  show ?case
  proof (cases "safe c")
    case True
    then have "c \<noteq> CHR ''%''" "c \<noteq> CHR ''+''" using assms by (auto simp: proper_def)
    with True Cons.IH show ?thesis unfolding cons by (simp add: decode_plain)
  next
    case False
    with Cons.IH show ?thesis unfolding cons by (simp only: if_False decode_escaped)
  qed
qed (simp add: url_encode_def)

text \<open>What an encoded value can contain.\<close>

lemma hex_digit_plain: "k < 16 \<Longrightarrow> hex_digit k \<notin> {CHR ''&'', CHR ''?'', CHR ''=''}"
  using hex_digit_code [of k] by (auto simp: ch_code_def split: if_splits)

lemma encode_chars:
  assumes "proper safe" "c \<in> set (url_encode safe s)"
  shows "c \<noteq> CHR ''&'' \<and> c \<noteq> CHR ''?''"
proof -
  from assms(2) obtain d where d: "d \<in> set s" "c \<in> set (if safe d then [d]
      else [CHR ''%'', hex_digit (ch_code d div 16), hex_digit (ch_code d mod 16)])"
    unfolding url_encode_def set_concat set_map by blast
  have "ch_code d div 16 < 16" "ch_code d mod 16 < 16"
    using ch_code_less [of d] by (simp_all add: less_mult_imp_div_less)
  with d(2) assms(1) hex_digit_plain show ?thesis by (auto simp: proper_def split: if_splits)
qed

section \<open>Lookup\<close>

definition plain_name :: "string \<Rightarrow> bool" where
  "plain_name n \<longleftrightarrow> set n \<inter> {CHR ''&'', CHR ''?'', CHR ''=''} = {}"

lemma strchr_append: "c \<notin> set s \<Longrightarrow> strchr (s @ c # t) c = Some (c # t)"
  by (induction s) auto

lemma strchr_none: "c \<notin> set s \<Longrightarrow> strchr s c = None"
  by (induction s) auto

lemma takeWhile_stop: "c \<notin> set s \<Longrightarrow> takeWhile (\<lambda>x. x \<noteq> c) (s @ c # t) = s"
  by (induction s) auto

lemma takeWhile_whole: "c \<notin> set s \<Longrightarrow> takeWhile (\<lambda>x. x \<noteq> c) s = s"
  by (induction s) auto

lemma segment_first:
  assumes "CHR ''&'' \<notin> set s"
  shows "takeWhile (\<lambda>c. c \<noteq> CHR ''&'') (s @ CHR ''&'' # t) = s" "takeWhile (\<lambda>c. c \<noteq> CHR ''&'') s = s"
  using takeWhile_stop [OF assms] takeWhile_whole [OF assms] by simp_all

text \<open>A segment belongs to a name when the name is what comes before its first equals sign.\<close>

lemma segment_matches:
  assumes "CHR ''='' \<notin> set n" "CHR ''='' \<notin> set name"
  shows "length name < length (n @ CHR ''='' # v) \<and> take (length name) (n @ CHR ''='' # v) = name
     \<and> (n @ CHR ''='' # v) ! length name = CHR ''='' \<longleftrightarrow> n = name"
proof
  assume l: "length name < length (n @ CHR ''='' # v) \<and> take (length name) (n @ CHR ''='' # v) = name
     \<and> (n @ CHR ''='' # v) ! length name = CHR ''=''"
  define rest where "rest = drop (length name + 1) (n @ CHR ''='' # v)"
  have split: "n @ CHR ''='' # v = name @ CHR ''='' # rest"
    using l by (metis Cons_nth_drop_Suc Suc_eq_plus1 append_take_drop_id rest_def)
  have "takeWhile (\<lambda>c. c \<noteq> CHR ''='') (n @ CHR ''='' # v) = n"
    "takeWhile (\<lambda>c. c \<noteq> CHR ''='') (name @ CHR ''='' # rest) = name"
    using takeWhile_stop [OF assms(1)] takeWhile_stop [OF assms(2)] by simp_all
  then show "n = name" using split by metis
qed auto

definition matches :: "string \<Rightarrow> string \<Rightarrow> bool" where
  "matches segment name \<longleftrightarrow> length name < length segment \<and> take (length name) segment = name
     \<and> segment ! length name = CHR ''=''"

lemma param_from_steps:
  assumes "CHR ''&'' \<notin> set seg"
  shows "seg \<noteq> [] \<Longrightarrow> param_from (seg @ CHR ''&'' # t) name =
      (if matches seg name then Some (url_decode (drop (length name + 1) seg)) else param_from t name)"
    "param_from seg name =
      (if matches seg name then Some (url_decode (drop (length name + 1) seg)) else None)"
proof -
  show "param_from (seg @ CHR ''&'' # t) name =
      (if matches seg name then Some (url_decode (drop (length name + 1) seg)) else param_from t name)"
    if "seg \<noteq> []"
    using that by (subst param_from.simps)
      (simp add: segment_first [OF assms] strchr_append [OF assms] Let_def matches_def del: takeWhile_append)
  show "param_from seg name =
      (if matches seg name then Some (url_decode (drop (length name + 1) seg)) else None)"
    by (subst param_from.simps)
      (simp add: segment_first [OF assms] strchr_none [OF assms] Let_def matches_def)
qed

lemma param_from_form:
  assumes "proper safe" "\<forall>(n, v) \<in> set fields. plain_name n" "plain_name name"
  shows "param_from (form_body safe fields) name = map_option cstr (map_of fields name)"
  using assms(2)
proof (induction fields)
  case Nil
  then show ?case by (simp add: form_body_def param_from.simps)
next
  case (Cons f fields)
  obtain n v where f: "f = (n, v)" by force
  define seg where "seg = n @ CHR ''='' # url_encode safe v"
  have n: "CHR ''='' \<notin> set n" "CHR ''='' \<notin> set name" "CHR ''&'' \<notin> set n"
    using Cons.prems assms(3) f by (auto simp: plain_name_def)
  have amp: "CHR ''&'' \<notin> set seg" using n encode_chars [OF assms(1)] by (auto simp: seg_def)
  note match = segment_matches [OF n(1,2), of "url_encode safe v", folded seg_def, folded matches_def]
  have ne: "seg \<noteq> []" by (simp add: seg_def)
  have val: "url_decode (drop (length n + 1) seg) = cstr v"
    by (simp add: seg_def url_decode_def decode_encode [OF assms(1)])
  have IH: "param_from (form_body safe fields) name = map_option cstr (map_of fields name)"
    using Cons by simp
  show ?case
  proof (cases fields)
    case Nil
    have "param_from seg name = (if n = name then Some (cstr v) else None)"
      using val param_from_steps(2) [OF amp, of name] by (auto simp: match)
    then show ?thesis by (simp add: form_body_def Nil f seg_def)
  next
    case (Cons g gs)
    have body: "form_body safe (f # fields) = seg @ CHR ''&'' # form_body safe fields"
      by (simp add: form_body_def Cons f seg_def)
    have "param_from (seg @ CHR ''&'' # form_body safe fields) name
        = (if n = name then Some (cstr v) else param_from (form_body safe fields) name)"
      using val param_from_steps(1) [OF amp ne, of "form_body safe fields" name] by (auto simp: match)
    then show ?thesis using IH unfolding body by (simp add: f)
  qed
qed

section \<open>Properties\<close>



text \<open>A body with a bare question mark loses the fields before it: the search for the query part
  of a path is applied to bodies too.\<close>

theorem question_mark_drops_fields:
  assumes "plain_name name" "CHR ''?'' \<notin> set before" "CHR ''?'' \<notin> set after" "CHR ''&'' \<notin> set after"
    "CHR ''='' \<notin> set after"
  shows "api_query_param (Some (before @ CHR ''?'' # after)) name = None"
proof -
  have "\<not> matches after name"
    unfolding matches_def using assms(5) by (metis nth_mem)
  then have "param_from after name = None" by (simp only: param_from_steps(2) [OF assms(4)] if_False)
  then show ?thesis using strchr_append [OF assms(2)] by (simp add: api_query_param_def)
qed

theorem question_mark_drops_fields_witness:
  "api_query_param (Some ''action=save&id=x&name=why?'') ''action'' = None"
  using question_mark_drops_fields [of "''action''" "''action=save&id=x&name=why''" "[]"]
  by (simp add: plain_name_def)

end
