(* ===== verification/Json.thy ===== *)
theory Json
  imports CString
begin

text \<open>
  JSON text. The endpoints build their documents by hand with three different string escapers
  (\<^verbatim>\<open>app/api.c\<close> with its copy in \<^verbatim>\<open>app/main.c\<close>, \<^verbatim>\<open>app/procs.c\<close>, \<^verbatim>\<open>app/alerts.c\<close>) and
  \<^verbatim>\<open>app/mqtt.c\<close> with none. The reference is a parser for the grammar of RFC 8259 without white
  space between tokens. The locale \<open>json_escaping\<close> is what a document needs from its escaper;
  in it, the text of a tree parses back to the tree.
\<close>

section \<open>Trees and their text\<close>

datatype jval = JStr string | JNum string | JBool bool | JNull | JArr "jval list" | JObj "(string \<times> jval) list"

definition quoted :: "string \<Rightarrow> string" where
  "quoted s = CHR 0x22 # s @ [CHR 0x22]"

definition json_bool :: "bool \<Rightarrow> string" where
  "json_bool b = (if b then ''true'' else ''false'')"

primrec render :: "(string \<Rightarrow> string) \<Rightarrow> jval \<Rightarrow> string" where
  "render esc (JStr s) = quoted (esc s)"
| "render esc (JNum s) = s"
| "render esc (JBool b) = json_bool b"
| "render esc JNull = ''null''"
| "render esc (JArr vs) = CHR ''['' # join CHR '','' (map (render esc) vs) @ '']''"
| "render esc (JObj ms) = CHR ''{'' # join CHR '','' (map (\<lambda>(k, s). quoted (esc k) @ CHR '':'' # s)
     (map (map_prod id (render esc)) ms)) @ ''}''"

section \<open>The reference parser\<close>

text \<open>A string after its opening quote.\<close>

definition simple_escape :: "char \<Rightarrow> char option" where
  "simple_escape e = (if e = CHR 0x22 \<or> e = CHR 0x5C \<or> e = CHR ''/'' then Some e
     else if e = CHR ''b'' then Some (char_of (8 :: nat)) else if e = CHR ''f'' then Some (char_of (12 :: nat))
     else if e = CHR ''n'' then Some (char_of (10 :: nat)) else if e = CHR ''r'' then Some (char_of (13 :: nat))
     else if e = CHR ''t'' then Some (char_of (9 :: nat)) else None)"

definition cons_char :: "char \<Rightarrow> (string \<times> string) option \<Rightarrow> (string \<times> string) option" where
  "cons_char c r = map_option (\<lambda>(s, rest). (c # s, rest)) r"

text \<open>Escapes of code points from 256 on do not occur in the program's output and are rejected.\<close>

fun parse_string :: "string \<Rightarrow> (string \<times> string) option" where
  "parse_string [] = None"
| "parse_string (c # cs) = (if c = CHR 0x22 then Some ([], cs)
     else if c \<noteq> CHR 0x5C then (if ch_code c < 32 then None else cons_char c (parse_string cs))
     else (case cs of [] \<Rightarrow> None
       | e # rest \<Rightarrow> if e = CHR ''u'' then
           (case rest of h1 # h2 # h3 # h4 # rest' \<Rightarrow>
              if h1 = CHR ''0'' \<and> h2 = CHR ''0'' \<and> is_xdigit h3 \<and> is_xdigit h4
              then cons_char (char_of (xdigit_value h3 * 16 + xdigit_value h4)) (parse_string rest') else None
            | _ \<Rightarrow> None)
         else (case simple_escape e of Some d \<Rightarrow> cons_char d (parse_string rest) | None \<Rightarrow> None)))"

definition num_char :: "char \<Rightarrow> bool" where
  "num_char c \<longleftrightarrow> is_digit c \<or> c \<in> {CHR ''-'', CHR ''+'', CHR ''.'', CHR ''e'', CHR ''E''}"

definition exponent_ok :: "string \<Rightarrow> bool" where
  "exponent_ok s \<longleftrightarrow> s = [] \<or> (hd s \<in> {CHR ''e'', CHR ''E''}
     \<and> (let t = tl s; u = (if t \<noteq> [] \<and> hd t \<in> {CHR ''-'', CHR ''+''} then tl t else t)
        in u \<noteq> [] \<and> list_all is_digit u))"

definition json_number :: "string \<Rightarrow> bool" where
  "json_number s \<longleftrightarrow> (let t = (if s \<noteq> [] \<and> hd s = CHR ''-'' then tl s else s);
       whole = takeWhile is_digit t; r = dropWhile is_digit t in
     list_all num_char s \<and> whole \<noteq> [] \<and> (hd whole = CHR ''0'' \<longrightarrow> length whole = 1)
     \<and> (if r \<noteq> [] \<and> hd r = CHR ''.''
        then takeWhile is_digit (tl r) \<noteq> [] \<and> exponent_ok (dropWhile is_digit (tl r)) else exponent_ok r))"

text \<open>Values, elements and members; \<open>fuel\<close> more than the length of the text is enough.\<close>

fun parse_value :: "nat \<Rightarrow> string \<Rightarrow> (jval \<times> string) option"
  and parse_elements :: "nat \<Rightarrow> string \<Rightarrow> (jval list \<times> string) option"
  and parse_members :: "nat \<Rightarrow> string \<Rightarrow> ((string \<times> jval) list \<times> string) option" where
  "parse_value 0 s = None"
| "parse_value (Suc n) s = (if s = [] then None
     else if hd s = CHR 0x22 then map_option (\<lambda>(t, rest). (JStr t, rest)) (parse_string (tl s))
     else if hd s = CHR ''['' then
       (if tl s \<noteq> [] \<and> hd (tl s) = CHR '']'' then Some (JArr [], tl (tl s))
        else map_option (\<lambda>(vs, rest). (JArr vs, rest)) (parse_elements n (tl s)))
     else if hd s = CHR ''{'' then
       (if tl s \<noteq> [] \<and> hd (tl s) = CHR ''}'' then Some (JObj [], tl (tl s))
        else map_option (\<lambda>(ms, rest). (JObj ms, rest)) (parse_members n (tl s)))
     else if has_prefix s ''true'' then Some (JBool True, drop 4 s)
     else if has_prefix s ''false'' then Some (JBool False, drop 5 s)
     else if has_prefix s ''null'' then Some (JNull, drop 4 s)
     else if json_number (takeWhile num_char s) then Some (JNum (takeWhile num_char s), dropWhile num_char s)
     else None)"
| "parse_elements 0 s = None"
| "parse_elements (Suc n) s = (case parse_value n s of None \<Rightarrow> None
     | Some (v, rest) \<Rightarrow> if rest = [] then None
         else if hd rest = CHR '']'' then Some ([v], tl rest)
         else if hd rest = CHR '','' then map_option (\<lambda>(vs, r). (v # vs, r)) (parse_elements n (tl rest))
         else None)"
| "parse_members 0 s = None"
| "parse_members (Suc n) s = (if s = [] \<or> hd s \<noteq> CHR 0x22 then None
     else case parse_string (tl s) of None \<Rightarrow> None
     | Some (k, after) \<Rightarrow> if after = [] \<or> hd after \<noteq> CHR '':'' then None
         else case parse_value n (tl after) of None \<Rightarrow> None
         | Some (v, rest) \<Rightarrow> if rest = [] then None
             else if hd rest = CHR ''}'' then Some ([(k, v)], tl rest)
             else if hd rest = CHR '','' then map_option (\<lambda>(ms, r). ((k, v) # ms, r)) (parse_members n (tl rest))
             else None)"

definition parse_json :: "string \<Rightarrow> jval option" where
  "parse_json s = (case parse_value (length s + 1) s of Some (v, []) \<Rightarrow> Some v | _ \<Rightarrow> None)"

section \<open>The text of a tree parses back to the tree\<close>

text \<open>The strings a tree may hold are a parameter, as the escapers differ in what they handle.\<close>

primrec tree_ok :: "(string \<Rightarrow> bool) \<Rightarrow> jval \<Rightarrow> bool" where
  "tree_ok ok (JStr s) = ok s"
| "tree_ok ok (JNum s) = json_number s"
| "tree_ok ok (JBool b) = True"
| "tree_ok ok JNull = True"
| "tree_ok ok (JArr vs) = list_all (\<lambda>b. b) (map (tree_ok ok) vs)"
| "tree_ok ok (JObj ms) = list_all (\<lambda>(k, b). ok k \<and> b) (map (map_prod id (tree_ok ok)) ms)"

lemma tree_ok_JArr [simp]: "tree_ok ok (JArr vs) \<longleftrightarrow> (\<forall>v \<in> set vs. tree_ok ok v)"
  by (simp add: list_all_iff)

lemma tree_ok_JObj [simp]: "tree_ok ok (JObj ms) \<longleftrightarrow> (\<forall>(k, v) \<in> set ms. ok k \<and> tree_ok ok v)"
  by (auto simp: list_all_iff)

definition member_text :: "(string \<Rightarrow> string) \<Rightarrow> string \<times> jval \<Rightarrow> string" where
  "member_text esc m = quoted (esc (fst m)) @ CHR '':'' # render esc (snd m)"

lemma render_JObj: "render esc (JObj ms) = CHR ''{'' # join CHR '','' (map (member_text esc) ms) @ ''}''"
proof -
  have "map (\<lambda>(k, s). quoted (esc k) @ CHR '':'' # s) (map (map_prod id (render esc)) ms) = map (member_text esc) ms"
    by (simp add: member_text_def case_prod_beta)
  then show ?thesis by (simp only: render.simps)
qed

lemma render_members:
  "render esc (JObj ms) = CHR ''{'' # join CHR '','' (map (\<lambda>m. quoted (esc (fst m)) @ CHR '':'' # render esc (snd m)) ms) @ ''}''"
  unfolding render_JObj member_text_def ..

lemmas render_simps = render.simps(1-5) render_members

declare tree_ok.simps(5,6) [simp del] render.simps(6) [simp del]

definition delimited :: "string \<Rightarrow> bool" where
  "delimited rest \<longleftrightarrow> rest = [] \<or> \<not> num_char (hd rest)"

lemma delimited_simps [simp]:
  "delimited []" "delimited (CHR '','' # r)" "delimited (CHR '']'' # r)" "delimited (CHR ''}'' # r)"
  by (simp_all add: delimited_def num_char_def is_digit_def ch_code_def)

lemma has_prefix_Cons: "has_prefix (c # s) (d # p) \<longleftrightarrow> c = d \<and> has_prefix s p"
  by (auto simp: has_prefix_def)

lemma json_number_shape: "json_number s \<Longrightarrow> s \<noteq> [] \<and> list_all num_char s"
  by (auto simp: json_number_def Let_def)

lemma parse_number:
  assumes "json_number s" "delimited rest" "0 < n"
  shows "parse_value n (s @ rest) = Some (JNum s, rest)"
proof -
  obtain c t where s: "s = c # t" using json_number_shape [OF assms(1)] by (cases s) auto
  have c: "num_char c" using json_number_shape [OF assms(1)] s by simp
  then have ne: "c \<noteq> CHR 0x22" "c \<noteq> CHR ''[''" "c \<noteq> CHR ''{''" "c \<noteq> CHR ''t''" "c \<noteq> CHR ''f''" "c \<noteq> CHR ''n''"
    by (auto simp: num_char_def is_digit_def ch_code_def)
  have all: "\<forall>x \<in> set s. num_char x" using json_number_shape [OF assms(1)] by (simp add: list_all_iff)
  have "takeWhile num_char (s @ rest) = s" "dropWhile num_char (s @ rest) = rest"
    using all assms(2) by (cases rest; simp add: delimited_def takeWhile_append dropWhile_append)+
  moreover obtain m where "n = Suc m" using assms(3) by (cases n) auto
  ultimately show ?thesis using ne assms(1) s by (simp add: has_prefix_Cons)
qed

lemma render_first:
  assumes "tree_ok ok v"
  shows "render esc v \<noteq> []" "hd (render esc v) \<noteq> CHR '']''"
proof -
  have num: "c \<noteq> CHR '']''" if "num_char c" for c
    using that by (auto simp: num_char_def is_digit_def ch_code_def)
  have "render esc v \<noteq> [] \<and> hd (render esc v) \<noteq> CHR '']''"
  proof (cases v)
    case (JNum s)
    then have "s \<noteq> []" "list_all num_char s" using assms json_number_shape by auto
    with num [of "hd s"] show ?thesis by (cases s) (simp_all add: JNum)
  qed (simp_all add: quoted_def json_bool_def render_JObj)
  then show "render esc v \<noteq> []" "hd (render esc v) \<noteq> CHR '']''" by simp_all
qed

text \<open>Escaping character by character: enough that each escape reads back as its character.\<close>

lemma parse_string_concat:
  assumes "\<forall>c \<in> set s. \<forall>r. parse_string (e c @ r) = cons_char c (parse_string r)"
  shows "parse_string (concat (map e s) @ CHR 0x22 # rest) = Some (s, rest)"
  using assms by (induction s) (simp_all add: cons_char_def)

lemma parse_string_plain: "c \<noteq> CHR 0x22 \<Longrightarrow> c \<noteq> CHR 0x5C \<Longrightarrow> 32 \<le> ch_code c \<Longrightarrow>
    parse_string (c # r) = cons_char c (parse_string r)"
  by simp

lemma parse_simple_escape: "simple_escape e = Some d \<Longrightarrow>
    parse_string (CHR 0x5C # e # r) = cons_char d (parse_string r)"
  by (auto simp: simple_escape_def)

text \<open>Decimal numbers are JSON numbers.\<close>

lemma json_number_digits:
  assumes "s \<noteq> []" "list_all is_digit s" "hd s = CHR ''0'' \<longrightarrow> length s = 1"
  shows "json_number s" "json_number (CHR ''-'' # s)"
proof -
  have t: "takeWhile is_digit s = s" "dropWhile is_digit s = []" "list_all num_char s"
    using assms(2) by (auto simp: takeWhile_eq_all_conv list_all_iff num_char_def)
  have d: "\<forall>c \<in> set s. is_digit c" using assms(2) by (simp add: list_all_iff)
  have "hd s \<noteq> CHR ''-''" using assms(1,2) by (cases s) (auto simp: is_digit_def ch_code_def)
  then show "json_number s" using assms d by (simp add: t json_number_def exponent_ok_def Let_def)
  show "json_number (CHR ''-'' # s)" using assms d by (simp add: t json_number_def exponent_ok_def Let_def num_char_def)
qed

lemma json_number_show: "json_number (show_nat n)" "json_number (show_int k)"
proof -
  have "list_all is_digit (show_nat n)" for n using show_nat_digits by (auto simp: list_all_iff)
  note d = json_number_digits [OF show_nat_nonempty this show_nat_leading]
  show "json_number (show_nat n)" by (rule d)
  show "json_number (show_int k)" using d by (simp add: show_int_def)
qed

locale json_escaping =
  fixes esc :: "string \<Rightarrow> string"
    and ok :: "string \<Rightarrow> bool"
  assumes unescape: "ok s \<Longrightarrow> parse_string (esc s @ CHR 0x22 # rest) = Some (s, rest)"
begin

definition parses :: "jval \<Rightarrow> bool" where
  "parses v \<longleftrightarrow> (\<forall>n rest. length (render esc v) < n \<and> delimited rest
     \<longrightarrow> parse_value n (render esc v @ rest) = Some (v, rest))"

lemma parsesD: "parses v \<Longrightarrow> length (render esc v) < n \<Longrightarrow> delimited rest \<Longrightarrow>
    parse_value n (render esc v @ rest) = Some (v, rest)"
  by (simp add: parses_def)

lemma parse_elements_join:
  assumes "vs \<noteq> []" "\<forall>v \<in> set vs. parses v \<and> tree_ok ok v"
    "length (join CHR '','' (map (render esc) vs)) + 1 < n"
  shows "parse_elements n (join CHR '','' (map (render esc) vs) @ CHR '']'' # rest) = Some (vs, rest)"
  using assms
proof (induction vs arbitrary: n)
  case (Cons v vs)
  from Cons.prems(3) obtain m where n: "n = Suc m" by (cases n) auto
  have v: "parses v" using Cons.prems(2) by simp
  show ?case
  proof (cases vs)
    case Nil
    have "length (render esc v) < m" using Cons.prems(3) n Nil by simp
    then show ?thesis using parsesD [OF v] by (simp add: n Nil)
  next
    case (Cons w ws)
    have "parse_value m (render esc v @ CHR '','' # join CHR '','' (map (render esc) vs) @ CHR '']'' # rest)
        = Some (v, CHR '','' # join CHR '','' (map (render esc) vs) @ CHR '']'' # rest)"
      by (rule parsesD [OF v]) (use Cons.prems(3) n Cons in auto)
    moreover have "parse_elements m (join CHR '','' (map (render esc) vs) @ CHR '']'' # rest) = Some (vs, rest)"
      by (rule Cons.IH) (use Cons.prems n Cons in auto)
    ultimately show ?thesis using Cons by (simp add: n)
  qed
qed simp

lemma parse_member:
  assumes "ok (fst m)" "parses (snd m)" "length (member_text esc m) < n" "delimited (c # rest)"
  shows "parse_string (tl (member_text esc m @ c # rest)) = Some (fst m, CHR '':'' # render esc (snd m) @ c # rest)"
    "parse_value n (render esc (snd m) @ c # rest) = Some (snd m, c # rest)"
    "hd (member_text esc m @ c # rest) = CHR 0x22"
  using unescape [OF assms(1)] parsesD [OF assms(2) _ assms(4), of n] assms(3)
  by (auto simp: member_text_def quoted_def)

lemma parse_members_join:
  assumes "ms \<noteq> []" "\<forall>(k, v) \<in> set ms. ok k \<and> parses v"
    "length (join CHR '','' (map (member_text esc) ms)) + 1 < n"
  shows "parse_members n (join CHR '','' (map (member_text esc) ms) @ CHR ''}'' # rest) = Some (ms, rest)"
  using assms
proof (induction ms arbitrary: n)
  case (Cons m ms)
  from Cons.prems(3) obtain k where n: "n = Suc k" by (cases n) auto
  have m: "ok (fst m)" "parses (snd m)" using Cons.prems(2) by auto
  have ne: "member_text esc m \<noteq> []" by (simp add: member_text_def quoted_def)
  show ?case
  proof (cases ms)
    case Nil
    have "length (member_text esc m) < k" using Cons.prems(3) n Nil by simp
    from parse_member [OF m this, of "CHR ''}''" rest] show ?thesis using ne by (simp add: n Nil)
  next
    case (Cons w ws)
    define tail where "tail = join CHR '','' (map (member_text esc) ms) @ CHR ''}'' # rest"
    have "length (member_text esc m) < k" using Cons.prems(3) n Cons by simp
    note p = parse_member [OF m this, of "CHR '',''" tail]
    moreover have "parse_members k tail = Some (ms, rest)"
      unfolding tail_def by (rule Cons.IH) (use Cons.prems n Cons in auto)
    moreover have "join CHR '','' (map (member_text esc) (m # ms)) @ CHR ''}'' # rest
        = member_text esc m @ CHR '','' # tail" using Cons by (simp add: tail_def)
    ultimately show ?thesis using ne by (simp only: n parse_members.simps) simp
  qed
qed simp

lemma parses_tree: "tree_ok ok v \<Longrightarrow> parses v"
proof (induction v)
  case (JStr s)
  have "parse_value n (render esc (JStr s) @ rest) = Some (JStr s, rest)" if "0 < n" for n rest
    using unescape [of s rest] JStr that by (cases n) (simp_all add: quoted_def)
  then show ?case by (simp add: parses_def)
next
  case (JNum s)
  then show ?case by (auto simp: parses_def intro!: parse_number)
next
  case (JBool b)
  have "parse_value n (json_bool b @ rest) = Some (JBool b, rest)" if "0 < n" for n rest
    using that by (cases n) (simp_all add: json_bool_def has_prefix_def)
  then show ?case by (simp add: parses_def)
next
  case JNull
  have "parse_value n (''null'' @ rest) = Some (JNull, rest)" if "0 < n" for n rest
    using that by (cases n) (simp_all add: has_prefix_def)
  then show ?case by (simp add: parses_def)
next
  case (JArr vs)
  have all: "\<forall>v \<in> set vs. parses v \<and> tree_ok ok v" using JArr by auto
  show ?case unfolding parses_def
  proof (intro allI impI)
    fix n rest assume n: "length (render esc (JArr vs)) < n \<and> delimited rest"
    then obtain m where m: "n = Suc m" by (cases n) auto
    show "parse_value n (render esc (JArr vs) @ rest) = Some (JArr vs, rest)"
    proof (cases vs)
      case Nil
      then show ?thesis by (simp add: m)
    next
      case (Cons v ws)
      define body where "body = join CHR '','' (map (render esc) vs)"
      have "tree_ok ok v" using all Cons by simp
      from render_first [OF this, of esc] have "body \<noteq> [] \<and> hd body \<noteq> CHR '']''"
        by (cases ws) (simp_all add: body_def Cons)
      moreover have "parse_elements m (body @ CHR '']'' # rest) = Some (vs, rest)"
        unfolding body_def by (rule parse_elements_join) (use n m all Cons in auto)
      ultimately show ?thesis by (simp add: m flip: body_def)
    qed
  qed
next
  case (JObj ms)
  have all: "\<forall>(k, v) \<in> set ms. ok k \<and> parses v" using JObj by fastforce
  show ?case unfolding parses_def
  proof (intro allI impI)
    fix n rest assume n: "length (render esc (JObj ms)) < n \<and> delimited rest"
    then obtain m where m: "n = Suc m" by (cases n) auto
    show "parse_value n (render esc (JObj ms) @ rest) = Some (JObj ms, rest)"
    proof (cases ms)
      case Nil
      then show ?thesis by (simp add: m render_JObj)
    next
      case (Cons x xs)
      define body where "body = join CHR '','' (map (member_text esc) ms)"
      have "body \<noteq> [] \<and> hd body = CHR 0x22"
        by (cases xs) (simp_all add: body_def Cons member_text_def quoted_def)
      moreover have "parse_members m (body @ CHR ''}'' # rest) = Some (ms, rest)"
        unfolding body_def by (rule parse_members_join) (use n m all Cons in \<open>auto simp: render_JObj\<close>)
      ultimately show ?thesis by (simp add: m render_JObj flip: body_def)
    qed
  qed
qed

lemma parse_render: "tree_ok ok v \<Longrightarrow> parse_json (render esc v) = Some v"
  using parsesD [OF parses_tree, of v "length (render esc v) + 1" "[]"] by (simp add: parse_json_def)

end

section \<open>Escapes of control characters\<close>

definition hex_lower :: "nat \<Rightarrow> char" where
  "hex_lower k = (if k < 10 then char_of (48 + k) else char_of (87 + k))"

text \<open>\<open>\u%04x\<close> of a control character.\<close>

definition unicode_escape :: "char \<Rightarrow> string" where
  "unicode_escape c = [CHR 0x5C, CHR ''u'', CHR ''0'', CHR ''0'', hex_lower (ch_code c div 16), hex_lower (ch_code c mod 16)]"

lemma hex_lower_ok:
  assumes "k < 16"
  shows "is_xdigit (hex_lower k)" "xdigit_value (hex_lower k) = k"
proof -
  have "ch_code (hex_lower k) = (if k < 10 then 48 + k else 87 + k)" using assms by (simp add: hex_lower_def)
  then show "is_xdigit (hex_lower k)" "xdigit_value (hex_lower k) = k"
    using assms by (auto simp: is_xdigit_def is_digit_def xdigit_value_def)
qed

lemma parse_unicode_escape: "ch_code c < 32 \<Longrightarrow> parse_string (unicode_escape c @ r) = cons_char c (parse_string r)"
proof -
  assume "ch_code c < 32"
  then have "ch_code c div 16 < 16" "ch_code c mod 16 < 16" by simp_all
  moreover have "ch_code c div 16 * 16 + ch_code c mod 16 = ch_code c" by simp
  ultimately show ?thesis by (simp add: unicode_escape_def hex_lower_ok)
qed

end
