(* ===== verification/Alerts.thy ===== *)
theory Alerts
  imports Metrics Floats Query Json
begin

text \<open>
  \<^verbatim>\<open>app/alerts.h\<close>, \<^verbatim>\<open>app/alerts.c\<close>: threshold rules. The state is the list of rules; what the
  component does to the outside (declarations and events of the device's event system, the
  notify callback, the rules file) is a list of outputs in order. Not under \<^verbatim>\<open>src/\<close> and therefore
  parameters: the result of declaring an event, \<open>g_ascii_strtod\<close> and the \<open>%g\<close> format. The rules
  file is the list of groups a \<open>GKeyFile\<close> holds; its text is GLib's. A NULL dereference is \<open>None\<close>.
\<close>

section \<open>Data\<close>

datatype alert_op = ALERT_ABOVE | ALERT_BELOW

record alert_rule =
  ar_id :: string
  ar_name :: string
  ar_metric :: string
  ar_op :: alert_op
  ar_threshold :: double
  ar_duration_s :: guint
  ar_enabled :: bool
  ar_builtin :: bool
  ar_firing :: bool
  ar_breach_since :: gint64
  ar_fired_at :: gint64
  ar_last_value :: double
  ar_declaration :: guint

text \<open>A group of the rules file: the strings, or \<open>None\<close> where the key is missing.\<close>

record key_group =
  kg_id :: string
  kg_name :: "string option"
  kg_metric :: "string option"
  kg_op :: "string option"
  kg_threshold :: double
  kg_duration :: int
  kg_enabled :: bool
  kg_builtin :: bool

datatype alert_output =
  Declared string guint
| StateEvent guint bool
| Notified alert_rule bool
| Saved "key_group list"

record alerts =
  al_rules :: "alert_rule list"
  al_events :: bool
  al_notify :: bool

type_synonym declare_event = "alert_rule \<Rightarrow> guint option"

definition MAX_RULES :: nat where "MAX_RULES = 64"

definition RULE_ID_SIZE :: nat where "RULE_ID_SIZE = 48"

definition RULE_NAME_SIZE :: nat where "RULE_NAME_SIZE = 96"

definition zero_rule :: alert_rule where
  "zero_rule = \<lparr>ar_id = [], ar_name = [], ar_metric = [], ar_op = ALERT_ABOVE, ar_threshold = DFin 0,
     ar_duration_s = 0, ar_enabled = False, ar_builtin = False, ar_firing = False, ar_breach_since = 0,
     ar_fired_at = 0, ar_last_value = DFin 0, ar_declaration = 0\<rparr>"

definition builtin_rule :: "string \<Rightarrow> string \<Rightarrow> string \<Rightarrow> double \<Rightarrow> guint \<Rightarrow> alert_rule" where
  "builtin_rule key name metric threshold duration = zero_rule\<lparr>ar_id := key, ar_name := name,
     ar_metric := metric, ar_threshold := threshold, ar_duration_s := duration, ar_enabled := True,
     ar_builtin := True\<rparr>"

definition BUILTIN :: "alert_rule list" where
  "BUILTIN = [builtin_rule ''cpu_high'' ''CPU usage high'' ''cpu.usage'' (DFin 90) 300,
     builtin_rule ''memory_high'' ''Memory usage high'' ''mem.usage'' (DFin 90) 300,
     builtin_rule ''temperature_high'' ''Temperature high'' ''sensor.CPU'' (DFin 85) 120]"

section \<open>The rules and their file\<close>

fun op_name :: "alert_op \<Rightarrow> string" where
  "op_name ALERT_BELOW = ''below''"
| "op_name ALERT_ABOVE = ''above''"

definition op_from :: "string option \<Rightarrow> alert_op" where
  "op_from name = (if name = Some ''below'' then ALERT_BELOW else ALERT_ABOVE)"

text \<open>The index of a rule.\<close>

fun find_rule_from :: "nat \<Rightarrow> alert_rule list \<Rightarrow> string \<Rightarrow> nat option" where
  "find_rule_from i [] key = None"
| "find_rule_from i (r # rs) key = (if ar_id r = key then Some i else find_rule_from (Suc i) rs key)"

definition find_rule :: "alert_rule list \<Rightarrow> string \<Rightarrow> nat option" where
  "find_rule rules key = find_rule_from 0 rules key"

definition rule_group :: "alert_rule \<Rightarrow> key_group" where
  "rule_group rule = \<lparr>kg_id = ar_id rule, kg_name = Some (ar_name rule), kg_metric = Some (ar_metric rule),
     kg_op = Some (op_name (ar_op rule)), kg_threshold = ar_threshold rule,
     kg_duration = sint (ar_duration_s rule), kg_enabled = ar_enabled rule, kg_builtin = ar_builtin rule\<rparr>"

text \<open>Setting the keys of a group replaces them where the group exists.\<close>

definition set_group :: "key_group list \<Rightarrow> key_group \<Rightarrow> key_group list" where
  "set_group groups g = (if kg_id g \<in> set (map kg_id groups)
     then map (\<lambda>h. if kg_id h = kg_id g then g else h) groups else groups @ [g])"

definition save_rules :: "alert_rule list \<Rightarrow> key_group list" where
  "save_rules rules = foldl (\<lambda>file rule. set_group file (rule_group rule)) [] rules"

definition add_rule :: "alert_rule list \<Rightarrow> alert_rule \<Rightarrow> alert_rule list \<times> bool" where
  "add_rule rules source = (if MAX_RULES \<le> length rules \<or> find_rule rules (ar_id source) \<noteq> None
     then (rules, False) else (rules @ [source], True))"

definition group_rule :: "key_group \<Rightarrow> alert_rule" where
  "group_rule g = zero_rule\<lparr>ar_id := strlcpy RULE_ID_SIZE (kg_id g),
     ar_name := strlcpy RULE_NAME_SIZE (case kg_name g of Some n \<Rightarrow> n | None \<Rightarrow> kg_id g),
     ar_metric := strlcpy METRIC_ID_MAX (case kg_metric g of Some m \<Rightarrow> m | None \<Rightarrow> []),
     ar_op := op_from (kg_op g), ar_threshold := kg_threshold g,
     ar_duration_s := word_of_int (kg_duration g), ar_enabled := kg_enabled g, ar_builtin := kg_builtin g\<rparr>"

fun load_groups :: "key_group list \<Rightarrow> alert_rule list \<Rightarrow> alert_rule list" where
  "load_groups [] rules = rules"
| "load_groups (g # gs) rules = (if length rules < MAX_RULES
     then load_groups gs (if ar_metric (group_rule g) \<noteq> [] then fst (add_rule rules (group_rule g)) else rules)
     else rules)"

definition load_rules :: "key_group list option \<Rightarrow> alert_rule list \<Rightarrow> alert_rule list" where
  "load_rules file rules = (case file of None \<Rightarrow> rules | Some groups \<Rightarrow> load_groups groups rules)"

section \<open>Events\<close>

definition declare_rule :: "bool \<Rightarrow> declare_event \<Rightarrow> alert_rule \<Rightarrow> alert_rule \<times> alert_output list" where
  "declare_rule events declare rule = (if \<not> events \<or> ar_declaration rule \<noteq> 0 then (rule, [])
     else case declare rule of
       Some declaration \<Rightarrow> (rule\<lparr>ar_declaration := declaration\<rparr>, [Declared (ar_id rule) declaration])
     | None \<Rightarrow> (rule, []))"

definition send_state :: "bool \<Rightarrow> alert_rule \<Rightarrow> alert_output list" where
  "send_state events rule = (if \<not> events \<or> ar_declaration rule = 0 then []
     else [StateEvent (ar_declaration rule) (ar_firing rule)])"

section \<open>Start-up\<close>

definition prune_stale_builtins :: "alert_rule list \<Rightarrow> string set \<Rightarrow> alert_rule list" where
  "prune_stale_builtins rules expected = filter (\<lambda>r. \<not> (ar_builtin r \<and> ar_id r \<notin> expected)) rules"

text \<open>
  \<open>g_strndup (id + 3, strlen (id) - 3 - strlen (".usage"))\<close>: the length wraps for an id shorter
  than both, and the copy stops at the end of the string.
\<close>

definition fs_area :: "string \<Rightarrow> string" where
  "fs_area key = (if length key < 9 then drop 3 key else take (length key - 9) (drop 3 key))"

definition is_fs_usage :: "string \<Rightarrow> bool" where
  "is_fs_usage key \<longleftrightarrow> has_prefix key ''fs.'' \<and> has_suffix key ''.usage''"

definition storage_rule_id :: "string \<Rightarrow> string" where
  "storage_rule_id key = ''storage_full_'' @ fs_area key"

definition add_storage_rule :: "alert_rule list \<Rightarrow> string \<Rightarrow> alert_rule list" where
  "add_storage_rule rules key = (if find_rule rules (storage_rule_id key) = None
     then fst (add_rule rules (builtin_rule (strlcpy RULE_ID_SIZE (storage_rule_id key))
       (strlcpy RULE_NAME_SIZE (fs_area key @ '' almost full'')) (strlcpy METRIC_ID_MAX key) (DFin 90) 300))
     else rules)"

definition expected_builtins :: "metric_registry \<Rightarrow> string set" where
  "expected_builtins registry =
     set (map ar_id (filter (\<lambda>b. 0 \<le> metrics_find registry (ar_metric b)) BUILTIN))
     \<union> set (map storage_rule_id (filter is_fs_usage (reg_ids registry)))"

definition add_builtin_rule :: "metric_registry \<Rightarrow> alert_rule list \<Rightarrow> alert_rule \<Rightarrow> alert_rule list" where
  "add_builtin_rule registry rules b = (if find_rule rules (ar_id b) \<noteq> None then rules
     else if metrics_find registry (ar_metric b) < 0 then rules
     else fst (add_rule rules b))"

definition startup_rules :: "metric_registry \<Rightarrow> key_group list option \<Rightarrow> alert_rule list" where
  "startup_rules registry file = (let
     loaded = load_rules file [];
     with_storage = foldl add_storage_rule loaded (filter is_fs_usage (reg_ids registry));
     with_builtins = foldl (add_builtin_rule registry) with_storage BUILTIN
   in prune_stale_builtins with_builtins (expected_builtins registry))"

definition alerts_new :: "metric_registry \<Rightarrow> bool \<Rightarrow> declare_event \<Rightarrow> key_group list option
    \<Rightarrow> alerts \<times> alert_output list" where
  "alerts_new registry events declare file = (let
     declared = map (declare_rule events declare) (startup_rules registry file);
     rules = map fst declared
   in (\<lparr>al_rules = rules, al_events = events, al_notify = False\<rparr>,
       concat (map snd declared) @ [Saved (save_rules rules)]))"

definition alerts_set_notify :: "alerts \<Rightarrow> bool \<Rightarrow> alerts" where
  "alerts_set_notify alerts notify = alerts\<lparr>al_notify := notify\<rparr>"

section \<open>Evaluation\<close>

definition breached :: "alert_rule \<Rightarrow> gfloat \<Rightarrow> bool" where
  "breached rule v = (case ar_op rule of
     ALERT_ABOVE \<Rightarrow> dlt (ar_threshold rule) (f32_to_double v)
   | ALERT_BELOW \<Rightarrow> dlt (f32_to_double v) (ar_threshold rule))"

definition notify_of :: "bool \<Rightarrow> alert_rule \<Rightarrow> bool \<Rightarrow> alert_output list" where
  "notify_of notify rule firing = (if notify then [Notified rule firing] else [])"

definition evaluate_rule :: "metric_registry \<Rightarrow> bool \<Rightarrow> bool \<Rightarrow> gint64 \<Rightarrow> gfloat list \<Rightarrow> alert_rule
    \<Rightarrow> (alert_rule \<times> alert_output list) option" where
  "evaluate_rule registry events notify now values rule = (let index = metrics_find registry (ar_metric rule) in
     if index < 0 \<or> \<not> ar_enabled rule then Some (rule\<lparr>ar_breach_since := 0\<rparr>, [])
     else do {
       v \<leftarrow> arr_get values (nat index);
       if f32_isnan v then Some (rule\<lparr>ar_breach_since := 0\<rparr>, [])
       else let rule1 = rule\<lparr>ar_last_value := f32_to_double v\<rparr> in
         if \<not> breached rule1 v then
           let rule2 = rule1\<lparr>ar_breach_since := 0\<rparr> in
           if ar_firing rule2
           then let rule3 = rule2\<lparr>ar_firing := False\<rparr> in
             Some (rule3, send_state events rule3 @ notify_of notify rule3 False)
           else Some (rule2, [])
         else
           let rule2 = (if ar_breach_since rule1 = 0 then rule1\<lparr>ar_breach_since := now\<rparr> else rule1) in
           if \<not> ar_firing rule2 \<and> int (unat (ar_duration_s rule2)) \<le> now - ar_breach_since rule2
           then let rule3 = rule2\<lparr>ar_firing := True, ar_fired_at := now\<rparr> in
             Some (rule3, send_state events rule3 @ notify_of notify rule3 True)
           else Some (rule2, [])
     })"

fun evaluate_rules :: "metric_registry \<Rightarrow> bool \<Rightarrow> bool \<Rightarrow> gint64 \<Rightarrow> gfloat list \<Rightarrow> alert_rule list
    \<Rightarrow> (alert_rule list \<times> alert_output list) option" where
  "evaluate_rules registry events notify now values [] = Some ([], [])"
| "evaluate_rules registry events notify now values (r # rs) = do {
     (r', out) \<leftarrow> evaluate_rule registry events notify now values r;
     (rs', outs) \<leftarrow> evaluate_rules registry events notify now values rs;
     Some (r' # rs', out @ outs)
   }"

definition alerts_evaluate :: "metric_registry \<Rightarrow> alerts \<Rightarrow> gint64 \<Rightarrow> gfloat list
    \<Rightarrow> (alerts \<times> alert_output list) option" where
  "alerts_evaluate registry alerts now values = do {
     (rules, outs) \<leftarrow> evaluate_rules registry (al_events alerts) (al_notify alerts) now values (al_rules alerts);
     Some (alerts\<lparr>al_rules := rules\<rparr>, outs)
   }"

section \<open>Changes over HTTP\<close>

text \<open>The fields of a save, in the order the code applies them.\<close>

definition update_rule :: "(string \<Rightarrow> double) \<Rightarrow> string \<Rightarrow> alert_rule \<Rightarrow> alert_rule" where
  "update_rule strtod body rule0 = (let
     field = api_query_param (Some body);
     rule1 = (case field ''name'' of Some name \<Rightarrow> rule0\<lparr>ar_name := strlcpy RULE_NAME_SIZE name\<rparr> | None \<Rightarrow> rule0);
     rule2 = (case field ''metric'' of Some metric \<Rightarrow>
                if \<not> ar_builtin rule1 then rule1\<lparr>ar_metric := strlcpy METRIC_ID_MAX metric\<rparr> else rule1
              | None \<Rightarrow> rule1);
     rule3 = (case field ''op'' of Some name \<Rightarrow> rule2\<lparr>ar_op := op_from (Some name)\<rparr> | None \<Rightarrow> rule2);
     rule4 = (case field ''threshold'' of Some t \<Rightarrow> rule3\<lparr>ar_threshold := strtod t\<rparr> | None \<Rightarrow> rule3);
     rule5 = (case field ''duration'' of Some d \<Rightarrow> rule4\<lparr>ar_duration_s := guint_of64 (strtoull10 d)\<rparr> | None \<Rightarrow> rule4);
     rule6 = (case field ''enabled'' of Some e \<Rightarrow> rule5\<lparr>ar_enabled := (e = ''yes'')\<rparr> | None \<Rightarrow> rule5)
   in if ar_name rule6 = [] then rule6\<lparr>ar_name := strlcpy RULE_NAME_SIZE (ar_id rule6)\<rparr> else rule6)"

definition alerts_apply :: "(string \<Rightarrow> double) \<Rightarrow> declare_event \<Rightarrow> alerts \<Rightarrow> string
    \<Rightarrow> (bool \<times> alerts \<times> alert_output list) option" where
  "alerts_apply strtod declare alerts body =
     (case (api_query_param (Some body) ''action'', api_query_param (Some body) ''id'') of
        (Some action, Some key) \<Rightarrow>
          if action = ''delete'' then
            (case find_rule (al_rules alerts) key of
               Some i \<Rightarrow>
                 if \<not> ar_builtin (al_rules alerts ! i)
                 then let rules = take i (al_rules alerts) @ drop (Suc i) (al_rules alerts) in
                   Some (True, alerts\<lparr>al_rules := rules\<rparr>, [Saved (save_rules rules)])
                 else Some (False, alerts, [])
             | None \<Rightarrow> Some (False, alerts, []))
          else if action = ''save'' then
            (let (rules1, added) = (case find_rule (al_rules alerts) key of
                 Some i \<Rightarrow> (al_rules alerts, True)
               | None \<Rightarrow> add_rule (al_rules alerts) (zero_rule\<lparr>ar_id := strlcpy RULE_ID_SIZE key\<rparr>)) in
             if \<not> added then Some (False, alerts, [])
             else case find_rule rules1 key of
                 None \<Rightarrow> None
               | Some i \<Rightarrow>
                   let (rule, out) = declare_rule (al_events alerts) declare (update_rule strtod body (rules1 ! i));
                       rules = rules1[i := rule]
                   in Some (True, alerts\<lparr>al_rules := rules\<rparr>, out @ [Saved (save_rules rules)]))
          else Some (False, alerts, [])
      | _ \<Rightarrow> Some (False, alerts, []))"

section \<open>JSON\<close>

text \<open>Only quotes and backslashes are escaped.\<close>

definition escape_alert :: "string \<Rightarrow> string" where
  "escape_alert s = concat (map (\<lambda>c. if c = CHR 0x22 \<or> c = CHR 0x5C then [CHR 0x5C, c] else [c]) s)"

definition alert_rule_json :: "(double \<Rightarrow> string) \<Rightarrow> alert_rule \<Rightarrow> string" where
  "alert_rule_json fmt_g rule = CHR ''{'' # quoted ''id'' @ '':'' @ quoted (escape_alert (ar_id rule))
     @ '','' @ quoted ''name'' @ '':'' @ quoted (escape_alert (ar_name rule))
     @ '','' @ quoted ''metric'' @ '':'' @ quoted (escape_alert (ar_metric rule))
     @ '','' @ quoted ''op'' @ '':'' @ quoted (op_name (ar_op rule))
     @ '','' @ quoted ''threshold'' @ '':'' @ fmt_g (ar_threshold rule)
     @ '','' @ quoted ''duration'' @ '':'' @ show_nat (unat (ar_duration_s rule))
     @ '','' @ quoted ''enabled'' @ '':'' @ json_bool (ar_enabled rule)
     @ '','' @ quoted ''builtin'' @ '':'' @ json_bool (ar_builtin rule)
     @ '','' @ quoted ''firing'' @ '':'' @ json_bool (ar_firing rule)
     @ '','' @ quoted ''value'' @ '':'' @ fmt_g (ar_last_value rule)
     @ '','' @ quoted ''since'' @ '':'' @ show_int (ar_fired_at rule) @ ''}''"

definition alerts_json :: "(double \<Rightarrow> string) \<Rightarrow> alerts \<Rightarrow> string" where
  "alerts_json fmt_g alerts = CHR ''{'' # quoted ''rules'' @ '':['' @
     join CHR '','' (map (alert_rule_json fmt_g) (al_rules alerts)) @ ''],'' @ quoted ''firing'' @ '':''
     @ show_nat (length (filter ar_firing (al_rules alerts))) @ ''}''"

end
