(* ===== verification/AlertsProps.thy ===== *)
theory AlertsProps
  imports Alerts
begin

text \<open>
  What the alert rules promise: a rule fires when its condition has held for its duration and
  every change is reported once; the list of rules stays well formed; what a restart restores.
\<close>

section \<open>A rule as a state machine\<close>

text \<open>What one sample says to a rule.\<close>

datatype reading = Absent | Clear | Breach

definition reading_of :: "metric_registry \<Rightarrow> alert_rule \<Rightarrow> gfloat list \<Rightarrow> reading" where
  "reading_of registry rule values = (let v = values ! nat (metrics_find registry (ar_metric rule)) in
     if f32_isnan v then Absent else if breached rule v then Breach else Clear)"

text \<open>The machine on the start of the breach and the firing flag.\<close>

fun machine :: "int \<Rightarrow> gint64 \<times> bool \<Rightarrow> gint64 \<times> reading \<Rightarrow> gint64 \<times> bool" where
  "machine duration (since, firing) (now, Absent) = (0, firing)"
| "machine duration (since, firing) (now, Clear) = (0, False)"
| "machine duration (since, firing) (now, Breach) =
     (let start = (if since = 0 then now else since) in (start, firing \<or> duration \<le> now - start))"

definition same_settings :: "alert_rule \<Rightarrow> alert_rule \<Rightarrow> bool" where
  "same_settings r r' \<longleftrightarrow> ar_id r' = ar_id r \<and> ar_name r' = ar_name r \<and> ar_metric r' = ar_metric r
     \<and> ar_op r' = ar_op r \<and> ar_threshold r' = ar_threshold r \<and> ar_duration_s r' = ar_duration_s r
     \<and> ar_enabled r' = ar_enabled r \<and> ar_builtin r' = ar_builtin r \<and> ar_declaration r' = ar_declaration r"

lemma same_settings_refl [simp]: "same_settings r r"
  by (simp add: same_settings_def)

lemma same_settings_trans: "same_settings r s \<Longrightarrow> same_settings s t \<Longrightarrow> same_settings r t"
  by (simp add: same_settings_def)

lemma breached_settings: "same_settings r r' \<Longrightarrow> breached r' v = breached r v"
  by (simp add: same_settings_def breached_def split: alert_op.split)

lemma reading_settings: "same_settings r r' \<Longrightarrow> reading_of registry r' values = reading_of registry r values"
  using breached_settings [of r r'] by (simp add: reading_of_def same_settings_def Let_def)

definition watched :: "metric_registry \<Rightarrow> alert_rule \<Rightarrow> bool" where
  "watched registry rule \<longleftrightarrow> ar_enabled rule \<and> 0 \<le> metrics_find registry (ar_metric rule)"

definition wide :: "metric_registry \<Rightarrow> alert_rule \<Rightarrow> gfloat list \<Rightarrow> bool" where
  "wide registry rule values \<longleftrightarrow> metrics_find registry (ar_metric rule) < int (length values)"

text \<open>Evaluation steps the machine, and notifies exactly when the flag changes.\<close>

definition notifications :: "alert_output list \<Rightarrow> bool list" where
  "notifications outs = concat (map (\<lambda>x. case x of Notified r b \<Rightarrow> [b] | _ \<Rightarrow> []) outs)"

lemma notifications_append [simp]: "notifications (xs @ ys) = notifications xs @ notifications ys"
  by (simp add: notifications_def)

lemma notifications_send [simp]: "notifications (send_state events rule) = []"
  by (simp add: notifications_def send_state_def)

lemma notifications_notify [simp]: "notifications (notify_of nt r b) = (if nt then [b] else [])"
  by (simp add: notifications_def notify_of_def)

lemma notifications_Nil [simp]: "notifications [] = []"
  by (simp add: notifications_def)

lemma evaluate_rule_ok:
  assumes "watched registry rule" "wide registry rule values"
  obtains rule' outs where
    "evaluate_rule registry ev nt now values rule = Some (rule', outs)" "same_settings rule rule'"
    "(ar_breach_since rule', ar_firing rule') = machine (int (unat (ar_duration_s rule)))
       (ar_breach_since rule, ar_firing rule) (now, reading_of registry rule values)"
    "notifications outs = (if nt \<and> ar_firing rule' \<noteq> ar_firing rule then [ar_firing rule'] else [])"
proof -
  define i where "i = metrics_find registry (ar_metric rule)"
  have i: "0 \<le> i" "nat i < length values" "ar_enabled rule"
    using assms by (auto simp: i_def watched_def wide_def)
  define v where "v = values ! nat i"
  have get: "arr_get values (nat i) = Some v" using i by (simp add: arr_simps v_def)
  have br: "breached (rule\<lparr>ar_last_value := x\<rparr>) v = breached rule v" for x
    by (simp add: breached_def split: alert_op.split)
  have rd: "reading_of registry rule values = (if f32_isnan v then Absent else if breached rule v then Breach else Clear)"
    by (simp add: reading_of_def v_def i_def)
  have "evaluate_rule registry ev nt now values rule \<noteq> None"
    using i get by (simp add: evaluate_rule_def Let_def br flip: i_def)
  then obtain rule' outs where e: "evaluate_rule registry ev nt now values rule = Some (rule', outs)" by auto
  show thesis
    by (rule that [OF e])
      (use e i get in \<open>auto simp: evaluate_rule_def Let_def br rd same_settings_def split: if_splits simp flip: i_def\<close>)
qed

text \<open>A run of one rule over a sequence of samples.\<close>

fun run_rule :: "metric_registry \<Rightarrow> bool \<Rightarrow> bool \<Rightarrow> alert_rule \<Rightarrow> (gint64 \<times> gfloat list) list
    \<Rightarrow> (alert_rule \<times> alert_output list) option" where
  "run_rule registry ev nt rule [] = Some (rule, [])"
| "run_rule registry ev nt rule ((now, values) # xs) = do {
     (rule', out) \<leftarrow> evaluate_rule registry ev nt now values rule;
     (rule'', outs) \<leftarrow> run_rule registry ev nt rule' xs;
     Some (rule'', out @ outs)
   }"

fun alternates :: "bool \<Rightarrow> bool list \<Rightarrow> bool" where
  "alternates b [] = True"
| "alternates b (x # xs) = (x = (\<not> b) \<and> alternates x xs)"

lemma run_rule_ok:
  assumes "watched registry rule" "\<forall>x \<in> set xs. wide registry rule (snd x)"
  shows "\<exists>rule' outs. run_rule registry ev nt rule xs = Some (rule', outs) \<and> same_settings rule rule'
    \<and> (ar_breach_since rule', ar_firing rule') = foldl (machine (int (unat (ar_duration_s rule))))
         (ar_breach_since rule, ar_firing rule) (map (\<lambda>(now, values). (now, reading_of registry rule values)) xs)
    \<and> (nt \<longrightarrow> alternates (ar_firing rule) (notifications outs)
         \<and> ar_firing rule' = last (ar_firing rule # notifications outs))"
  using assms
proof (induction xs arbitrary: rule)
  case (Cons x xs)
  obtain now vs where x: "x = (now, vs)" by force
  have "wide registry rule vs" using Cons.prems(2) x by simp
  from evaluate_rule_ok [OF Cons.prems(1) this]
  obtain r1 o1 where 1: "evaluate_rule registry ev nt now vs rule = Some (r1, o1)" "same_settings rule r1"
    "(ar_breach_since r1, ar_firing r1) = machine (int (unat (ar_duration_s rule)))
       (ar_breach_since rule, ar_firing rule) (now, reading_of registry rule vs)"
    "notifications o1 = (if nt \<and> ar_firing r1 \<noteq> ar_firing rule then [ar_firing r1] else [])" by blast
  have "watched registry r1" "\<forall>x \<in> set xs. wide registry r1 (snd x)"
    using Cons.prems 1(2) by (simp_all add: watched_def wide_def same_settings_def)
  from Cons.IH [OF this] obtain r2 o2 where 2: "run_rule registry ev nt r1 xs = Some (r2, o2)" "same_settings r1 r2"
    "(ar_breach_since r2, ar_firing r2) = foldl (machine (int (unat (ar_duration_s r1))))
       (ar_breach_since r1, ar_firing r1) (map (\<lambda>(now, values). (now, reading_of registry r1 values)) xs)"
    "nt \<longrightarrow> alternates (ar_firing r1) (notifications o2) \<and> ar_firing r2 = last (ar_firing r1 # notifications o2)"
    by blast
  have dur: "ar_duration_s r1 = ar_duration_s rule" using 1(2) by (simp add: same_settings_def)
  have "(ar_breach_since r2, ar_firing r2) = foldl (machine (int (unat (ar_duration_s rule))))
       (ar_breach_since rule, ar_firing rule) (map (\<lambda>(now, values). (now, reading_of registry rule values)) (x # xs))"
    using 2(3) 1(3) reading_settings [OF 1(2)] by (simp add: x dur del: machine.simps)
  moreover have "nt \<longrightarrow> alternates (ar_firing rule) (notifications (o1 @ o2))
      \<and> ar_firing r2 = last (ar_firing rule # notifications (o1 @ o2))"
    using 2(4) 1(4) by auto
  ultimately show ?case using 1(1) 2(1) same_settings_trans [OF 1(2) 2(2)] by (simp add: x)
qed simp

text \<open>The condition: a stretch of breaching samples at least as long as the duration, and no
  reading back in bounds since.\<close>

definition held :: "int \<Rightarrow> (gint64 \<times> reading) list \<Rightarrow> bool" where
  "held duration xs \<longleftrightarrow> (\<exists>before stretch after. xs = before @ stretch @ after \<and> stretch \<noteq> []
     \<and> (\<forall>x \<in> set stretch. snd x = Breach) \<and> duration \<le> fst (last stretch) - fst (hd stretch)
     \<and> (\<forall>x \<in> set after. snd x \<noteq> Clear))"

text \<open>The breaching samples at the end of a history.\<close>

definition tail_run :: "(gint64 \<times> reading) list \<Rightarrow> (gint64 \<times> reading) list" where
  "tail_run xs = rev (takeWhile (\<lambda>x. snd x = Breach) (rev xs))"

lemma tail_run_snoc: "tail_run (xs @ [x]) = (if snd x = Breach then tail_run xs @ [x] else [])"
  by (simp add: tail_run_def)

lemma tail_run_split:
  obtains before where "xs = before @ tail_run xs" "before = [] \<or> snd (last before) \<noteq> Breach"
proof -
  define before where "before = rev (dropWhile (\<lambda>x. snd x = Breach) (rev xs))"
  have "rev xs = takeWhile (\<lambda>x. snd x = Breach) (rev xs) @ dropWhile (\<lambda>x. snd x = Breach) (rev xs)" by simp
  then have "xs = before @ tail_run xs" unfolding before_def tail_run_def by (metis rev_append rev_rev_ident)
  moreover have "before = [] \<or> snd (last before) \<noteq> Breach"
    using hd_dropWhile [of "\<lambda>x. snd x = Breach" "rev xs"] by (auto simp: before_def last_rev)
  ultimately show thesis by (rule that)
qed

lemma tail_run_breach: "x \<in> set (tail_run xs) \<Longrightarrow> snd x = Breach"
  by (auto simp: tail_run_def dest: set_takeWhileD)

lemma held_snoc_absent: "held d (xs @ [(t, Absent)]) = held d xs"
proof
  assume "held d (xs @ [(t, Absent)])"
  then obtain b s a where h: "xs @ [(t, Absent)] = b @ s @ a" "s \<noteq> []" "\<forall>x \<in> set s. snd x = Breach"
    "d \<le> fst (last s) - fst (hd s)" "\<forall>x \<in> set a. snd x \<noteq> Clear" unfolding held_def by blast
  have "a \<noteq> []"
  proof
    assume "a = []"
    then have "last s = (t, Absent)" using h(1,2) by (metis append_Nil2 last_append last_snoc)
    with h(2,3) show False by (metis last_in_set reading.distinct(3) snd_conv)
  qed
  then obtain a' x where "a = a' @ [x]" by (metis rev_exhaust)
  with h show "held d xs" unfolding held_def by (intro exI [of _ b] exI [of _ s] exI [of _ a']) auto
next
  assume "held d xs"
  then obtain b s a where "xs = b @ s @ a" "s \<noteq> []" "\<forall>x \<in> set s. snd x = Breach"
    "d \<le> fst (last s) - fst (hd s)" "\<forall>x \<in> set a. snd x \<noteq> Clear" unfolding held_def by blast
  then show "held d (xs @ [(t, Absent)])"
    unfolding held_def by (intro exI [of _ b] exI [of _ s] exI [of _ "a @ [(t, Absent)]"]) auto
qed

lemma held_snoc_clear: "\<not> held d (xs @ [(t, Clear)])"
proof
  assume "held d (xs @ [(t, Clear)])"
  then obtain b s a where h: "xs @ [(t, Clear)] = b @ s @ a" "s \<noteq> []" "\<forall>x \<in> set s. snd x = Breach"
    "\<forall>x \<in> set a. snd x \<noteq> Clear" unfolding held_def by blast
  have "last (s @ a) = (t, Clear)" using h(1,2) by (metis append_is_Nil_conv last_append last_snoc)
  then have "(t, Clear) \<in> set s \<union> set a" using h(2) by (metis append_is_Nil_conv last_in_set set_append)
  with h(3,4) show False by force
qed

lemma held_snoc_breach:
  assumes sorted: "sorted_wrt (\<le>) (map fst (xs @ [(t, Breach)]))"
  shows "held d (xs @ [(t, Breach)]) \<longleftrightarrow> held d xs \<or> d \<le> t - fst (hd (tail_run (xs @ [(t, Breach)])))"
proof
  assume "held d (xs @ [(t, Breach)])"
  then obtain b s a where h: "xs @ [(t, Breach)] = b @ s @ a" "s \<noteq> []" "\<forall>x \<in> set s. snd x = Breach"
    "d \<le> fst (last s) - fst (hd s)" "\<forall>x \<in> set a. snd x \<noteq> Clear" unfolding held_def by blast
  show "held d xs \<or> d \<le> t - fst (hd (tail_run (xs @ [(t, Breach)])))"
  proof (cases "a = []")
    case False
    then obtain a' x where "a = a' @ [x]" by (metis rev_exhaust)
    with h have "held d xs" unfolding held_def by (intro exI [of _ b] exI [of _ s] exI [of _ a']) auto
    then show ?thesis ..
  next
    case True
    then have xs: "xs @ [(t, Breach)] = b @ s" using h(1) by simp
    have "last s = (t, Breach)" using xs h(2) by (metis last_append last_snoc)
    define r where "r = tail_run (xs @ [(t, Breach)])"
    have r: "r = tail_run b @ s"
    proof -
      have "takeWhile (\<lambda>x. snd x = Breach) (rev s @ rev b) = rev s @ takeWhile (\<lambda>x. snd x = Breach) (rev b)"
        using h(3) by (intro takeWhile_append2) auto
      then show ?thesis unfolding r_def xs by (simp add: tail_run_def)
    qed
    obtain c where c: "b = c @ tail_run b" by (rule tail_run_split)
    have "sorted_wrt (\<le>) (map fst (c @ tail_run b @ s))" using sorted xs c by (metis append.assoc)
    then have "fst (hd r) \<le> fst (hd s)" unfolding r using h(2)
      by (cases "tail_run b") (auto simp: sorted_wrt_append)
    with h(4) \<open>last s = (t, Breach)\<close> show ?thesis by (simp add: r_def)
  qed
next
  assume "held d xs \<or> d \<le> t - fst (hd (tail_run (xs @ [(t, Breach)])))"
  then show "held d (xs @ [(t, Breach)])"
  proof
    assume "held d xs"
    then obtain b s a where "xs = b @ s @ a" "s \<noteq> []" "\<forall>x \<in> set s. snd x = Breach"
      "d \<le> fst (last s) - fst (hd s)" "\<forall>x \<in> set a. snd x \<noteq> Clear" unfolding held_def by blast
    then show ?thesis
      unfolding held_def by (intro exI [of _ b] exI [of _ s] exI [of _ "a @ [(t, Breach)]"]) auto
  next
    define r where "r = tail_run (xs @ [(t, Breach)])"
    assume d: "d \<le> t - fst (hd (tail_run (xs @ [(t, Breach)])))"
    obtain b where b: "xs @ [(t, Breach)] = b @ r" unfolding r_def by (rule tail_run_split)
    have "r = tail_run xs @ [(t, Breach)]" by (simp add: r_def tail_run_snoc)
    then have "r \<noteq> []" "last r = (t, Breach)" by simp_all
    with b d show ?thesis unfolding held_def
      by (intro exI [of _ b] exI [of _ r] exI [of _ "[]"]) (auto simp: r_def dest: tail_run_breach)
  qed
qed

lemma machine_held:
  assumes "sorted_wrt (\<le>) (map fst xs)" "\<forall>x \<in> set xs. 0 < fst x"
  shows "foldl (machine d) (0, False) xs = (if tail_run xs = [] then 0 else fst (hd (tail_run xs)), held d xs)"
  using assms
proof (induction xs rule: rev_induct)
  case Nil
  then show ?case by (auto simp: tail_run_def held_def)
next
  case (snoc x xs)
  obtain t k where x: "x = (t, k)" by force
  have IH: "foldl (machine d) (0, False) xs = (if tail_run xs = [] then 0 else fst (hd (tail_run xs)), held d xs)"
    using snoc by (simp add: sorted_wrt_append)
  show ?case
  proof (cases k)
    case Absent
    then show ?thesis by (simp add: IH x tail_run_snoc held_snoc_absent)
  next
    case Clear
    then show ?thesis by (simp add: IH x tail_run_snoc held_snoc_clear)
  next
    case Breach
    have pos: "0 < fst (hd (tail_run xs))" if "tail_run xs \<noteq> []"
    proof -
      obtain b where b: "xs = b @ tail_run xs" by (rule tail_run_split)
      have "hd (tail_run xs) \<in> set xs" using that b by (metis UnCI hd_in_set set_append)
      with snoc.prems(2) show ?thesis by simp
    qed
    have h: "held d (xs @ [x]) \<longleftrightarrow> held d xs \<or> d \<le> t - fst (hd (tail_run (xs @ [x])))"
      using held_snoc_breach snoc.prems(1) unfolding x Breach by blast
    show ?thesis
      using pos by (auto simp: IH h) (auto simp: x Breach tail_run_snoc hd_append Let_def)
  qed
qed

section \<open>Well-formed rule lists\<close>

definition rule_ok :: "alert_rule \<Rightarrow> bool" where
  "rule_ok r \<longleftrightarrow> length (ar_id r) < RULE_ID_SIZE \<and> length (ar_name r) < RULE_NAME_SIZE
     \<and> length (ar_metric r) < METRIC_ID_MAX"

definition rules_inv :: "alert_rule list \<Rightarrow> bool" where
  [inv_defs]: "rules_inv rules \<longleftrightarrow> length rules \<le> MAX_RULES \<and> distinct (map ar_id rules) \<and> list_all rule_ok rules"

lemma find_rule_from: "find_rule_from i rules key = (if key \<in> set (map ar_id rules)
    then Some (i + length (takeWhile (\<lambda>r. ar_id r \<noteq> key) rules)) else None)"
  by (induction rules arbitrary: i) auto

lemma find_rule_None: "find_rule rules key = None \<longleftrightarrow> key \<notin> set (map ar_id rules)"
  by (simp add: find_rule_def find_rule_from)

lemma takeWhile_shorter: "x \<in> set xs \<Longrightarrow> \<not> P x \<Longrightarrow> length (takeWhile P xs) < length xs"
  by (induction xs) auto

lemma find_rule_Some:
  assumes "find_rule rules key = Some i"
  shows "i < length rules" "ar_id (rules ! i) = key"
proof -
  have k: "key \<in> set (map ar_id rules)" "i = length (takeWhile (\<lambda>r. ar_id r \<noteq> key) rules)"
    using assms by (auto simp: find_rule_def find_rule_from split: if_splits)
  then obtain r where "r \<in> set rules" "\<not> ar_id r \<noteq> key" by auto
  then show "i < length rules" unfolding k(2) by (rule takeWhile_shorter)
  then show "ar_id (rules ! i) = key" unfolding k(2) using nth_length_takeWhile by blast
qed

lemma strlcpy_less: "0 < n \<Longrightarrow> length (strlcpy n s) < n"
  using length_strlcpy [of n s] by linarith

lemma rules_inv_add: "rules_inv rules \<Longrightarrow> rule_ok r \<Longrightarrow> rules_inv (fst (add_rule rules r))"
  by (auto simp: rules_inv_def add_rule_def find_rule_None)

lemma rule_ok_group: "rule_ok (group_rule g)"
  by (simp add: rule_ok_def group_rule_def strlcpy_less RULE_ID_SIZE_def RULE_NAME_SIZE_def METRIC_ID_MAX_def)

lemma rules_inv_load: "rules_inv rules \<Longrightarrow> rules_inv (load_groups groups rules)"
  by (induction groups rules rule: load_groups.induct) (simp_all add: rules_inv_add rule_ok_group)

lemma rules_inv_storage: "rules_inv rules \<Longrightarrow> rules_inv (foldl add_storage_rule rules keys)"
proof (induction keys arbitrary: rules)
  case (Cons k keys)
  have "rules_inv (add_storage_rule rules k)"
    using Cons.prems by (auto simp: add_storage_rule_def intro!: rules_inv_add)
      (auto simp: rule_ok_def builtin_rule_def strlcpy_less RULE_ID_SIZE_def RULE_NAME_SIZE_def METRIC_ID_MAX_def)
  with Cons.IH show ?case by simp
qed simp

lemma rule_ok_builtin: "b \<in> set BUILTIN \<Longrightarrow> rule_ok b"
  by (auto simp: BUILTIN_def builtin_rule_def rule_ok_def RULE_ID_SIZE_def RULE_NAME_SIZE_def METRIC_ID_MAX_def)

lemma rules_inv_builtins: "rules_inv rules \<Longrightarrow> set bs \<subseteq> set BUILTIN \<Longrightarrow> rules_inv (foldl (add_builtin_rule registry) rules bs)"
  by (induction bs arbitrary: rules) (auto simp: add_builtin_rule_def intro!: rules_inv_add rule_ok_builtin)

lemma rules_inv_filter: "rules_inv rules \<Longrightarrow> rules_inv (filter P rules)"
proof -
  assume inv: "rules_inv rules"
  have "length (filter P rules) \<le> length rules" by simp
  with inv have "length (filter P rules) \<le> MAX_RULES" unfolding rules_inv_def by (meson le_trans)
  with inv show ?thesis by (auto simp: rules_inv_def distinct_map_filter list_all_iff)
qed

lemma rules_inv_startup: "rules_inv (startup_rules registry file)"
proof -
  have "rules_inv (load_rules file [])"
    using rules_inv_load [of "[]"] by (cases "file") (simp_all add: load_rules_def rules_inv_def)
  then show ?thesis unfolding startup_rules_def Let_def prune_stale_builtins_def
    by (intro rules_inv_filter rules_inv_builtins rules_inv_storage) auto
qed

lemma declare_rule_fields: "same_settings (r\<lparr>ar_declaration := d\<rparr>) (fst (declare_rule ev declare r)\<lparr>ar_declaration := d\<rparr>)"
  by (auto simp: declare_rule_def same_settings_def split: option.split)

lemma declare_rule_same: "ar_id (fst (declare_rule ev declare r)) = ar_id r"
  "ar_name (fst (declare_rule ev declare r)) = ar_name r" "ar_metric (fst (declare_rule ev declare r)) = ar_metric r"
  "ar_builtin (fst (declare_rule ev declare r)) = ar_builtin r"
  by (auto simp: declare_rule_def split: option.split)

lemma rules_inv_map:
  assumes "rules_inv rules" "\<forall>r. ar_id (f r) = ar_id r \<and> ar_name (f r) = ar_name r \<and> ar_metric (f r) = ar_metric r"
  shows "rules_inv (map f rules)"
  using assms by (auto simp: rules_inv_def rule_ok_def list_all_iff comp_def)

lemma alerts_new_inv: "rules_inv (al_rules (fst (alerts_new registry ev declare file)))"
  unfolding alerts_new_def Let_def
  using rules_inv_map [OF rules_inv_startup, of "\<lambda>r. fst (declare_rule ev declare r)"]
  by (simp add: declare_rule_same comp_def)

lemma evaluate_rule_settings:
  "evaluate_rule registry ev nt now values r = Some (r', outs) \<Longrightarrow> same_settings r r'"
  by (auto simp: evaluate_rule_def Let_def same_settings_def split: bind_splits if_splits)

lemma evaluate_rules_settings:
  "evaluate_rules registry ev nt now values rs = Some (rs', outs) \<Longrightarrow> list_all2 same_settings rs rs'"
  by (induction rs arbitrary: rs' outs) (auto split: bind_splits intro: evaluate_rule_settings)

lemma rules_inv_settings:
  assumes "rules_inv rs" "list_all2 same_settings rs rs'"
  shows "rules_inv rs'"
proof -
  have "map ar_id rs' = map ar_id rs" "list_all rule_ok rs \<Longrightarrow> list_all rule_ok rs'"
    using assms(2) by (induction rule: list_all2_induct) (auto simp: same_settings_def rule_ok_def)
  moreover have "length rs' = length rs" using assms(2) by (simp add: list_all2_lengthD)
  ultimately show ?thesis using assms(1) by (simp add: rules_inv_def)
qed

lemma update_rule_fields: "ar_id (update_rule strtod body r) = ar_id r"
  "ar_builtin (update_rule strtod body r) = ar_builtin r"
  "ar_builtin r \<Longrightarrow> ar_metric (update_rule strtod body r) = ar_metric r"
  by (auto simp: update_rule_def Let_def split: option.split)

lemma update_rule_ok: "rule_ok r \<Longrightarrow> rule_ok (update_rule strtod body r)"
  by (auto simp: update_rule_def Let_def rule_ok_def strlcpy_less RULE_NAME_SIZE_def METRIC_ID_MAX_def
      split: option.split)

section \<open>Applying a change\<close>

lemma add_fresh_rule:
  assumes "find_rule rules key = None" "length key < RULE_ID_SIZE" "length rules < MAX_RULES"
  shows "add_rule rules (zero_rule\<lparr>ar_id := strlcpy RULE_ID_SIZE key\<rparr>) = (rules @ [zero_rule\<lparr>ar_id := key\<rparr>], True)"
    "find_rule (rules @ [zero_rule\<lparr>ar_id := key\<rparr>]) key = Some (length rules)"
proof -
  have k: "strlcpy RULE_ID_SIZE key = key" using assms(2) by (rule strlcpy_id)
  show "add_rule rules (zero_rule\<lparr>ar_id := strlcpy RULE_ID_SIZE key\<rparr>) = (rules @ [zero_rule\<lparr>ar_id := key\<rparr>], True)"
    using assms(1,3) by (simp add: add_rule_def k)
  have "takeWhile (\<lambda>r. ar_id r \<noteq> key) rules = rules"
    using assms(1) by (auto simp: find_rule_None takeWhile_eq_all_conv)
  then show "find_rule (rules @ [zero_rule\<lparr>ar_id := key\<rparr>]) key = Some (length rules)"
    by (simp add: find_rule_def find_rule_from takeWhile_append)
qed

text \<open>What a change can do to the list: nothing, remove a user rule, or update one entry of the
  list, which a save may first have extended.\<close>

lemma alerts_apply_cases:
  assumes "alerts_apply strtod declare alerts body = Some (changed, alerts', outs)"
  obtains "al_rules alerts' = al_rules alerts" "\<not> changed"
  | i where "i < length (al_rules alerts)" "\<not> ar_builtin (al_rules alerts ! i)" "changed"
      "al_rules alerts' = take i (al_rules alerts) @ drop (Suc i) (al_rules alerts)"
  | rules1 i where "rules1 = al_rules alerts \<or> (\<exists>key. add_rule (al_rules alerts)
        (zero_rule\<lparr>ar_id := strlcpy RULE_ID_SIZE key\<rparr>) = (rules1, True))"
      "i < length rules1" "changed"
      "al_rules alerts' = rules1[i := fst (declare_rule (al_events alerts) declare (update_rule strtod body (rules1 ! i)))]"
proof -
  consider action key where "api_query_param (Some body) ''action'' = Some action"
      "api_query_param (Some body) ''id'' = Some key"
    | "al_rules alerts' = al_rules alerts" "\<not> changed"
    using assms by (auto simp: alerts_apply_def split: option.splits)
  then show thesis
  proof cases
    case 2
    then show thesis by (rule that(1))
  next
    case 1
    consider "action = ''delete''" | "action = ''save''" "action \<noteq> ''delete''" | "action \<noteq> ''delete''" "action \<noteq> ''save''"
      by blast
    then show thesis
    proof cases
      case 3
      with assms 1 show thesis by (intro that(1)) (auto simp: alerts_apply_def)
    next
      case delete: 1
      show thesis
      proof (cases "find_rule (al_rules alerts) key")
        case None
        with assms 1 delete show thesis by (intro that(1)) (auto simp: alerts_apply_def)
      next
        case (Some i)
        with assms 1 delete find_rule_Some [OF Some] show thesis
          by (cases "ar_builtin (al_rules alerts ! i)")
            (auto simp: alerts_apply_def Let_def intro: that(1) that(2))
      qed
    next
      case save: 2
      show thesis
      proof (cases "find_rule (al_rules alerts) key")
        case (Some i)
        obtain rule out where "declare_rule (al_events alerts) declare (update_rule strtod body (al_rules alerts ! i)) = (rule, out)"
          by force
        with assms 1 save Some find_rule_Some [OF Some] show thesis
          by (intro that(3) [of "al_rules alerts" i]) (auto simp: alerts_apply_def Let_def)
      next
        case None
        obtain rules1 added where a: "add_rule (al_rules alerts) (zero_rule\<lparr>ar_id := strlcpy RULE_ID_SIZE key\<rparr>) = (rules1, added)"
          by force
        show thesis
        proof (cases added)
          case False
          with assms 1 save None a show thesis by (intro that(1)) (auto simp: alerts_apply_def)
        next
          case True
          then obtain i where i: "find_rule rules1 key = Some i"
            using assms 1 save None a by (auto simp: alerts_apply_def Let_def split: option.splits)
          obtain rule out where "declare_rule (al_events alerts) declare (update_rule strtod body (rules1 ! i)) = (rule, out)"
            by force
          with assms 1 save None a True i find_rule_Some [OF i] show thesis
            by (intro that(3) [of rules1 i]) (auto simp: alerts_apply_def Let_def)
        qed
      qed
    qed
  qed
qed

lemma rules_inv_remove: "rules_inv rules \<Longrightarrow> rules_inv (take i rules @ drop (Suc i) rules)"
proof -
  assume inv: "rules_inv rules"
  have "distinct (take i (map ar_id rules) @ drop (Suc i) (map ar_id rules))"
    using inv by (auto simp: rules_inv_def set_take_disj_set_drop_if_distinct)
  moreover have "list_all rule_ok (take i rules @ drop (Suc i) rules)"
    using inv by (auto simp: rules_inv_def list_all_iff dest: in_set_takeD in_set_dropD)
  moreover have "min (length rules) i + (length rules - Suc i) \<le> length rules" by (simp add: min_def)
  then have "length (take i rules @ drop (Suc i) rules) \<le> MAX_RULES"
    using inv unfolding rules_inv_def by simp
  ultimately show ?thesis by (simp add: rules_inv_def take_map drop_map)
qed

lemma rules_inv_update:
  assumes "rules_inv rules" "i < length rules" "ar_id r = ar_id (rules ! i)" "rule_ok r"
  shows "rules_inv (rules[i := r])"
proof -
  have "map ar_id (rules[i := r]) = map ar_id rules" using assms(2,3) by (simp add: map_update list_update_same_conv)
  then show ?thesis using assms(1,4) by (auto simp: rules_inv_def list_all_iff dest!: set_update_subset_insert [THEN subsetD])
qed

lemma alerts_apply_inv:
  assumes "rules_inv (al_rules alerts)" "alerts_apply strtod declare alerts body = Some (changed, alerts', outs)"
  shows "rules_inv (al_rules alerts')"
  using assms(2)
proof (cases rule: alerts_apply_cases)
  case 1
  with assms(1) show ?thesis by simp
next
  case (2 i)
  with assms(1) show ?thesis by (simp add: rules_inv_remove)
next
  case (3 rules1 i)
  have fresh: "rule_ok (zero_rule\<lparr>ar_id := strlcpy RULE_ID_SIZE key\<rparr>)" for key
    by (simp add: rule_ok_def zero_rule_def strlcpy_less RULE_ID_SIZE_def RULE_NAME_SIZE_def METRIC_ID_MAX_def)
  have inv: "rules_inv rules1" using 3(1) assms(1) rules_inv_add [OF assms(1) fresh] by (metis fst_conv)
  then have "rule_ok (rules1 ! i)" using 3(2) by (simp add: rules_inv_def list_all_length)
  then have "rule_ok (fst (declare_rule (al_events alerts) declare (update_rule strtod body (rules1 ! i))))"
    using update_rule_ok [of "rules1 ! i"] by (simp add: rule_ok_def declare_rule_same)
  with inv 3(2,4) show ?thesis by (simp add: rules_inv_update declare_rule_same update_rule_fields)
qed

definition builtin_cover :: "alert_rule list \<Rightarrow> (string \<times> string) list" where
  "builtin_cover rules = map (\<lambda>r. (ar_id r, ar_metric r)) (filter ar_builtin rules)"

lemma builtin_cover_update:
  assumes "i < length rules" "ar_builtin r = ar_builtin (rules ! i)" "ar_id r = ar_id (rules ! i)"
    "ar_builtin r \<Longrightarrow> ar_metric r = ar_metric (rules ! i)"
  shows "builtin_cover (rules[i := r]) = builtin_cover rules"
  using assms
proof (induction rules arbitrary: i)
  case (Cons x rules)
  then show ?case by (cases i) (auto simp: builtin_cover_def)
qed simp

section \<open>The rules file\<close>

definition reset_rule :: "alert_rule \<Rightarrow> alert_rule" where
  "reset_rule r = r\<lparr>ar_firing := False, ar_breach_since := 0, ar_fired_at := 0, ar_last_value := DFin 0,
     ar_declaration := 0\<rparr>"

lemma save_rules_map:
  assumes "distinct (map ar_id rules)"
  shows "save_rules rules = map rule_group rules"
  using assms
proof (induction rules rule: rev_induct)
  case Nil
  show ?case by (simp add: save_rules_def)
next
  case (snoc r rules)
  then have "save_rules rules = map rule_group rules" by simp
  then have "save_rules (rules @ [r]) = set_group (map rule_group rules) (rule_group r)" by (simp add: save_rules_def)
  also have "kg_id (rule_group r) \<notin> set (map kg_id (map rule_group rules))"
    using snoc.prems by (auto simp: rule_group_def)
  then have "set_group (map rule_group rules) (rule_group r) = map rule_group rules @ [rule_group r]"
    by (simp only: set_group_def if_False)
  finally show ?case by simp
qed

lemma group_rule_group: "rule_ok r \<Longrightarrow> group_rule (rule_group r) = reset_rule r"
proof -
  assume "rule_ok r"
  moreover have "op_from (Some (op_name op)) = op" for op by (cases op) (simp_all add: op_from_def)
  ultimately show ?thesis
    by (cases r) (simp add: group_rule_def rule_group_def reset_rule_def zero_rule_def strlcpy_id rule_ok_def)
qed

lemma load_saved:
  assumes "rules_inv (done @ rules)" "\<forall>r \<in> set rules. ar_metric r \<noteq> []"
  shows "load_groups (map rule_group rules) (map reset_rule done) = map reset_rule (done @ rules)"
  using assms
proof (induction rules arbitrary: "done")
  case (Cons r rules)
  have r: "rule_ok r" "length done < MAX_RULES" "ar_id r \<notin> set (map ar_id done)"
    using Cons.prems(1) by (auto simp: rules_inv_def)
  have "find_rule (map reset_rule done) (ar_id r) = None"
    using r(3) by (auto simp: find_rule_None reset_rule_def)
  then have "load_groups (map rule_group (r # rules)) (map reset_rule done)
      = load_groups (map rule_group rules) (map reset_rule (done @ [r]))"
    using r(1,2) Cons.prems(2) by (simp add: group_rule_group add_rule_def) (simp add: reset_rule_def)
  also have "\<dots> = map reset_rule (done @ r # rules)" using Cons.IH [of "done @ [r]"] Cons.prems by simp
  finally show ?case .
qed simp

section \<open>Properties\<close>

text \<open>A registry with one metric and a rule on it, for the witnesses.\<close>

definition cpu_registry :: metric_registry where
  "cpu_registry = \<lparr>reg_defs = [\<lparr>md_id = ''cpu.usage'', md_label = ''CPU'', md_unit = ''%'', md_group = ''cpu''\<rparr>],
     reg_count = 1, reg_capacity = 1\<rparr>"

definition cpu_rule :: alert_rule where
  "cpu_rule = builtin_rule ''cpu_high'' ''CPU usage high'' ''cpu.usage'' (DFin 1) 10"

lemma cpu_find: "metrics_find cpu_registry ''cpu.usage'' = 0"
  by (simp add: metrics_find_def cpu_registry_def)

lemma cpu_rule_watched:
  "watched cpu_registry cpu_rule" "wide cpu_registry cpu_rule [v]" "ar_breach_since cpu_rule = 0"
  "\<not> ar_firing cpu_rule" "int (unat (ar_duration_s cpu_rule)) = 10"
  using cpu_find by (simp_all add: watched_def wide_def cpu_rule_def builtin_rule_def zero_rule_def)

lemma cpu_readings:
  "reading_of cpu_registry cpu_rule [1073741824] = Breach" "reading_of cpu_registry cpu_rule [f32_nan] = Absent"
proof -
  have "f32_to_double 1073741824 = DFin 2"
    by (simp add: f32_to_double_def f32_exp_def f32_frac_def f32_neg_def f32_mag_def power_int_def power_divide)
  moreover have "\<not> f32_isnan 1073741824" "f32_isnan f32_nan"
    by (simp_all add: f32_isnan_def f32_nan_def f32_exp_def f32_frac_def)
  ultimately show "reading_of cpu_registry cpu_rule [1073741824] = Breach" "reading_of cpu_registry cpu_rule [f32_nan] = Absent"
    using cpu_find by (simp_all add: reading_of_def cpu_rule_def builtin_rule_def zero_rule_def breached_def)
qed

text \<open>C20: A rule that starts quiet is firing after a sequence of samples exactly when its condition
  held for its whole duration on consecutive samples and no reading since was back in bounds;
  an absent reading interrupts the count but clears nothing.\<close>

theorem alert_fires_when_held:
  assumes "watched registry rule" "\<forall>x \<in> set xs. wide registry rule (snd x)"
    "ar_breach_since rule = 0" "\<not> ar_firing rule"
    "sorted_wrt (\<le>) (map fst xs)" "\<forall>x \<in> set xs. 0 < fst x"
  shows "\<exists>rule' outs. run_rule registry ev nt rule xs = Some (rule', outs)
    \<and> (ar_firing rule' \<longleftrightarrow> held (int (unat (ar_duration_s rule)))
         (map (\<lambda>(now, vs). (now, reading_of registry rule vs)) xs))"
proof -
  define ys where "ys = map (\<lambda>(now, vs). (now, reading_of registry rule vs)) xs"
  have "map fst ys = map fst xs" by (simp add: ys_def comp_def case_prod_beta)
  then have "sorted_wrt (\<le>) (map fst ys)" "\<forall>x \<in> set ys. 0 < fst x"
    using assms(5,6) by (simp, metis (no_types, lifting) image_eqI image_iff list.set_map)
  from machine_held [OF this] run_rule_ok [OF assms(1,2), of ev nt] assms(3,4)
  show ?thesis unfolding ys_def by auto
qed

theorem alert_fires_when_held_witness:
  "\<exists>rule' outs. run_rule cpu_registry True True cpu_rule
      [(100, [1073741824]), (105, [1073741824]), (110, [1073741824]), (115, [f32_nan])] = Some (rule', outs)
    \<and> ar_firing rule'"
proof -
  define xs :: "(gint64 \<times> gfloat list) list" where
    "xs = [(100, [1073741824]), (105, [1073741824]), (110, [1073741824]), (115, [f32_nan])]"
  have "held 10 ([] @ [(100, Breach), (105, Breach), (110, Breach)] @ [(115, Absent)])"
    unfolding held_def by (rule exI [of _ "[]"], rule exI [of _ "[(100, Breach), (105, Breach), (110, Breach)]"],
        rule exI [of _ "[(115, Absent)]"]) simp
  moreover have "map (\<lambda>(now, vs). (now, reading_of cpu_registry cpu_rule vs)) xs
      = [] @ [(100, Breach), (105, Breach), (110, Breach)] @ [(115, Absent)]"
    by (simp add: xs_def cpu_readings)
  ultimately have "held (int (unat (ar_duration_s cpu_rule))) (map (\<lambda>(now, vs). (now, reading_of cpu_registry cpu_rule vs)) xs)"
    by (simp only: cpu_rule_watched(5))
  moreover have "\<forall>x \<in> set xs. wide cpu_registry cpu_rule (snd x)" "sorted_wrt (\<le>) (map fst xs)" "\<forall>x \<in> set xs. 0 < fst x"
    by (simp_all add: xs_def cpu_rule_watched)
  ultimately show ?thesis
    using alert_fires_when_held [OF cpu_rule_watched(1) _ cpu_rule_watched(3,4), of xs True True]
    unfolding xs_def by blast
qed

text \<open>C21: The callback of a rule is called exactly on the changes of its state: the calls alternate,
  the first one is a change from the initial state and the last one is the final state.\<close>

theorem alert_changes_notified_once:
  assumes "watched registry rule" "\<forall>x \<in> set xs. wide registry rule (snd x)"
  shows "\<exists>rule' outs. run_rule registry ev True rule xs = Some (rule', outs)
    \<and> alternates (ar_firing rule) (notifications outs) \<and> ar_firing rule' = last (ar_firing rule # notifications outs)"
  using run_rule_ok [OF assms, of ev True] by blast

theorem alert_changes_notified_once_witness:
  "\<exists>rule' outs. run_rule cpu_registry True True cpu_rule [(100, [1073741824]), (110, [1073741824])] = Some (rule', outs)
    \<and> alternates False (notifications outs)"
  using alert_changes_notified_once [OF cpu_rule_watched(1), of "[(100, [1073741824]), (110, [1073741824])]" True]
    cpu_rule_watched by (auto simp del: run_rule.simps)

text \<open>C22: The list of rules is well formed from start-up on, whatever the rules file holds, and stays
  so: at most 64 rules, no two with the same id, and every string inside its buffer. Evaluating
  and applying any request body keep it.\<close>

theorem alert_rules_well_formed:
  "rules_inv (al_rules (fst (alerts_new registry ev declare groups)))
   \<and> (rules_inv (al_rules alerts) \<longrightarrow>
        (\<forall>now vs alerts' outs. alerts_evaluate registry alerts now vs = Some (alerts', outs) \<longrightarrow> rules_inv (al_rules alerts'))
        \<and> (\<forall>body changed alerts' outs. alerts_apply strtod declare alerts body = Some (changed, alerts', outs) \<longrightarrow>
             rules_inv (al_rules alerts')))"
proof (intro conjI impI allI)
  show "rules_inv (al_rules (fst (alerts_new registry ev declare groups)))" by (rule alerts_new_inv)
next
  fix now vs alerts' outs
  assume a: "rules_inv (al_rules alerts)" "alerts_evaluate registry alerts now vs = Some (alerts', outs)"
  from a(2) obtain rules where "evaluate_rules registry (al_events alerts) (al_notify alerts) now vs (al_rules alerts)
      = Some (rules, outs)" "al_rules alerts' = rules"
    by (auto simp: alerts_evaluate_def split: bind_splits)
  with rules_inv_settings [OF a(1)] evaluate_rules_settings show "rules_inv (al_rules alerts')" by metis
next
  fix body changed alerts' outs
  assume "rules_inv (al_rules alerts)" "alerts_apply strtod declare alerts body = Some (changed, alerts', outs)"
  then show "rules_inv (al_rules alerts')" by (rule alerts_apply_inv)
qed

definition cpu_alerts :: alerts where
  "cpu_alerts = \<lparr>al_rules = [cpu_rule], al_events = False, al_notify = True\<rparr>"

lemma cpu_alerts_inv: "rules_inv (al_rules cpu_alerts)"
  by (simp add: cpu_alerts_def rules_inv_def MAX_RULES_def cpu_rule_def builtin_rule_def rule_ok_def
      RULE_ID_SIZE_def RULE_NAME_SIZE_def METRIC_ID_MAX_def)

theorem alert_rules_well_formed_witness:
  "rules_inv [cpu_rule, zero_rule\<lparr>ar_id := ''x'', ar_name := ''x''\<rparr>]"
proof -
  have fields: "api_query_param (Some ''action=save&id=x'') ''action'' = Some ''save''"
    "api_query_param (Some ''action=save&id=x'') ''id'' = Some ''x''"
    "\<forall>n \<in> {''name'', ''metric'', ''op'', ''threshold'', ''duration'', ''enabled''}.
       api_query_param (Some ''action=save&id=x'') n = None"
    by code_simp+
  have "alerts_apply (\<lambda>_. DFin 0) (\<lambda>_. None) cpu_alerts ''action=save&id=x'' = Some (True,
      cpu_alerts\<lparr>al_rules := [cpu_rule, zero_rule\<lparr>ar_id := ''x'', ar_name := ''x''\<rparr>]\<rparr>,
      [Saved (save_rules [cpu_rule, zero_rule\<lparr>ar_id := ''x'', ar_name := ''x''\<rparr>])])"
    using fields(3) by (simp add: alerts_apply_def fields(1,2) cpu_alerts_def find_rule_def cpu_rule_def
        builtin_rule_def add_rule_def MAX_RULES_def RULE_ID_SIZE_def RULE_NAME_SIZE_def strlcpy_def zero_rule_def
        update_rule_def declare_rule_def Let_def)
  then show ?thesis
    using alert_rules_well_formed [of cpu_registry True "\<lambda>_. None" None cpu_alerts "\<lambda>_. DFin 0"] cpu_alerts_inv
    by fastforce
qed

text \<open>C23: No request can remove the default cover: after any change the built-in rules are the same
  ones, each on the same metric.\<close>

theorem builtin_rules_protected:
  assumes "alerts_apply strtod declare alerts body = Some (changed, alerts', outs)"
  shows "map (\<lambda>r. (ar_id r, ar_metric r)) (filter ar_builtin (al_rules alerts'))
    = map (\<lambda>r. (ar_id r, ar_metric r)) (filter ar_builtin (al_rules alerts))"
proof -
  have "builtin_cover (al_rules alerts') = builtin_cover (al_rules alerts)"
    using assms
  proof (cases rule: alerts_apply_cases)
    case (2 i)
    have "al_rules alerts = take i (al_rules alerts) @ al_rules alerts ! i # drop (Suc i) (al_rules alerts)"
      using 2(1) by (rule id_take_nth_drop)
    then have "filter ar_builtin (al_rules alerts)
        = filter ar_builtin (take i (al_rules alerts)) @ filter ar_builtin (drop (Suc i) (al_rules alerts))"
      using 2(2) by (metis filter.simps(2) filter_append)
    then show ?thesis by (simp add: builtin_cover_def 2(4))
  next
    case (3 rules1 i)
    have "builtin_cover rules1 = builtin_cover (al_rules alerts)"
      using 3(1) by (auto simp: builtin_cover_def add_rule_def zero_rule_def split: if_splits)
    then show ?thesis unfolding 3(4)
      by (subst builtin_cover_update) (simp_all add: 3(2) declare_rule_same update_rule_fields)
  qed simp
  then show ?thesis by (simp add: builtin_cover_def)
qed

theorem builtin_rules_protected_witness:
  "map ar_id (filter ar_builtin (al_rules cpu_alerts)) = [''cpu_high'']
   \<and> alerts_apply (\<lambda>_. DFin 0) (\<lambda>_. None) cpu_alerts ''action=delete&id=cpu_high'' = Some (False, cpu_alerts, [])
   \<and> map (\<lambda>r. (ar_id r, ar_metric r)) (filter ar_builtin (al_rules cpu_alerts)) = [(''cpu_high'', ''cpu.usage'')]"
proof -
  have body: "api_query_param (Some ''action=delete&id=cpu_high'') ''action'' = Some ''delete''"
    "api_query_param (Some ''action=delete&id=cpu_high'') ''id'' = Some ''cpu_high''"
    by code_simp+
  have "alerts_apply (\<lambda>_. DFin 0) (\<lambda>_. None) cpu_alerts ''action=delete&id=cpu_high'' = Some (False, cpu_alerts, [])"
    by (simp add: alerts_apply_def body cpu_alerts_def find_rule_def cpu_rule_def builtin_rule_def)
  with builtin_rules_protected [OF this] show ?thesis
    by (simp add: cpu_alerts_def cpu_rule_def builtin_rule_def)
qed


definition long_id_body :: string where
  "long_id_body = ''action=save&id='' @ replicate 48 CHR ''x''"


text \<open>
  What GLib documents of a key file: groups come back as they were set when their names are
  group names (not empty, no brackets and no control characters) and their strings are text.
  Printable ASCII is text in every encoding the file can be read in.
\<close>

definition storable_rule :: "alert_rule \<Rightarrow> bool" where
  "storable_rule r \<longleftrightarrow> ar_id r \<noteq> [] \<and> CHR ''['' \<notin> set (ar_id r) \<and> CHR '']'' \<notin> set (ar_id r)
     \<and> printable (ar_id r) \<and> printable (ar_name r) \<and> printable (ar_metric r) \<and> (\<exists>x. ar_threshold r = DFin x)"

definition key_file_keeps :: "(key_group list \<Rightarrow> key_group list option) \<Rightarrow> bool" where
  "key_file_keeps reload \<longleftrightarrow> (\<forall>rules. list_all storable_rule rules \<and> distinct (map ar_id rules)
     \<longrightarrow> reload (map rule_group rules) = Some (map rule_group rules))"

text \<open>C25: What is saved is loaded again: a well-formed list of rules comes back from its file with all
  its settings and a fresh run-time state, provided GLib's key file keeps the groups and every
  rule has a metric (a rule without one is dropped by the loader).\<close>

theorem rules_file_round_trip:
  assumes "rules_inv rules" "key_file_keeps reload" "\<forall>r \<in> set rules. storable_rule r \<and> ar_metric r \<noteq> []"
  shows "load_rules (reload (save_rules rules)) [] = map reset_rule rules"
proof -
  have "distinct (map ar_id rules)" using assms(1) by (simp add: rules_inv_def)
  moreover from this have "reload (map rule_group rules) = Some (map rule_group rules)"
    using assms(2,3) by (simp add: key_file_keeps_def list_all_iff)
  ultimately show ?thesis
    using load_saved [of "[]" rules] assms(1,3) by (simp add: load_rules_def save_rules_map)
qed

theorem rules_file_round_trip_witness:
  "load_rules (Some (save_rules [cpu_rule])) [] = [reset_rule cpu_rule]"
proof -
  have "rules_inv [cpu_rule]" using cpu_alerts_inv by (simp add: cpu_alerts_def)
  moreover have "key_file_keeps Some" by (simp add: key_file_keeps_def)
  moreover have "\<forall>r \<in> set [cpu_rule]. storable_rule r \<and> ar_metric r \<noteq> []"
    by (simp add: storable_rule_def printable_def ch_code_def cpu_rule_def builtin_rule_def)
  ultimately show ?thesis using rules_file_round_trip [of "[cpu_rule]" Some] by simp
qed

text \<open>The rules of a first start: one per file system and the built-in table.\<close>

definition storage_rule :: "string \<Rightarrow> alert_rule" where
  "storage_rule key = builtin_rule (strlcpy RULE_ID_SIZE (storage_rule_id key))
     (strlcpy RULE_NAME_SIZE (fs_area key @ '' almost full'')) (strlcpy METRIC_ID_MAX key) (DFin 90) 300"

lemma storage_rules_from:
  "set (foldl add_storage_rule rules keys) \<subseteq> set rules \<union> storage_rule ` set keys"
proof (induction keys arbitrary: rules)
  case (Cons k keys)
  have "set (add_storage_rule rules k) \<subseteq> insert (storage_rule k) (set rules)"
    by (auto simp: add_storage_rule_def add_rule_def storage_rule_def)
  with Cons.IH [of "add_storage_rule rules k"] show ?case by auto
qed simp

lemma builtin_rules_from:
  "set (foldl (add_builtin_rule registry) rules bs) \<subseteq> set rules \<union> set bs"
proof (induction bs arbitrary: rules)
  case (Cons b bs)
  have "set (add_builtin_rule registry rules b) \<subseteq> insert b (set rules)"
    by (auto simp: add_builtin_rule_def add_rule_def)
  with Cons.IH [of "add_builtin_rule registry rules b"] show ?case by auto
qed simp

text \<open>A file system whose name is too long for the id of its rule gets no alert cover: on a first
  start no rule watches its usage, because the rule is added under the first 47 characters of
  its id and dropped at once as stale, the expected set holding the full id.\<close>

theorem long_area_uncovered:
  assumes long: "RULE_ID_SIZE \<le> length (storage_rule_id key)" and fs: "is_fs_usage key"
    and short: "\<forall>k \<in> set (key # reg_ids registry). length k < METRIC_ID_MAX"
    and others: "\<forall>k \<in> set (reg_ids registry). storage_rule_id k \<noteq> take 47 (storage_rule_id key)"
  shows "\<forall>r \<in> set (startup_rules registry None). ar_metric r \<noteq> key"
proof (intro ballI notI)
  fix r assume r: "r \<in> set (startup_rules registry None)" and m: "ar_metric r = key"
  have kept: "ar_builtin r \<longrightarrow> ar_id r \<in> expected_builtins registry"
    and from_: "r \<in> storage_rule ` {k \<in> set (reg_ids registry). is_fs_usage k} \<or> r \<in> set BUILTIN"
    using r storage_rules_from [of "[]" "filter is_fs_usage (reg_ids registry)"]
      builtin_rules_from [of registry "foldl add_storage_rule [] (filter is_fs_usage (reg_ids registry))" BUILTIN]
    by (auto simp: startup_rules_def Let_def prune_stale_builtins_def load_rules_def)
  from from_ show False
  proof
    assume "r \<in> storage_rule ` {k \<in> set (reg_ids registry). is_fs_usage k}"
    then obtain k where k: "k \<in> set (reg_ids registry)" "r = storage_rule k" by blast
    have "ar_metric r = k" using k short by (simp add: storage_rule_def builtin_rule_def strlcpy_id)
    then have "k = key" using m by simp
    then have t: "ar_id r = take 47 (storage_rule_id key)" "ar_builtin r"
      using k(2) by (simp_all add: storage_rule_def builtin_rule_def strlcpy_def RULE_ID_SIZE_def)
    with kept consider b where "b \<in> set BUILTIN" "ar_id r = ar_id b"
      | k where "k \<in> set (reg_ids registry)" "ar_id r = storage_rule_id k"
      by (auto simp: expected_builtins_def)
    then show False
    proof cases
      case 1
      have "length (ar_id r) = 47" using t(1) long by (simp add: RULE_ID_SIZE_def)
      with 1 show False by (auto simp: BUILTIN_def builtin_rule_def)
    next
      case 2
      with others t show False by auto
    qed
  next
    assume "r \<in> set BUILTIN"
    then have "key \<in> {''cpu.usage'', ''mem.usage'', ''sensor.CPU''}" using m by (auto simp: BUILTIN_def builtin_rule_def)
    with fs show False by (auto simp: is_fs_usage_def has_prefix_def)
  qed
qed

definition long_fs_registry :: metric_registry where
  "long_fs_registry = \<lparr>reg_defs = [zero_def\<lparr>md_id := ''fs.'' @ replicate 40 CHR ''a'' @ ''.usage''\<rparr>],
     reg_count = 1, reg_capacity = 1\<rparr>"

theorem long_area_uncovered_witness:
  "''fs.'' @ replicate 40 CHR ''a'' @ ''.usage'' \<notin> ar_metric ` set (startup_rules long_fs_registry None)"
proof -
  define key where "key = ''fs.'' @ replicate 40 CHR ''a'' @ ''.usage''"
  have len: "length key = 49" by (simp add: key_def)
  have area: "fs_area key = replicate 40 CHR ''a''" by (simp add: fs_area_def len) (simp add: key_def)
  have id: "length (storage_rule_id key) = 53" by (simp add: storage_rule_id_def area)
  have "is_fs_usage key" by (simp add: is_fs_usage_def has_prefix_def has_suffix_def key_def)
  moreover have "reg_ids long_fs_registry = [key]" by (simp add: long_fs_registry_def reg_ids_def key_def)
  moreover have "storage_rule_id key \<noteq> take 47 (storage_rule_id key)"
  proof -
    have "length (take 47 (storage_rule_id key)) \<noteq> length (storage_rule_id key)" using id by simp
    then show ?thesis by metis
  qed
  ultimately have "\<forall>r \<in> set (startup_rules long_fs_registry None). ar_metric r \<noteq> key"
    using long_area_uncovered [of key long_fs_registry] id len
    by (simp add: RULE_ID_SIZE_def METRIC_ID_MAX_def)
  then have "key \<notin> ar_metric ` set (startup_rules long_fs_registry None)" by blast
  then show ?thesis unfolding key_def .
qed

end
