(* ===== verification/Selection.thy ===== *)
theory Selection
  imports CString "HOL-Library.Char_ord" "HOL-Library.List_Lexorder"
begin

text \<open>
  \<^verbatim>\<open>app/selection.h\<close>, \<^verbatim>\<open>app/selection.c\<close>: the disabled metric ids of the two scopes. A
  \<open>GHashTable\<close> of ids is a set; the order in which the table is walked when it is saved is a
  parameter. The file is the \<open>disabled\<close> string of each group of a \<open>GKeyFile\<close>; its text is GLib's.
\<close>

section \<open>Model\<close>

datatype select_scope = SELECT_DISPLAY | SELECT_TRANSMIT | SELECT_SCOPES

definition scopes :: "select_scope list" where
  "scopes = [SELECT_DISPLAY, SELECT_TRANSMIT]"

type_synonym selection = "select_scope \<Rightarrow> string set"

type_synonym selection_file = "(string \<times> string) list"

definition selection_scope_name :: "select_scope \<Rightarrow> string" where
  "selection_scope_name scope = (if scope = SELECT_TRANSMIT then ''transmit'' else ''display'')"

text \<open>The ids of a comma-separated list: stripped, the empty ones left out.\<close>

fun add_ids :: "string list \<Rightarrow> string set \<Rightarrow> string set" where
  "add_ids [] disabled = disabled"
| "add_ids (part # parts) disabled = (let trimmed = strstrip part in
     add_ids parts (if trimmed \<noteq> [] then insert trimmed disabled else disabled))"

fun load_scopes :: "select_scope list \<Rightarrow> selection_file \<Rightarrow> selection \<Rightarrow> selection" where
  "load_scopes [] groups selection = selection"
| "load_scopes (scope # rest) groups selection = load_scopes rest groups
     (case map_of groups (selection_scope_name scope) of
        None \<Rightarrow> selection
      | Some csv \<Rightarrow> selection(scope := add_ids (strsplit CHR '','' csv) (selection scope)))"

definition load_selection :: "selection_file option \<Rightarrow> selection \<Rightarrow> selection" where
  "load_selection groups selection = (case groups of None \<Rightarrow> selection
     | Some gs \<Rightarrow> load_scopes scopes gs selection)"

fun csv_of :: "string \<Rightarrow> string list \<Rightarrow> string" where
  "csv_of csv [] = csv"
| "csv_of csv (key # keys) = csv_of ((if csv \<noteq> [] then csv @ '','' else csv) @ key) keys"

definition save_selection :: "(string set \<Rightarrow> string list) \<Rightarrow> selection \<Rightarrow> selection_file" where
  "save_selection order selection =
     map (\<lambda>scope. (selection_scope_name scope, csv_of [] (order (selection scope)))) scopes"

definition selection_new :: "selection_file option \<Rightarrow> selection" where
  "selection_new groups = load_selection groups (\<lambda>_. {})"

text \<open>The selection is \<open>None\<close> where the code has a null pointer.\<close>

definition selection_enabled :: "selection option \<Rightarrow> select_scope \<Rightarrow> string \<Rightarrow> bool" where
  "selection_enabled selection scope key = (case selection of None \<Rightarrow> True
     | Some s \<Rightarrow> if scope = SELECT_SCOPES then True else key \<notin> s scope)"

text \<open>The second component is the file written, if any.\<close>

definition selection_set_disabled :: "(string set \<Rightarrow> string list) \<Rightarrow> selection \<Rightarrow> select_scope \<Rightarrow> string option
    \<Rightarrow> selection \<times> selection_file option" where
  "selection_set_disabled order selection scope csv = (if scope = SELECT_SCOPES then (selection, None)
     else let s = selection(scope := add_ids (strsplit CHR '','' (case csv of Some t \<Rightarrow> t | None \<Rightarrow> [])) {})
       in (s, Some (save_selection order s)))"

section \<open>Lists of ids\<close>

definition ids_of_csv :: "string \<Rightarrow> string set" where
  "ids_of_csv csv = strstrip ` set (strsplit CHR '','' csv) - {[]}"

lemma add_ids: "add_ids parts d = d \<union> (strstrip ` set parts - {[]})"
  by (induction parts d rule: add_ids.induct) (auto simp: Let_def)

definition id_ok :: "string \<Rightarrow> bool" where
  "id_ok key \<longleftrightarrow> key \<noteq> [] \<and> strstrip key = key \<and> CHR '','' \<notin> set key"

definition selection_inv :: "selection \<Rightarrow> bool" where
  [inv_defs]: "selection_inv s \<longleftrightarrow> (\<forall>scope \<in> set scopes. finite (s scope) \<and> Ball (s scope) id_ok)"

lemma ids_of_csv_ok: "Ball (ids_of_csv csv) id_ok" "finite (ids_of_csv csv)"
proof -
  show "Ball (ids_of_csv csv) id_ok"
    using strstrip_set split_parts_no_delim by (fastforce simp: ids_of_csv_def id_ok_def strsplit_def split: if_splits)
  show "finite (ids_of_csv csv)" by (simp add: ids_of_csv_def)
qed

lemma set_disabled_eq:
  assumes "scope \<noteq> SELECT_SCOPES"
  shows "selection_set_disabled order s scope (Some csv)
    = (s(scope := ids_of_csv csv), Some (save_selection order (s(scope := ids_of_csv csv))))"
  using assms by (simp add: selection_set_disabled_def add_ids ids_of_csv_def Let_def)

lemma join_merge: "join d ((s @ d # t) # ss) = s @ d # join d (t # ss)"
  by (cases ss) simp_all

lemma csv_of_join: "\<forall>k \<in> set keys. k \<noteq> [] \<Longrightarrow>
    csv_of csv keys = (if csv = [] then join CHR '','' keys else join CHR '','' (csv # keys))"
  by (induction keys arbitrary: csv) (auto simp: join_merge)

lemma ids_of_joined:
  assumes "\<forall>k \<in> set keys. id_ok k"
  shows "ids_of_csv (csv_of [] keys) = set keys"
proof (cases keys)
  case (Cons k ks)
  have ne: "\<forall>k \<in> set keys. k \<noteq> []" and nc: "\<forall>k \<in> set keys. CHR '','' \<notin> set k"
    and strip: "strstrip ` set keys = set keys" using assms by (auto simp: id_ok_def image_def)
  have "keys \<noteq> []" "join CHR '','' keys \<noteq> []" using Cons ne by (cases ks; simp)+
  moreover have "csv_of [] keys = join CHR '','' keys" using csv_of_join [OF ne, of "[]"] by simp
  ultimately have "strsplit CHR '','' (csv_of [] keys) = keys"
    using split_parts_join [of keys "CHR '',''"] nc by (simp add: strsplit_def)
  then show ?thesis using ne strip by (auto simp: ids_of_csv_def)
qed (simp add: ids_of_csv_def strsplit_def)

text \<open>Loading what was saved, before any text conversion of the key file.\<close>

lemma load_saved_selection:
  assumes "selection_inv s" "\<forall>d. finite d \<longrightarrow> set (order d) = d" "s SELECT_SCOPES = {}"
  shows "selection_new (Some (save_selection order s)) = s"
proof -
  have o: "set (order (s scope)) = s scope" "ids_of_csv (csv_of [] (order (s scope))) = s scope"
    if "scope \<in> set scopes" for scope
  proof -
    show set: "set (order (s scope)) = s scope" using that assms(1,2) by (auto simp: selection_inv_def)
    then show "ids_of_csv (csv_of [] (order (s scope))) = s scope"
      using ids_of_joined that assms(1) by (auto simp: selection_inv_def)
  qed
  have "load_scopes scopes (save_selection order s) (\<lambda>_. {}) scope = s scope" for scope
    using o [of SELECT_DISPLAY] o [of SELECT_TRANSMIT] assms(3)
    by (cases scope) (simp_all add: scopes_def save_selection_def selection_scope_name_def add_ids flip: ids_of_csv_def)
  then show ?thesis by (auto simp: selection_new_def load_selection_def)
qed

section \<open>Property\<close>

text \<open>
  What GLib documents of a key file: strings of printable text come back as they were set. The
  walk over a hash table visits every key.
\<close>

definition selection_file_keeps :: "(selection_file \<Rightarrow> selection_file option) \<Rightarrow> bool" where
  "selection_file_keeps reload \<longleftrightarrow>
     (\<forall>groups. (\<forall>(n, csv) \<in> set groups. printable csv) \<longrightarrow> reload groups = Some groups)"

definition walks :: "(string set \<Rightarrow> string list) \<Rightarrow> bool" where
  "walks order \<longleftrightarrow> (\<forall>d. finite d \<longrightarrow> set (order d) = d)"

lemma printable_csv: "printable csv \<Longrightarrow> \<forall>k \<in> set keys. printable k \<Longrightarrow> printable (csv_of csv keys)"
  by (induction keys arbitrary: csv) (auto simp: printable_def ch_code_def)


definition sorted_walk :: "string set \<Rightarrow> string list" where
  "sorted_walk d = sorted_list_of_set d"


end
