(* ===== verification/Api.thy ===== *)
theory Api
  imports Json Query Selection Store
begin

text \<open>
  \<^verbatim>\<open>app/api.h\<close>, \<^verbatim>\<open>app/api.c\<close>: the JSON documents and the Prometheus text. Not under \<^verbatim>\<open>src/\<close>
  and therefore parameters: the \<open>%.7g\<close> format of \<open>g_ascii_formatd\<close> and the clock. \<open>None\<close> is a
  memory error: a store that holds more metrics than the buffer made for the registry.
\<close>

section \<open>State\<close>

record device_info =
  dev_model :: string
  dev_product :: string
  dev_type :: string
  dev_serial :: string
  dev_soc :: string
  dev_arch :: string
  dev_firmware :: string
  dev_hostname :: string

record api =
  api_registry :: metric_registry
  api_store :: store
  api_selection :: "selection option"
  api_device :: device_info
  api_app_version :: string
  api_persist_path :: "string option"
  api_mqtt_status :: string
  api_influx_status :: string
  api_started :: gint64

type_synonym formatter = "gfloat \<Rightarrow> string"

definition MAX_SERIES_POINTS :: guint where "MAX_SERIES_POINTS = 4000"

abbreviation api_defs :: "api \<Rightarrow> metric_def list" where
  "api_defs a \<equiv> take (unat (reg_count (api_registry a))) (reg_defs (api_registry a))"

section \<open>Pieces of text\<close>

definition escape_char :: "char \<Rightarrow> string" where
  "escape_char c = (if c = CHR 0x22 then [CHR 0x5C, CHR 0x22]
     else if c = CHR 0x5C then [CHR 0x5C, CHR 0x5C]
     else if c = CHR 0x0A then [CHR 0x5C, CHR ''n'']
     else if c = CHR 0x0D then [CHR 0x5C, CHR ''r'']
     else if c = CHR 0x09 then [CHR 0x5C, CHR ''t'']
     else if ch_code c < 32 then unicode_escape c else [c])"

definition escape_json :: "string \<Rightarrow> string" where
  "escape_json s = concat (map escape_char s)"

definition key_text :: "string \<Rightarrow> string" where
  "key_text key = quoted key @ '':''"

definition append_kv :: "string \<Rightarrow> string \<Rightarrow> bool \<Rightarrow> string" where
  "append_kv key val comma = (if comma then '','' else []) @ quoted (escape_json key) @ CHR '':'' # quoted (escape_json val)"

definition append_number :: "formatter \<Rightarrow> gfloat \<Rightarrow> string" where
  "append_number fmt v = (if f32_isnan v \<or> f32_isinf v then ''null'' else fmt v)"

text \<open>
  The readings the store holds, in a buffer with room for the registry: outer \<open>None\<close> where the
  copy would not fit, inner \<open>None\<close> where nothing was sampled yet.
\<close>

definition latest_values :: "api \<Rightarrow> (gfloat list \<times> gint64) option option" where
  "latest_values a = (case store_latest (api_store a) of None \<Rightarrow> Some None
     | Some (vs, ts) \<Rightarrow> if length vs = unat (reg_count (api_registry a)) then Some (Some (vs, ts)) else None)"

section \<open>Documents\<close>

definition tier_json :: "api \<Rightarrow> nat \<Rightarrow> string option" where
  "tier_json a i = do {
     tier \<leftarrow> arr_get (st_tiers (api_store a)) i;
     span \<leftarrow> store_tier_span_s (api_store a) i;
     Some (CHR ''{'' # key_text ''interval'' @ show_nat (unat (tier_interval_s tier))
       @ '','' @ key_text ''capacity'' @ show_nat (unat (tier_capacity tier))
       @ '','' @ key_text ''span'' @ show_nat (unat span)
       @ '','' @ key_text ''points'' @ show_nat (unat (tier_count tier))
       @ '','' @ key_text ''persisted''
       @ json_bool (api_persist_path a \<noteq> None \<and> i = STORE_TIERS - 1) @ ''}'')
   }"

definition metric_json :: "api \<Rightarrow> metric_def \<Rightarrow> string" where
  "metric_json a d = CHR ''{'' # append_kv ''id'' (md_id d) False @ append_kv ''label'' (md_label d) True
     @ append_kv ''unit'' (md_unit d) True @ append_kv ''group'' (md_group d) True
     @ '','' @ key_text ''display'' @ json_bool (selection_enabled (api_selection a) SELECT_DISPLAY (md_id d))
     @ '','' @ key_text ''transmit'' @ json_bool (selection_enabled (api_selection a) SELECT_TRANSMIT (md_id d))
     @ ''}''"

definition api_meta_json :: "api \<Rightarrow> string option" where
  "api_meta_json a = (let dev = api_device a in do {
     t0 \<leftarrow> tier_json a 0;
     t1 \<leftarrow> tier_json a 1;
     t2 \<leftarrow> tier_json a 2;
     Some (CHR ''{'' # key_text ''app'' @ CHR ''{'' # append_kv ''name'' ''Metrics'' False
       @ append_kv ''version'' (api_app_version a) True
       @ ''},'' @ key_text ''device'' @ CHR ''{'' # append_kv ''model'' (dev_model dev) False
       @ append_kv ''product'' (dev_product dev) True @ append_kv ''type'' (dev_type dev) True
       @ append_kv ''serial'' (dev_serial dev) True @ append_kv ''soc'' (dev_soc dev) True
       @ append_kv ''architecture'' (dev_arch dev) True @ append_kv ''firmware'' (dev_firmware dev) True
       @ append_kv ''hostname'' (dev_hostname dev) True
       @ ''},'' @ key_text ''store'' @ CHR ''{'' # key_text ''persisted'' @ json_bool (api_persist_path a \<noteq> None)
       @ '','' @ append_kv ''persistPath'' (case api_persist_path a of Some p \<Rightarrow> p | None \<Rightarrow> []) False
       @ '','' @ key_text ''tiers'' @ CHR ''['' # t0 @ CHR '','' # t1 @ CHR '','' # t2
       @ ''],'' @ key_text ''bytes'' @ show_nat (store_bytes (api_store a))
       @ ''},'' @ key_text ''windows'' @ ''[300,900,1800,3600,21600,86400,604800,2592000],''
       @ key_text ''metrics'' @ CHR ''['' # join CHR '','' (map (metric_json a) (api_defs a)) @ '']}'')
   })"

text \<open>The readings that are not NaN, as members of an object.\<close>

definition value_member :: "formatter \<Rightarrow> metric_def \<times> gfloat \<Rightarrow> string" where
  "value_member fmt = (\<lambda>(d, v). quoted (escape_json (md_id d)) @ CHR '':'' # append_number fmt v)"

definition append_values_object :: "formatter \<Rightarrow> api \<Rightarrow> gfloat list \<Rightarrow> string" where
  "append_values_object fmt a vs = CHR ''{''
     # join CHR '','' (map (value_member fmt) (filter (\<lambda>(d, v). \<not> f32_isnan v) (zip (api_defs a) vs))) @ ''}''"

definition api_current_json :: "formatter \<Rightarrow> api \<Rightarrow> string option" where
  "api_current_json fmt a = do {
     latest \<leftarrow> latest_values a;
     (case latest of
        None \<Rightarrow> Some (CHR ''{'' # key_text ''timestamp'' @ ''0,'' @ key_text ''values'' @ ''{}}'')
      | Some (vs, ts) \<Rightarrow> Some (CHR ''{'' # key_text ''timestamp'' @ show_int ts @ '','' @ key_text ''values''
          @ append_values_object fmt a vs @ ''}''))
   }"

definition api_current_values_json :: "formatter \<Rightarrow> api \<Rightarrow> string option" where
  "api_current_values_json fmt a = do {
     latest \<leftarrow> latest_values a;
     (case latest of None \<Rightarrow> Some ''{}''
      | Some (vs, ts) \<Rightarrow> Some (CHR ''{'' # join CHR '','' (map (value_member fmt)
          (filter (\<lambda>(d, v). \<not> (f32_isnan v \<or> \<not> selection_enabled (api_selection a) SELECT_TRANSMIT (md_id d)))
            (zip (api_defs a) vs))) @ ''}''))
   }"

subsection \<open>Series\<close>

text \<open>
  The loop over the registry from metric \<open>i\<close> on: the points of every wanted metric, and the
  time stamps of the first one that has any.
\<close>

fun series_metrics :: "store \<Rightarrow> nat \<Rightarrow> gint64 \<Rightarrow> string list option \<Rightarrow> nat \<Rightarrow> metric_def list \<Rightarrow> gint64 list
    \<Rightarrow> ((string \<times> gfloat list) list \<times> gint64 list) option" where
  "series_metrics s tier since wanted i [] shared = Some ([], shared)"
| "series_metrics s tier since wanted i (d # ds) shared =
     (if wanted \<noteq> None \<and> md_id d \<notin> set (the wanted)
      then series_metrics s tier since wanted (Suc i) ds shared
      else do {
        points \<leftarrow> store_series s tier (of_nat i) since MAX_SERIES_POINTS;
        let shared' = (if shared = [] \<and> points \<noteq> [] then map fst points else shared);
        (rest, shared'') \<leftarrow> series_metrics s tier since wanted (Suc i) ds shared';
        Some ((md_id d, map snd points) # rest, shared'')
      })"

definition series_window :: "string option \<Rightarrow> guint" where
  "series_window query = (let w = (case api_query_param query ''window'' of
       Some t \<Rightarrow> guint_of64 (strtoull10 t) | None \<Rightarrow> 1800) in if w = 0 then 1800 else w)"

definition series_wanted :: "string option \<Rightarrow> string list option" where
  "series_wanted query = map_option (strsplit CHR '','') (api_query_param query ''metrics'')"

definition api_series_json :: "formatter \<Rightarrow> gint64 \<Rightarrow> api \<Rightarrow> string option \<Rightarrow> string option" where
  "api_series_json fmt now a query = (let window = series_window query in do {
     tier_index \<leftarrow> store_tier_for_window (api_store a) window;
     tier \<leftarrow> arr_get (st_tiers (api_store a)) tier_index;
     let since = now - int (unat window);
     (series, timestamps) \<leftarrow> series_metrics (api_store a) tier_index since (series_wanted query) 0 (api_defs a) [];
     Some (CHR ''{'' # key_text ''window'' @ show_nat (unat window) @ '','' @ key_text ''tier'' @ show_nat tier_index
       @ '','' @ key_text ''interval'' @ show_nat (unat (tier_interval_s tier)) @ '','' @ key_text ''series'' @ CHR ''{''
       # join CHR '','' (map (\<lambda>(key, vs). quoted (escape_json key) @ '':['' @ join CHR '','' (map (append_number fmt) vs) @ '']'') series)
       @ ''},'' @ key_text ''timestamps'' @ CHR ''['' # join CHR '','' (map show_int timestamps) @ '']}'')
   })"

definition api_health_json :: "gint64 \<Rightarrow> api \<Rightarrow> string option" where
  "api_health_json now a = do {
     tier \<leftarrow> arr_get (st_tiers (api_store a)) 0;
     Some (CHR ''{'' # key_text ''ok'' @ ''true,'' @ key_text ''metrics'' @ show_nat (unat (reg_count (api_registry a)))
       @ '','' @ key_text ''uptime'' @ show_int (now - api_started a)
       @ '','' @ key_text ''samples'' @ show_nat (unat (tier_count tier))
       @ '','' @ key_text ''bytes'' @ show_nat (store_bytes (api_store a))
       @ '','' @ key_text ''persisted'' @ json_bool (api_persist_path a \<noteq> None)
       @ '','' @ key_text ''mqtt'' @ quoted (if api_mqtt_status a \<noteq> [] then api_mqtt_status a else ''disabled'')
       @ '','' @ key_text ''influx'' @ quoted (if api_influx_status a \<noteq> [] then api_influx_status a else ''disabled'')
       @ ''}'')
   }"

end
