(* ===== verification/ApiProps.thy ===== *)
theory ApiProps
  imports Api
begin

text \<open>
  The documents of \<^verbatim>\<open>app/api.c\<close> are JSON: each is the text of a tree, and the escaper meets
  the interface of \<open>json_escaping\<close>, so the reference parser gives the tree back. The tree of
  a series says which samples are sent.
\<close>

section \<open>The escaper\<close>

lemma parse_escape_char: "parse_string (escape_char c @ r) = cons_char c (parse_string r)"
proof -
  have simple: "parse_string ([CHR 0x5C, e] @ r) = cons_char c (parse_string r)" if "simple_escape e = Some c" for e
    using parse_simple_escape [OF that] by simp
  have letters: "simple_escape CHR 0x22 = Some CHR 0x22" "simple_escape CHR 0x5C = Some CHR 0x5C"
    "simple_escape CHR ''n'' = Some CHR 0x0A" "simple_escape CHR ''r'' = Some CHR 0x0D"
    "simple_escape CHR ''t'' = Some CHR 0x09" by code_simp+
  consider "c \<in> {CHR 0x22, CHR 0x5C, CHR 0x0A, CHR 0x0D, CHR 0x09}"
    | "c \<notin> {CHR 0x22, CHR 0x5C, CHR 0x0A, CHR 0x0D, CHR 0x09}" "ch_code c < 32"
    | "c \<notin> {CHR 0x22, CHR 0x5C, CHR 0x0A, CHR 0x0D, CHR 0x09}" "32 \<le> ch_code c" by linarith
  then show ?thesis
  proof cases
    case 1
    then show ?thesis using simple letters by (elim insertE emptyE) (simp_all only: escape_char_def, simp_all)
  next
    case 2
    then have "escape_char c = unicode_escape c" by (simp add: escape_char_def)
    with parse_unicode_escape [OF 2(2)] show ?thesis by (simp only:)
  next
    case 3
    then have "escape_char c = [c]" by (simp add: escape_char_def)
    with 3 show ?thesis by (simp only: append.simps) (simp add: parse_string_plain)
  qed
qed

interpretation api_json: json_escaping escape_json "\<lambda>_. True"
  by unfold_locales (simp add: escape_json_def parse_string_concat parse_escape_char)

section \<open>Trees\<close>

definition formats :: "formatter \<Rightarrow> bool" where
  "formats fmt \<longleftrightarrow> (\<forall>v. \<not> f32_isnan v \<and> \<not> f32_isinf v \<longrightarrow> json_number (fmt v))"

definition number_tree :: "formatter \<Rightarrow> gfloat \<Rightarrow> jval" where
  "number_tree fmt v = (if f32_isnan v \<or> f32_isinf v then JNull else JNum (fmt v))"

definition nat_tree :: "nat \<Rightarrow> jval" where
  "nat_tree n = JNum (show_nat n)"

definition values_tree :: "formatter \<Rightarrow> (metric_def \<times> gfloat) list \<Rightarrow> jval" where
  "values_tree fmt xs = JObj (map (\<lambda>(d, v). (md_id d, number_tree fmt v)) xs)"

text \<open>The readings of the latest sample, with their metrics.\<close>

definition known_values :: "api \<Rightarrow> (metric_def \<times> gfloat) list" where
  "known_values a = filter (\<lambda>(d, v). \<not> f32_isnan v) (zip (api_defs a) (st_latest (api_store a)))"

definition current_tree :: "formatter \<Rightarrow> api \<Rightarrow> jval" where
  "current_tree fmt a = (if st_has_latest (api_store a)
     then JObj [(''timestamp'', JNum (show_int (st_latest_ts (api_store a)))), (''values'', values_tree fmt (known_values a))]
     else JObj [(''timestamp'', JNum ''0''), (''values'', JObj [])])"

definition transmitted_tree :: "formatter \<Rightarrow> api \<Rightarrow> jval" where
  "transmitted_tree fmt a = (if st_has_latest (api_store a)
     then values_tree fmt (filter (\<lambda>(d, v). selection_enabled (api_selection a) SELECT_TRANSMIT (md_id d)) (known_values a))
     else JObj [])"

definition tier_tree :: "api \<Rightarrow> nat \<Rightarrow> jval" where
  "tier_tree a i = (let tier = st_tiers (api_store a) ! i in
     JObj [(''interval'', nat_tree (unat (tier_interval_s tier))), (''capacity'', nat_tree (unat (tier_capacity tier))),
       (''span'', nat_tree (unat (tier_interval_s tier * tier_capacity tier))),
       (''points'', nat_tree (unat (tier_count tier))),
       (''persisted'', JBool (api_persist_path a \<noteq> None \<and> i = 2))])"

definition metric_tree :: "api \<Rightarrow> metric_def \<Rightarrow> jval" where
  "metric_tree a d = JObj [(''id'', JStr (md_id d)), (''label'', JStr (md_label d)), (''unit'', JStr (md_unit d)),
     (''group'', JStr (md_group d)),
     (''display'', JBool (selection_enabled (api_selection a) SELECT_DISPLAY (md_id d))),
     (''transmit'', JBool (selection_enabled (api_selection a) SELECT_TRANSMIT (md_id d)))]"

definition meta_tree :: "api \<Rightarrow> jval" where
  "meta_tree a = (let dev = api_device a in
     JObj [(''app'', JObj [(''name'', JStr ''Metrics''), (''version'', JStr (api_app_version a))]),
       (''device'', JObj [(''model'', JStr (dev_model dev)), (''product'', JStr (dev_product dev)),
          (''type'', JStr (dev_type dev)), (''serial'', JStr (dev_serial dev)), (''soc'', JStr (dev_soc dev)),
          (''architecture'', JStr (dev_arch dev)), (''firmware'', JStr (dev_firmware dev)),
          (''hostname'', JStr (dev_hostname dev))]),
       (''store'', JObj [(''persisted'', JBool (api_persist_path a \<noteq> None)),
          (''persistPath'', JStr (case api_persist_path a of Some p \<Rightarrow> p | None \<Rightarrow> [])),
          (''tiers'', JArr [tier_tree a 0, tier_tree a 1, tier_tree a 2]),
          (''bytes'', nat_tree (store_bytes (api_store a)))]),
       (''windows'', JArr (map JNum [''300'', ''900'', ''1800'', ''3600'', ''21600'', ''86400'', ''604800'', ''2592000''])),
       (''metrics'', JArr (map (metric_tree a) (api_defs a)))])"

definition health_tree :: "gint64 \<Rightarrow> api \<Rightarrow> jval" where
  "health_tree now a = JObj [(''ok'', JBool True), (''metrics'', nat_tree (unat (reg_count (api_registry a)))),
     (''uptime'', JNum (show_int (now - api_started a))),
     (''samples'', nat_tree (unat (tier_count (st_tiers (api_store a) ! 0)))),
     (''bytes'', nat_tree (store_bytes (api_store a))), (''persisted'', JBool (api_persist_path a \<noteq> None)),
     (''mqtt'', JStr (if api_mqtt_status a \<noteq> [] then api_mqtt_status a else ''disabled'')),
     (''influx'', JStr (if api_influx_status a \<noteq> [] then api_influx_status a else ''disabled''))]"

text \<open>The samples of a window, and the series of the metrics asked for.\<close>

definition window_rows :: "api \<Rightarrow> nat \<Rightarrow> gint64 \<Rightarrow> (gint64 \<times> gfloat list) list" where
  "window_rows a tier since = take 4000 (filter (\<lambda>r. since \<le> fst r) (store_rows (api_store a) tier))"

definition wanted_defs :: "api \<Rightarrow> string option \<Rightarrow> (nat \<times> metric_def) list" where
  "wanted_defs a query = filter (\<lambda>(i, d). series_wanted query = None \<or> md_id d \<in> set (the (series_wanted query)))
     (enumerate 0 (api_defs a))"

definition series_tree :: "formatter \<Rightarrow> gint64 \<Rightarrow> api \<Rightarrow> string option \<Rightarrow> jval" where
  "series_tree fmt now a query = (let window = series_window query;
       tier = the (store_tier_for_window (api_store a) window);
       rows = window_rows a tier (now - int (unat window)) in
     JObj [(''window'', nat_tree (unat window)), (''tier'', nat_tree tier),
       (''interval'', nat_tree (unat (tier_interval_s (st_tiers (api_store a) ! tier)))),
       (''series'', JObj (map (\<lambda>(i, d). (md_id d, JArr (map (\<lambda>r. number_tree fmt (snd r ! i)) rows))) (wanted_defs a query))),
       (''timestamps'', JArr (if wanted_defs a query = [] then [] else map (\<lambda>r. JNum (show_int (fst r))) rows))])"

section \<open>Each document is the text of its tree\<close>

lemma escape_plain: "list_all (\<lambda>c. c \<noteq> CHR 0x22 \<and> c \<noteq> CHR 0x5C \<and> 32 \<le> ch_code c) s \<Longrightarrow> escape_json s = s"
  by (induction s) (auto simp: escape_json_def escape_char_def ch_code_def)

lemma escape_keys:
  "escape_json ''app'' = ''app''" "escape_json ''name'' = ''name''" "escape_json ''version'' = ''version''"
  "escape_json ''Metrics'' = ''Metrics''" "escape_json ''device'' = ''device''" "escape_json ''model'' = ''model''"
  "escape_json ''product'' = ''product''" "escape_json ''type'' = ''type''" "escape_json ''serial'' = ''serial''"
  "escape_json ''soc'' = ''soc''" "escape_json ''architecture'' = ''architecture''"
  "escape_json ''firmware'' = ''firmware''" "escape_json ''hostname'' = ''hostname''"
  "escape_json ''store'' = ''store''" "escape_json ''persisted'' = ''persisted''"
  "escape_json ''persistPath'' = ''persistPath''" "escape_json ''tiers'' = ''tiers''" "escape_json ''bytes'' = ''bytes''"
  "escape_json ''windows'' = ''windows''" "escape_json ''metrics'' = ''metrics''" "escape_json ''id'' = ''id''"
  "escape_json ''label'' = ''label''" "escape_json ''unit'' = ''unit''" "escape_json ''group'' = ''group''"
  "escape_json ''display'' = ''display''" "escape_json ''transmit'' = ''transmit''"
  "escape_json ''interval'' = ''interval''" "escape_json ''capacity'' = ''capacity''" "escape_json ''span'' = ''span''"
  "escape_json ''points'' = ''points''" "escape_json ''timestamp'' = ''timestamp''" "escape_json ''values'' = ''values''"
  "escape_json ''window'' = ''window''" "escape_json ''tier'' = ''tier''" "escape_json ''series'' = ''series''"
  "escape_json ''timestamps'' = ''timestamps''" "escape_json ''ok'' = ''ok''" "escape_json ''uptime'' = ''uptime''"
  "escape_json ''samples'' = ''samples''" "escape_json ''mqtt'' = ''mqtt''" "escape_json ''influx'' = ''influx''"
  by (simp_all add: escape_plain ch_code_def)

lemma append_number_tree: "append_number fmt v = render escape_json (number_tree fmt v)"
  by (simp add: append_number_def number_tree_def)

lemma append_values_tree:
  "CHR ''{'' # join CHR '','' (map (value_member fmt) xs) @ ''}'' = render escape_json (values_tree fmt xs)"
proof -
  have "map (value_member fmt) xs = map (\<lambda>m. quoted (escape_json (fst m)) @ CHR '':'' # render escape_json (snd m))
      (map (\<lambda>(d, v). (md_id d, number_tree fmt v)) xs)"
    by (simp add: value_member_def append_number_tree case_prod_beta)
  then show ?thesis by (simp only: values_tree_def render_members)
qed

lemma metric_json_tree: "metric_json a d = render escape_json (metric_tree a d)"
  by (simp add: metric_json_def metric_tree_def render_simps append_kv_def key_text_def escape_keys quoted_def)

definition api_inv :: "api \<Rightarrow> bool" where
  [inv_defs]: "api_inv a \<longleftrightarrow> store_inv (api_store a) \<and> st_n_metrics (api_store a) = reg_count (api_registry a)
     \<and> reg_inv (api_registry a)"

lemma api_inv_tiers:
  assumes "api_inv a" "i < 3"
  shows "arr_get (st_tiers (api_store a)) i = Some (st_tiers (api_store a) ! i)"
  using assms by (simp add: api_inv_def store_inv_def STORE_TIERS_def arr_simps)

lemma tier_json_tree: "api_inv a \<Longrightarrow> i < 3 \<Longrightarrow> tier_json a i = Some (render escape_json (tier_tree a i))"
  using api_inv_tiers [of a i]
  by (simp add: tier_json_def tier_tree_def store_tier_span_s_def render_simps key_text_def escape_keys quoted_def
      STORE_TIERS_def nat_tree_def Let_def)

lemma map_metric_json: "map (metric_json a) ds = map (render escape_json) (map (metric_tree a) ds)"
  by (simp add: metric_json_tree)

lemma meta_json_tree: "api_inv a \<Longrightarrow> api_meta_json a = Some (render escape_json (meta_tree a))"
  by (simp add: api_meta_json_def meta_tree_def tier_json_tree Let_def map_metric_json render_simps append_kv_def
      key_text_def escape_keys quoted_def nat_tree_def split: option.split)

lemma latest_values_known:
  assumes "api_inv a"
  shows "latest_values a = Some (if st_has_latest (api_store a)
    then Some (st_latest (api_store a), st_latest_ts (api_store a)) else None)"
  using assms by (simp add: latest_values_def store_latest_def api_inv_def store_inv_def)

lemma current_json_tree: "api_inv a \<Longrightarrow> api_current_json fmt a = Some (render escape_json (current_tree fmt a))"
  by (simp add: api_current_json_def current_tree_def latest_values_known append_values_object_def append_values_tree
      known_values_def key_text_def quoted_def render_members escape_keys)

lemma transmitted_json_tree:
  assumes "api_inv a"
  shows "api_current_values_json fmt a = Some (render escape_json (transmitted_tree fmt a))"
proof -
  have "filter (\<lambda>(d, v). \<not> (f32_isnan v \<or> \<not> selection_enabled (api_selection a) SELECT_TRANSMIT (md_id d))) xs
      = filter (\<lambda>(d, v). selection_enabled (api_selection a) SELECT_TRANSMIT (md_id d)) (filter (\<lambda>(d, v). \<not> f32_isnan v) xs)"
    for xs :: "(metric_def \<times> gfloat) list" by (induction xs) auto
  then show ?thesis
    using latest_values_known [OF assms]
    by (simp add: api_current_values_json_def transmitted_tree_def known_values_def append_values_tree render_members)
qed

lemma health_json_tree:
  assumes "api_inv a" "escape_json (api_mqtt_status a) = api_mqtt_status a"
    "escape_json (api_influx_status a) = api_influx_status a"
  shows "api_health_json now a = Some (render escape_json (health_tree now a))"
proof -
  have "escape_json ''disabled'' = ''disabled''" by (simp add: escape_plain ch_code_def)
  then show ?thesis
    using assms api_inv_tiers [OF assms(1), of 0]
    by (simp add: api_health_json_def health_tree_def render_simps key_text_def escape_keys quoted_def nat_tree_def json_bool_def)
qed

text \<open>The loop over the metrics.\<close>

lemma series_metrics_ok:
  fixes since :: gint64 and wanted :: "string list option"
  assumes "store_inv s" "tier < STORE_TIERS" "i + length ds \<le> unat (st_n_metrics s)"
  defines "rows \<equiv> take 4000 (filter (\<lambda>r. since \<le> fst r) (store_rows s tier))"
    and "picked \<equiv> filter (\<lambda>(j, d). wanted = None \<or> md_id d \<in> set (the wanted)) (enumerate i ds)"
  shows "series_metrics s tier since wanted i ds shared
    = Some (map (\<lambda>(j, d). (md_id d, map (\<lambda>r. snd r ! j) rows)) picked,
        if shared \<noteq> [] \<or> picked = [] then shared else map fst rows)"
proof -
  define want where "want d \<longleftrightarrow> wanted = None \<or> md_id d \<in> set (the wanted)" for d :: metric_def
  have skip: "wanted \<noteq> None \<and> md_id d \<notin> set (the wanted) \<longleftrightarrow> \<not> want d" for d by (auto simp: want_def)
  have "series_metrics s tier since wanted i ds shared
    = Some (map (\<lambda>(j, d). (md_id d, map (\<lambda>r. snd r ! j) rows)) (filter (\<lambda>(j, d). want d) (enumerate i ds)),
        if shared \<noteq> [] \<or> filter (\<lambda>(j, d). want d) (enumerate i ds) = [] then shared else map fst rows)"
    using assms(3)
  proof (induction ds arbitrary: i shared)
    case (Cons d ds)
    have len: "Suc i + length ds \<le> unat (st_n_metrics s)" and i: "i < unat (st_n_metrics s)" using Cons.prems by auto
    note IH = Cons.IH [OF len]
    show ?case
    proof (cases "want d")
      case False
      then show ?thesis by (simp only: series_metrics.simps skip enumerate_simps) (simp add: IH)
    next
      case True
      have "unat (of_nat i :: guint) = i"
        using i unat_guint [of "st_n_metrics s"] by (simp add: unat_of_nat take_bit_nat_def)
      then have "store_series s tier (of_nat i) since MAX_SERIES_POINTS = Some (map (\<lambda>r. (fst r, snd r ! i)) rows)"
        using store_series_ok [OF assms(1,2), of "of_nat i" since MAX_SERIES_POINTS] i
        by (simp add: MAX_SERIES_POINTS_def metric_points_def rows_def take_map)
      with True show ?thesis
        by (simp only: series_metrics.simps skip enumerate_simps) (auto simp: IH comp_def)
    qed
  qed simp
  then show ?thesis by (simp add: picked_def want_def)
qed

lemma series_json_tree:
  assumes inv: "api_inv a"
  shows "api_series_json fmt now a query = Some (render escape_json (series_tree fmt now a query))"
proof -
  let ?s = "api_store a" and ?w = "series_window query"
  have sinv: "store_inv ?s" using inv by (simp add: api_inv_def)
  then have t: "\<forall>t \<in> set (st_tiers ?s). 0 < unat (tier_interval_s t)" "0 + length (st_tiers ?s) = STORE_TIERS"
    "0 < 0 + length (st_tiers ?s)" by (auto simp: store_inv_def STORE_TIERS_def)
  from tier_for_window_ok [OF this] obtain k where k: "store_tier_for_window ?s ?w = Some k" "k < STORE_TIERS"
    unfolding store_tier_for_window_def by blast
  define since where "since = now - int (unat ?w)"
  define rows where "rows = window_rows a k since"
  have "0 + length (api_defs a) \<le> unat (st_n_metrics ?s)" using inv by (simp add: api_inv_def)
  note m = series_metrics_ok [OF sinv k(2) this, of since "series_wanted query" "[]",
      folded window_rows_def rows_def wanted_defs_def]
  define sers where "sers = map (\<lambda>(i, d). (md_id d, JArr (map (\<lambda>r. number_tree fmt (snd r ! i)) rows))) (wanted_defs a query)"
  define times where "times = (if wanted_defs a query = [] then [] else map (\<lambda>r. JNum (show_int (fst r))) rows)"
  have tree: "series_tree fmt now a query = JObj [(''window'', nat_tree (unat ?w)), (''tier'', nat_tree k),
      (''interval'', nat_tree (unat (tier_interval_s (st_tiers ?s ! k)))), (''series'', JObj sers), (''timestamps'', JArr times)]"
    unfolding series_tree_def Let_def k(1) option.sel sers_def times_def rows_def since_def ..
  have series: "map (\<lambda>(key, vs). quoted (escape_json key) @ '':['' @ join CHR '','' (map (append_number fmt) vs) @ '']'')
        (map (\<lambda>(j, d). (md_id d, map (\<lambda>r. snd r ! j) rows)) (wanted_defs a query))
      = map (\<lambda>m. quoted (escape_json (fst m)) @ CHR '':'' # render escape_json (snd m)) sers"
    by (simp add: sers_def case_prod_beta append_number_tree comp_def)
  have stamps: "map show_int (if [] \<noteq> [] \<or> wanted_defs a query = [] then [] else map fst rows)
      = map (render escape_json) times"
    by (simp add: times_def comp_def)
  have arr: "arr_get (st_tiers ?s) k = Some (st_tiers ?s ! k)"
    using api_inv_tiers [OF inv] k(2) by (simp add: STORE_TIERS_def)
  have "api_series_json fmt now a query = Some (CHR ''{'' # key_text ''window'' @ show_nat (unat ?w)
      @ '','' @ key_text ''tier'' @ show_nat k
      @ '','' @ key_text ''interval'' @ show_nat (unat (tier_interval_s (st_tiers ?s ! k))) @ '','' @ key_text ''series'' @ CHR ''{''
      # join CHR '','' (map (\<lambda>m. quoted (escape_json (fst m)) @ CHR '':'' # render escape_json (snd m)) sers)
      @ ''},'' @ key_text ''timestamps'' @ CHR ''['' # join CHR '','' (map (render escape_json) times) @ '']}'')"
    unfolding api_series_json_def Let_def k(1) arr bind.bind_lunit since_def [symmetric] m case_prod_conv series stamps ..
  then show ?thesis unfolding tree
    by (simp only: render_members list.map fst_conv snd_conv join.simps escape_keys key_text_def render.simps nat_tree_def)
      (simp add: quoted_def)
qed

section \<open>Properties\<close>

lemma json_number_windows: "\<forall>w \<in> set [''300'', ''900'', ''1800'', ''3600'', ''21600'', ''86400'', ''604800'', ''2592000'']. json_number w"
  by (simp add: json_number_digits is_digit_def ch_code_def)

lemma trees_ok:
  assumes "formats fmt"
  shows "tree_ok (\<lambda>_. True) (meta_tree a)" "tree_ok (\<lambda>_. True) (current_tree fmt a)"
    "tree_ok (\<lambda>_. True) (transmitted_tree fmt a)" "tree_ok (\<lambda>_. True) (series_tree fmt now a query)"
    "tree_ok (\<lambda>_. True) (health_tree now a)"
proof -
  have number: "tree_ok (\<lambda>_. True) (number_tree fmt v)" for v
    using assms by (simp add: number_tree_def formats_def)
  have values': "tree_ok (\<lambda>_. True) (values_tree fmt xs)" for xs by (auto simp: values_tree_def number)
  have zero: "json_number ''0''" by (simp add: json_number_digits is_digit_def ch_code_def)
  show "tree_ok (\<lambda>_. True) (meta_tree a)"
    using json_number_windows
    by (simp add: meta_tree_def Let_def tier_tree_def metric_tree_def nat_tree_def json_number_show)
  show "tree_ok (\<lambda>_. True) (current_tree fmt a)" using values' zero by (simp add: current_tree_def json_number_show)
  show "tree_ok (\<lambda>_. True) (transmitted_tree fmt a)" using values' by (simp add: transmitted_tree_def)
  show "tree_ok (\<lambda>_. True) (series_tree fmt now a query)"
    by (auto simp: series_tree_def Let_def nat_tree_def json_number_show number)
  show "tree_ok (\<lambda>_. True) (health_tree now a)" by (simp add: health_tree_def nat_tree_def json_number_show)
qed


text \<open>A device with one sample of one metric.\<close>

definition demo_registry :: metric_registry where
  "demo_registry = \<lparr>reg_defs = [\<lparr>md_id = ''cpu.usage'', md_label = ''CPU'', md_unit = ''%'', md_group = ''cpu''\<rparr>],
     reg_count = 1, reg_capacity = 1\<rparr>"

definition demo_api :: "store \<Rightarrow> api" where
  "demo_api s = \<lparr>api_registry = demo_registry, api_store = s, api_selection = None,
     api_device = \<lparr>dev_model = [], dev_product = [], dev_type = [], dev_serial = [], dev_soc = [], dev_arch = [],
       dev_firmware = [], dev_hostname = []\<rparr>, api_app_version = ''1'', api_persist_path = None,
     api_mqtt_status = [], api_influx_status = [], api_started = 0\<rparr>"

lemma demo_api_inv:
  obtains s where "api_inv (demo_api s)" "st_has_latest s" "st_latest s = [1065353216]" "st_latest_ts s = 1000"
proof -
  obtain s0 where s0: "store_new demo_registry 1 0 = Some s0" "store_inv s0" "st_registry s0 = demo_registry"
    "st_n_metrics s0 = reg_count demo_registry" by (rule store_new_ok)
  have n: "unat (st_n_metrics s0) = 1" by (simp add: s0(4) demo_registry_def)
  obtain s where "store_inv s" "st_n_metrics s = st_n_metrics s0" "st_has_latest s"
    "st_latest s = [1065353216]" "st_latest_ts s = 1000"
    by (rule store_push_ok [OF s0(2), of "[1065353216]" 1000]) (auto simp: n)
  then show thesis using s0(4) by (intro that [of s]) (simp_all add: demo_api_def api_inv_def demo_registry_def reg_inv_def)
qed


text \<open>A window with more than 4000 samples is cut at the wrong end: the series sent are those of
  the 4000 oldest samples of the window and the newest one is not among them. The coarse tier
  keeps 8640 samples, so the 30 day window the metadata offers loses its newest 16 days.\<close>

theorem long_window_loses_newest:
  assumes "store_inv s" "tier < STORE_TIERS" "length ds \<le> unat (st_n_metrics s)" "ds \<noteq> []"
    "4000 < length (filter (\<lambda>r. since \<le> fst r) (store_rows s tier))" "sorted_wrt (<) (map fst (store_rows s tier))"
  shows "\<exists>series times. series_metrics s tier since None 0 ds [] = Some (series, times)
    \<and> times = map fst (take 4000 (filter (\<lambda>r. since \<le> fst r) (store_rows s tier)))
    \<and> fst (last (store_rows s tier)) \<notin> set times"
proof -
  define xs where "xs = map fst (filter (\<lambda>r. since \<le> fst r) (store_rows s tier))"
  have sorted: "sorted_wrt (<) xs"
    using sorted_wrt_filter [OF assms(6) [unfolded sorted_wrt_map], of "\<lambda>r. since \<le> fst r"]
    by (simp add: xs_def sorted_wrt_map)
  have long: "4000 < length xs" using assms(5) by (simp add: xs_def)
  have ne: "store_rows s tier \<noteq> []" using assms(5) by auto
  obtain before r where rows: "store_rows s tier = before @ [r]" using ne by (cases "store_rows s tier" rule: rev_cases) auto
  have all: "\<forall>x \<in> set before. fst x < fst r" using assms(6) by (simp add: rows sorted_wrt_append)
  have "since \<le> fst r"
  proof (rule ccontr)
    assume "\<not> since \<le> fst r"
    then have "\<forall>x \<in> set (store_rows s tier). \<not> since \<le> fst x" using all by (fastforce simp: rows)
    then show False using assms(5) by (simp add: filter_False)
  qed
  then have last: "xs = map fst (filter (\<lambda>r. since \<le> fst r) before) @ [fst (last (store_rows s tier))]"
    by (simp add: xs_def rows)
  then have "take 4000 xs = take 4000 (map fst (filter (\<lambda>r. since \<le> fst r) before))" using long by simp
  then have "set (take 4000 xs) \<subseteq> fst ` set before"
    using set_take_subset [of 4000 "map fst (filter (\<lambda>r. since \<le> fst r) before)"] by auto
  then have "fst (last (store_rows s tier)) \<notin> set (take 4000 xs)" using all by (fastforce simp: rows)
  moreover have "0 + length ds \<le> unat (st_n_metrics s)" using assms(3) by simp
  note series_metrics_ok [OF assms(1,2) this, of since None "[]"]
  ultimately show ?thesis using assms(4) by (cases ds) (simp_all add: xs_def take_map)
qed

text \<open>A store whose coarse tier is full.\<close>

definition month_tier :: store_tier where
  "month_tier = (new_tier 1 2 300 8640)\<lparr>tier_count := 8640,
     tier_timestamps := map (\<lambda>i. 300 * int i) [0..<8640]\<rparr>"

definition month_store :: store where
  "month_store = \<lparr>st_registry = demo_registry, st_n_metrics = 1,
     st_tiers = [new_tier 1 0 1 1800, new_tier 1 1 15 2880, month_tier],
     st_latest = [0], st_scratch = [0], st_latest_ts = 0, st_has_latest = False\<rparr>"

lemma month_tier_inv: "coarse_inv 1 month_tier" "tier_inv 1 month_tier"
  using new_tier_inv [of 8640 1 2 300] by (simp_all add: month_tier_def coarse_inv_def tier_inv_def new_tier_def)

lemma month_store_inv: "store_inv month_store"
  using month_tier_inv new_tier_inv [of 1800 1 0 1] new_tier_inv [of 2880 1 1 15]
  by (auto simp: store_inv_def month_store_def STORE_TIERS_def) (auto simp: month_tier_def new_tier_def)

lemma month_rows: "map fst (store_rows month_store 2) = map (\<lambda>i. 300 * int i) [0..<8640]"
proof -
  have "map fst (store_rows month_store 2) = map (\<lambda>i. tier_timestamps month_tier ! (i mod 8640)) [0..<8640]"
    by (simp add: tier_rows_def ring_list_def ring_start_def month_store_def month_tier_def new_tier_def comp_def)
  also have "\<dots> = map (\<lambda>i. 300 * int i) [0..<8640]" by (simp add: month_tier_def cong: map_cong)
  finally show ?thesis .
qed

theorem long_window_loses_newest_witness:
  "\<exists>series times. series_metrics month_store 2 0 None 0 [zero_def] [] = Some (series, times)
    \<and> fst (last (store_rows month_store 2)) \<notin> set times"
proof -
  have len: "length (store_rows month_store 2) = 8640" using arg_cong [OF month_rows, of length] by simp
  have "\<forall>r \<in> set (store_rows month_store 2). 0 \<le> fst r"
  proof
    fix r assume "r \<in> set (store_rows month_store 2)"
    then have "fst r \<in> set (map fst (store_rows month_store 2))" by simp
    then show "0 \<le> fst r" unfolding month_rows by auto
  qed
  then have "filter (\<lambda>r. 0 \<le> fst r) (store_rows month_store 2) = store_rows month_store 2" by simp
  moreover have "sorted_wrt (<) (map fst (store_rows month_store 2))"
    unfolding month_rows by (simp add: sorted_wrt_map)
  ultimately show ?thesis
    using long_window_loses_newest [OF month_store_inv, of 2 "[zero_def]" 0] len
    by (auto simp: STORE_TIERS_def month_store_def)
qed

end
