(* ===== verification/Prometheus.thy ===== *)
theory Prometheus
  imports ApiProps
begin

text \<open>
  The Prometheus text of \<^verbatim>\<open>app/api.c\<close>: the name and label of a metric, and the lines of an
  answer. The loop is modelled as the list of what it prints, a declaration or a sample, and
  their text.
\<close>

section \<open>Names\<close>

definition PROM_NAME_SIZE :: nat where "PROM_NAME_SIZE = 160"

definition PROM_KEY_SIZE :: nat where "PROM_KEY_SIZE = 32"

definition PROM_VALUE_SIZE :: nat where "PROM_VALUE_SIZE = 96"

definition unit_suffix :: "string \<Rightarrow> string" where
  "unit_suffix unit = (if unit = ''%'' then ''_percent''
     else if unit = ''B'' then ''_bytes''
     else if unit = ''B/s'' then ''_bytes_per_second''
     else if unit = ''C'' then ''_celsius''
     else if unit = ''MHz'' then ''_megahertz''
     else if unit = ''Mb/s'' then ''_megabits_per_second''
     else if unit = ''s'' then ''_seconds''
     else if unit = ''/s'' then ''_per_second''
     else [])"

definition label_key_for :: "string \<Rightarrow> string" where
  "label_key_for group_prefix = (if group_prefix = ''net'' then ''interface''
     else if group_prefix = ''disk'' then ''device''
     else if group_prefix = ''fs'' then ''filesystem''
     else if group_prefix = ''cpu'' then ''core''
     else ''instance'')"

text \<open>Name, label key and label value.\<close>

definition prometheus_name :: "metric_def \<Rightarrow> string \<times> string \<times> string" where
  "prometheus_name d = (let parts = strsplit CHR ''.'' (md_id d) in
     case parts of
       [prefix, device, leaf] \<Rightarrow>
         (if prefix = ''cpu'' \<and> has_prefix device ''core''
          then (strlcpy PROM_NAME_SIZE (''axis_cpu_core_'' @ leaf @ unit_suffix (md_unit d)),
                strlcpy PROM_KEY_SIZE (label_key_for prefix), strlcpy PROM_VALUE_SIZE (drop 4 device))
          else (strlcpy PROM_NAME_SIZE (''axis_'' @ prefix @ ''_'' @ leaf @ unit_suffix (md_unit d)),
                strlcpy PROM_KEY_SIZE (label_key_for prefix), strlcpy PROM_VALUE_SIZE device))
     | _ \<Rightarrow> (strlcpy PROM_NAME_SIZE (''axis_'' @ join CHR ''_'' parts @ unit_suffix (md_unit d)), [], []))"

section \<open>Lines\<close>

datatype prom_item = Declare string string | Sample string string string gfloat

fun prometheus_items :: "string set \<Rightarrow> (metric_def \<times> gfloat) list \<Rightarrow> prom_item list" where
  "prometheus_items declared [] = []"
| "prometheus_items declared ((d, v) # rest) = (if f32_isnan v then prometheus_items declared rest
     else let (name, label_key, label_value) = prometheus_name d in
       (if name \<notin> declared then [Declare name (md_label d)] else [])
       @ Sample name label_key label_value v # prometheus_items (insert name declared) rest)"

fun item_text :: "formatter \<Rightarrow> prom_item \<Rightarrow> string" where
  "item_text fmt (Declare name help) =
     ''# HELP '' @ name @ '' '' @ help @ [CHR 0x0A] @ ''# TYPE '' @ name @ '' gauge'' @ [CHR 0x0A]"
| "item_text fmt (Sample name key val v) =
     (if val \<noteq> [] then name @ ''{'' @ key @ ''='' @ quoted val @ ''} '' @ fmt v @ [CHR 0x0A]
      else name @ '' '' @ fmt v @ [CHR 0x0A])"

definition api_prometheus_text :: "formatter \<Rightarrow> api \<Rightarrow> string option" where
  "api_prometheus_text fmt a = do {
     latest \<leftarrow> latest_values a;
     (case latest of None \<Rightarrow> Some []
      | Some (vs, ts) \<Rightarrow> Some (''# HELP axis_device_info Device identity, always 1.'' @ [CHR 0x0A]
          @ ''# TYPE axis_device_info gauge'' @ [CHR 0x0A]
          @ ''axis_device_info{model='' @ quoted (dev_model (api_device a))
          @ '',serial='' @ quoted (dev_serial (api_device a))
          @ '',firmware='' @ quoted (dev_firmware (api_device a)) @ ''} 1'' @ [CHR 0x0A]
          @ concat (map (item_text fmt) (prometheus_items {} (zip (api_defs a) vs)))))
   }"

section \<open>Declarations\<close>

definition declared_names :: "prom_item list \<Rightarrow> string list" where
  "declared_names items = concat (map (\<lambda>x. case x of Declare n h \<Rightarrow> [n] | Sample n k l v \<Rightarrow> []) items)"

definition sample_items :: "prom_item list \<Rightarrow> (string \<times> string \<times> string \<times> gfloat) list" where
  "sample_items items = concat (map (\<lambda>x. case x of Declare n h \<Rightarrow> [] | Sample n k l v \<Rightarrow> [(n, k, l, v)]) items)"

lemma items_simps [simp]:
  "declared_names [] = []" "declared_names (Declare n h # xs) = n # declared_names xs"
  "declared_names (Sample n k l v # xs) = declared_names xs" "declared_names (xs @ ys) = declared_names xs @ declared_names ys"
  "sample_items [] = []" "sample_items (Declare n h # xs) = sample_items xs"
  "sample_items (Sample n k l v # xs) = (n, k, l, v) # sample_items xs"
  by (simp_all add: declared_names_def sample_items_def)

lemma prometheus_items_step:
  assumes "prometheus_name d = (n, k, l)"
  shows "prometheus_items declared ((d, v) # rest) = (if f32_isnan v then prometheus_items declared rest
     else (if n \<notin> declared then [Declare n (md_label d)] else [])
       @ Sample n k l v # prometheus_items (insert n declared) rest)"
  using assms by simp

lemma declared_names_fresh: "distinct (declared_names (prometheus_items declared xs))
    \<and> set (declared_names (prometheus_items declared xs)) \<inter> declared = {}"
proof (induction xs arbitrary: declared)
  case (Cons x xs)
  obtain d v n k l where x: "x = (d, v)" "prometheus_name d = (n, k, l)" by (metis prod_cases3 surj_pair)
  show ?case unfolding x(1) prometheus_items_step [OF x(2)]
    using Cons.IH [of declared] Cons.IH [of "insert n declared"] by auto
qed simp

lemma declared_before:
  "prometheus_items declared xs = before @ Sample n k l v # after \<Longrightarrow> n \<in> declared \<union> set (declared_names before)"
proof (induction xs arbitrary: declared before)
  case (Cons x xs)
  obtain d v' n' k' l' where x: "x = (d, v')" "prometheus_name d = (n', k', l')" by (metis prod_cases3 surj_pair)
  show ?case
  proof (cases "f32_isnan v'")
    case True
    with Cons x show ?thesis by (simp add: prometheus_items_step)
  next
    case False
    define tail where "tail = prometheus_items (insert n' declared) xs"
    have IH: "n \<in> insert n' declared \<union> set (declared_names mid)" if "tail = mid @ Sample n k l v # after" for mid
      using Cons.IH [of "insert n' declared" mid] that by (simp add: tail_def)
    have "(if n' \<notin> declared then [Declare n' (md_label d)] else []) @ Sample n' k' l' v' # tail
        = before @ Sample n k l v # after"
      using Cons.prems False x by (simp add: prometheus_items_step tail_def)
    then show ?thesis using IH by (cases "n' \<in> declared") (auto simp: Cons_eq_append_conv)
  qed
qed simp

lemma sample_items_append [simp]: "sample_items (xs @ ys) = sample_items xs @ sample_items ys"
  by (simp add: sample_items_def)

lemma sample_items_all: "sample_items (prometheus_items declared xs)
    = map (\<lambda>(d, v). let (n, k, l) = prometheus_name d in (n, k, l, v)) (filter (\<lambda>(d, v). \<not> f32_isnan v) xs)"
proof (induction xs arbitrary: declared)
  case (Cons x xs)
  obtain d v n k l where x: "x = (d, v)" "prometheus_name d = (n, k, l)" by (metis prod_cases3 surj_pair)
  show ?case unfolding x(1) prometheus_items_step [OF x(2)] using Cons.IH x(2) by simp
qed simp

section \<open>Property\<close>


definition iface_def :: "string \<Rightarrow> metric_def" where
  "iface_def key = \<lparr>md_id = key, md_label = key, md_unit = ''B/s'', md_group = ''network''\<rparr>"


end
