(* ===== verification/Device.thy ===== *)
theory Device
  imports Api Storage
begin

text \<open>
  \<open>api_read_device_info\<close> of \<^verbatim>\<open>app/api.c\<close>: the identity of the device from the parameter
  service, the host name file and, as a fallback for the firmware, \<^verbatim>\<open>/etc/os-release\<close>. The
  service and the contents of the two files are parameters (\<open>None\<close> where the call fails).
\<close>

type_synonym param_source = "string \<Rightarrow> string option"

definition read_param :: "param_source \<Rightarrow> string \<Rightarrow> nat \<Rightarrow> string" where
  "read_param get name len = (case get name of Some v \<Rightarrow> strlcpy len (strstrip v) | None \<Rightarrow> [])"

text \<open>The version of a release file: the token after the first \<open>VERSION_ID=\<close>.\<close>

definition release_version :: "string \<Rightarrow> string" where
  "release_version release = (case strstr release ''VERSION_ID='' of None \<Rightarrow> []
     | Some v \<Rightarrow> (case scan_str 31 (drop 11 v) of Some (tok, rest) \<Rightarrow> tok | None \<Rightarrow> []))"

definition no_device :: device_info where
  "no_device = \<lparr>dev_model = [], dev_product = [], dev_type = [], dev_serial = [], dev_soc = [], dev_arch = [],
     dev_firmware = [], dev_hostname = []\<rparr>"

definition api_read_device_info :: "param_source option \<Rightarrow> string option \<Rightarrow> string option \<Rightarrow> device_info" where
  "api_read_device_info handle hostname release = (let
     info = (case handle of None \<Rightarrow> no_device | Some get \<Rightarrow> no_device\<lparr>
       dev_model := read_param get ''root.Brand.ProdShortName'' 64,
       dev_product := read_param get ''root.Brand.ProdFullName'' 96,
       dev_type := read_param get ''root.Brand.ProdType'' 48,
       dev_serial := read_param get ''root.Properties.System.SerialNumber'' 32,
       dev_soc := read_param get ''root.Properties.System.Soc'' 48,
       dev_arch := read_param get ''root.Properties.System.Architecture'' 16,
       dev_firmware := read_param get ''root.Properties.Firmware.Version'' 32\<rparr>);
     info1 = (case hostname of Some h \<Rightarrow> info\<lparr>dev_hostname := strlcpy 64 (strstrip h)\<rparr> | None \<Rightarrow> info)
   in if dev_firmware info1 = []
      then (case release of Some r \<Rightarrow> info1\<lparr>dev_firmware := release_version r\<rparr> | None \<Rightarrow> info1)
      else info1)"

text \<open>Every field fits its buffer, whatever the sources answer.\<close>

lemma strlcpy_fits: "0 < n \<Longrightarrow> length (strlcpy n s) < n"
  using length_strlcpy [of n s] by linarith

lemma length_release_version: "length (release_version r) < 32"
proof -
  have "length (takeWhile P (take 31 s)) < 32" for P and s :: string
    using length_takeWhile_le [of P "take 31 s"] by simp
  then show ?thesis by (auto simp: release_version_def scan_str_def Let_def split: option.splits if_splits)
qed

definition device_fits :: "device_info \<Rightarrow> bool" where
  [inv_defs]: "device_fits d \<longleftrightarrow> length (dev_model d) < 64 \<and> length (dev_product d) < 96 \<and> length (dev_type d) < 48
     \<and> length (dev_serial d) < 32 \<and> length (dev_soc d) < 48 \<and> length (dev_arch d) < 16
     \<and> length (dev_firmware d) < 32 \<and> length (dev_hostname d) < 64"

lemma read_param_fits: "0 < n \<Longrightarrow> length (read_param get name n) < n"
  by (simp add: read_param_def strlcpy_fits split: option.split)

lemma api_read_device_info_fits: "device_fits (api_read_device_info handle hostname release)"
  by (auto simp: device_fits_def api_read_device_info_def no_device_def Let_def read_param_fits strlcpy_fits
      length_release_version split: option.splits)

end
