(* ===== verification/Settings.thy ===== *)
theory Settings
  imports ApiProps
begin

text \<open>
  The parameters of \<^verbatim>\<open>app/main.c\<close>: their table, the settings document and the settings body.
  Reading and writing the parameter service are parameters.
\<close>

section \<open>The table\<close>

record parameter =
  par_name :: string
  par_fallback :: string
  par_secret :: bool
  par_value :: "string option"

definition param_entry :: "string \<Rightarrow> string \<Rightarrow> bool \<Rightarrow> parameter" where
  "param_entry name fallback secret = \<lparr>par_name = name, par_fallback = fallback, par_secret = secret, par_value = None\<rparr>"

definition parameters :: "parameter list" where
  "parameters = [
     param_entry ''SampleInterval'' ''1'' False,
     param_entry ''MqttEnabled'' ''no'' False,
     param_entry ''MqttHost'' [] False,
     param_entry ''MqttPort'' ''1883'' False,
     param_entry ''MqttTls'' ''no'' False,
     param_entry ''MqttUsername'' [] False,
     param_entry ''MqttPassword'' [] True,
     param_entry ''MqttTopicPrefix'' [] False,
     param_entry ''MqttInterval'' ''30'' False,
     param_entry ''MqttDiscovery'' ''yes'' False,
     param_entry ''MqttDiscoveryAll'' ''no'' False,
     param_entry ''InfluxEnabled'' ''no'' False,
     param_entry ''InfluxVersion'' ''v2'' False,
     param_entry ''InfluxUrl'' [] False,
     param_entry ''InfluxDatabase'' [] False,
     param_entry ''InfluxOrg'' [] False,
     param_entry ''InfluxToken'' [] True,
     param_entry ''InfluxUsername'' [] False,
     param_entry ''InfluxPassword'' [] True,
     param_entry ''InfluxMeasurement'' ''axis_metrics'' False,
     param_entry ''InfluxInterval'' ''30'' False]"

fun find_parameter_from :: "nat \<Rightarrow> parameter list \<Rightarrow> string \<Rightarrow> nat option" where
  "find_parameter_from i [] name = None"
| "find_parameter_from i (p # ps) name = (if par_name p = name then Some i else find_parameter_from (Suc i) ps name)"

definition find_parameter :: "parameter list \<Rightarrow> string \<Rightarrow> nat option" where
  "find_parameter ps name = find_parameter_from 0 ps name"

text \<open>The part after the last dot.\<close>

definition find_parameter_suffix :: "parameter list \<Rightarrow> string \<Rightarrow> nat option" where
  "find_parameter_suffix ps qualified_name = find_parameter ps
     (if CHR ''.'' \<in> set qualified_name then rev (takeWhile (\<lambda>c. c \<noteq> CHR ''.'') (rev qualified_name))
      else qualified_name)"

definition entry_value :: "parameter \<Rightarrow> string" where
  "entry_value p = (case par_value p of Some v \<Rightarrow> v | None \<Rightarrow> par_fallback p)"

definition parameter_value :: "parameter list \<Rightarrow> string \<Rightarrow> string" where
  "parameter_value ps name = (case find_parameter ps name of None \<Rightarrow> [] | Some i \<Rightarrow> entry_value (ps ! i))"

text \<open>The outer \<open>None\<close> is a failed read, the inner one a null value.\<close>

definition load_parameter :: "(string \<Rightarrow> string option option) \<Rightarrow> parameter \<Rightarrow> parameter" where
  "load_parameter get p = (case get (par_name p) of
     Some value \<Rightarrow> p\<lparr>par_value := Some (case value of Some v \<Rightarrow> v | None \<Rightarrow> [])\<rparr>
   | None \<Rightarrow> if par_value p = None then p\<lparr>par_value := Some (par_fallback p)\<rparr> else p)"

definition load_parameters :: "(string \<Rightarrow> string option option) \<Rightarrow> parameter list" where
  "load_parameters get = map (load_parameter get) parameters"

definition parameter_is_yes :: "parameter list \<Rightarrow> string \<Rightarrow> bool" where
  "parameter_is_yes ps name \<longleftrightarrow> parameter_value ps name = ''yes''"

section \<open>The settings document\<close>

definition json_append_escaped :: "string \<Rightarrow> string" where
  "json_append_escaped s = concat (map escape_char s)"

definition setting_json :: "parameter list \<Rightarrow> parameter \<Rightarrow> string" where
  "setting_json ps p = (let v = parameter_value ps (par_name p) in
     quoted (json_append_escaped (par_name p)) @ CHR '':'' # quoted (if \<not> par_secret p then json_append_escaped v else [])
     @ (if par_secret p
        then CHR '','' # quoted (json_append_escaped (par_name p) @ ''IsSet'') @ CHR '':''
          # quoted (if v \<noteq> [] then ''yes'' else ''no'')
        else []))"

definition settings_json :: "parameter list \<Rightarrow> string" where
  "settings_json ps = CHR ''{'' # join CHR '','' (map (setting_json ps) ps) @ ''}''"

section \<open>Changing settings\<close>

definition form_decode :: "string \<Rightarrow> string" where
  "form_decode s = cstr (decode_bytes s)"

text \<open>
  One pair of the body; \<open>put\<close> is the answer of the parameter service to a write. The second
  component is the \<open>changed\<close> flag.
\<close>

definition apply_pair :: "(string \<Rightarrow> string \<Rightarrow> bool) \<Rightarrow> string \<Rightarrow> parameter list \<Rightarrow> parameter list \<times> bool" where
  "apply_pair put pair ps = (case strchr pair CHR ''='' of None \<Rightarrow> (ps, False)
     | Some separator \<Rightarrow>
         let name = form_decode (take (length pair - length separator) pair);
             val = form_decode (tl separator) in
         case find_parameter ps name of None \<Rightarrow> (ps, False)
         | Some i \<Rightarrow>
             if par_value (ps ! i) = Some val then (ps, False)
             else if put (par_name (ps ! i)) val then (ps[i := (ps ! i)\<lparr>par_value := Some val\<rparr>], True)
             else (ps, False))"

fun apply_pairs :: "(string \<Rightarrow> string \<Rightarrow> bool) \<Rightarrow> string list \<Rightarrow> parameter list \<Rightarrow> parameter list \<times> bool" where
  "apply_pairs put [] ps = (ps, False)"
| "apply_pairs put (pair # pairs) ps = (let (ps1, changed1) = apply_pair put pair ps;
       (ps2, changed2) = apply_pairs put pairs ps1 in (ps2, changed1 \<or> changed2))"

definition apply_settings_body :: "(string \<Rightarrow> string \<Rightarrow> bool) \<Rightarrow> string \<Rightarrow> parameter list \<Rightarrow> parameter list \<times> bool" where
  "apply_settings_body put body ps = apply_pairs put (strsplit CHR ''&'' body) ps"

end
