(* ===== verification/SettingsProps.thy ===== *)
theory SettingsProps
  imports Settings
begin

text \<open>
  The settings of \<^verbatim>\<open>app/main.c\<close>: what a body changes, and what the document says and does not
  say.
\<close>

section \<open>Lookup\<close>

lemma find_parameter_from_spec:
  "find_parameter_from i ps name = (if name \<in> set (map par_name ps)
     then Some (i + length (takeWhile (\<lambda>p. par_name p \<noteq> name) ps)) else None)"
  by (induction ps arbitrary: i) auto

lemma find_parameter_None: "find_parameter ps name = None \<longleftrightarrow> name \<notin> set (map par_name ps)"
  by (simp add: find_parameter_def find_parameter_from_spec)

lemma find_parameter_at:
  assumes "distinct (map par_name ps)" "i < length ps"
  shows "find_parameter ps (par_name (ps ! i)) = Some i"
proof -
  have "takeWhile (\<lambda>p. par_name p \<noteq> par_name (ps ! i)) ps = take i ps"
    using assms by (intro takeWhile_eq_take_P_nth) (auto simp: distinct_conv_nth)
  then show ?thesis using assms(2) by (simp add: find_parameter_def find_parameter_from_spec)
qed

lemma find_parameter_Some:
  assumes "distinct (map par_name ps)" "find_parameter ps name = Some i"
  shows "i < length ps" "par_name (ps ! i) = name"
proof -
  have "name \<in> set (map par_name ps)"
    using assms(2) find_parameter_None [of ps name] by (metis option.distinct(1))
  then obtain j where j: "j < length ps" "par_name (ps ! j) = name" by (auto simp: in_set_conv_nth)
  with find_parameter_at [OF assms(1) j(1)] assms(2) show "i < length ps" "par_name (ps ! i) = name" by auto
qed

lemma distinct_parameters: "distinct (map par_name parameters)"
  by code_simp

section \<open>Changing\<close>

lemma apply_pair_fields:
  assumes "apply_pair put pair ps = (ps', changed)"
  shows "map par_name ps' = map par_name ps" "map par_secret ps' = map par_secret ps"
    "changed \<or> ps' = ps"
  using assms by (auto simp: apply_pair_def Let_def map_update split: option.splits if_splits)
    (metis list_update_id map_update nth_map)+

definition field_name :: "string \<Rightarrow> bool" where
  "field_name n \<longleftrightarrow> plain_name n \<and> CHR ''%'' \<notin> set n \<and> CHR ''+'' \<notin> set n \<and> nul \<notin> set n"

lemma decode_unescaped: "CHR ''%'' \<notin> set s \<Longrightarrow> CHR ''+'' \<notin> set s \<Longrightarrow> decode_bytes s = s"
  by (induction s) (auto simp: decode_plain)

lemma apply_pair_form:
  assumes "proper safe" "field_name n" "nul \<notin> set v"
  shows "apply_pair put (n @ CHR ''='' # url_encode safe v) ps = (case find_parameter ps n of None \<Rightarrow> (ps, False)
     | Some i \<Rightarrow> if par_value (ps ! i) = Some v then (ps, False)
         else if put (par_name (ps ! i)) v then (ps[i := (ps ! i)\<lparr>par_value := Some v\<rparr>], True) else (ps, False))"
proof -
  have n: "CHR ''='' \<notin> set n" "form_decode n = n"
    using assms(2) by (auto simp: field_name_def plain_name_def form_decode_def decode_unescaped cstr_id)
  have "form_decode (url_encode safe v) = v"
    using assms(1,3) by (simp add: form_decode_def decode_encode cstr_id)
  then show ?thesis using strchr_append [OF n(1)] n(2) by (simp add: apply_pair_def Let_def)
qed

text \<open>The last accepted value of a parameter among the fields sent.\<close>

definition last_accepted :: "(string \<Rightarrow> string \<Rightarrow> bool) \<Rightarrow> (string \<times> string) list \<Rightarrow> string \<Rightarrow> string option" where
  "last_accepted put sent name = map_of (rev (filter (\<lambda>(n, v). put n v) sent)) name"

lemma last_accepted_Cons: "last_accepted put ((n, v) # sent) name = (case last_accepted put sent name of
    Some w \<Rightarrow> Some w | None \<Rightarrow> if n = name \<and> put n v then Some v else None)"
  by (simp add: last_accepted_def map_add_def split: option.split)

lemma apply_pairs_form:
  assumes "proper safe" "distinct (map par_name ps)"
    "\<forall>(n, v) \<in> set sent. field_name n \<and> nul \<notin> set v"
  shows "\<exists>ps' changed. apply_pairs put (map (\<lambda>(n, v). n @ CHR ''='' # url_encode safe v) sent) ps = (ps', changed)
    \<and> map par_name ps' = map par_name ps
    \<and> (\<forall>i < length ps. ps' ! i = (ps ! i)\<lparr>par_value := (case last_accepted put sent (par_name (ps ! i)) of
         Some v \<Rightarrow> Some v | None \<Rightarrow> par_value (ps ! i))\<rparr>)"
  using assms(2,3)
proof (induction sent arbitrary: ps)
  case Nil
  show ?case by (rule exI [of _ ps], rule exI [of _ False]) (simp add: last_accepted_def)
next
  case (Cons f sent)
  obtain n v where f: "f = (n, v)" by force
  have nv: "field_name n" "nul \<notin> set v" using Cons.prems(2) f by auto
  obtain ps1 c1 where step: "apply_pair put (n @ CHR ''='' # url_encode safe v) ps = (ps1, c1)" by force
  note names = apply_pair_fields [OF step]
  have one: "ps1 ! i = (ps ! i)\<lparr>par_value := (if par_name (ps ! i) = n \<and> put n v then Some v else par_value (ps ! i))\<rparr>"
    if i: "i < length ps" for i
  proof (cases "find_parameter ps n")
    case None
    then have "par_name (ps ! i) \<noteq> n" using i by (auto simp: find_parameter_None)
    then show ?thesis using step None apply_pair_form [OF assms(1) nv, of put ps] by simp
  next
    case (Some j)
    note j = find_parameter_Some [OF Cons.prems(1) Some]
    have "par_name (ps ! i) = n \<longleftrightarrow> i = j"
      using i j Cons.prems(1) by (metis length_map nth_eq_iff_index_eq nth_map)
    then show ?thesis
      using step Some apply_pair_form [OF assms(1) nv, of put ps] i j by (auto split: if_splits)
  qed
  have len: "length ps1 = length ps" using names(1) by (metis length_map)
  have "distinct (map par_name ps1)" using Cons.prems(1) names(1) by simp
  from Cons.IH [OF this] Cons.prems(2) obtain ps' c' where IH:
    "apply_pairs put (map (\<lambda>(n, v). n @ CHR ''='' # url_encode safe v) sent) ps1 = (ps', c')"
    "map par_name ps' = map par_name ps1"
    "\<forall>i < length ps1. ps' ! i = (ps1 ! i)\<lparr>par_value := (case last_accepted put sent (par_name (ps1 ! i)) of
         Some v \<Rightarrow> Some v | None \<Rightarrow> par_value (ps1 ! i))\<rparr>" by auto
  have "apply_pairs put (map (\<lambda>(n, v). n @ CHR ''='' # url_encode safe v) (f # sent)) ps = (ps', c1 \<or> c')"
    using step IH(1) by (simp add: f)
  moreover have "\<forall>i < length ps. ps' ! i = (ps ! i)\<lparr>par_value := (case last_accepted put (f # sent) (par_name (ps ! i)) of
         Some v \<Rightarrow> Some v | None \<Rightarrow> par_value (ps ! i))\<rparr>"
    using IH(3) one len by (auto simp: f last_accepted_Cons split: option.split)
  ultimately show ?case using IH(2) names(1) by auto
qed

section \<open>The document\<close>

definition setting_members :: "parameter list \<Rightarrow> parameter \<Rightarrow> (string \<times> jval) list" where
  "setting_members ps p = (let v = parameter_value ps (par_name p) in
     if par_secret p
     then [(par_name p, JStr []), (par_name p @ ''IsSet'', JStr (if v \<noteq> [] then ''yes'' else ''no''))]
     else [(par_name p, JStr v)])"

definition settings_tree :: "parameter list \<Rightarrow> jval" where
  "settings_tree ps = JObj (concat (map (setting_members ps) ps))"

lemma escape_append: "escape_json (s @ t) = escape_json s @ escape_json t"
  by (simp add: escape_json_def)

lemma json_append_escaped: "json_append_escaped = escape_json"
  by (rule ext) (simp add: json_append_escaped_def escape_json_def)

lemma join_concat: "\<forall>ss \<in> set sss. ss \<noteq> [] \<Longrightarrow> join d (map (join d) sss) = join d (concat sss)"
proof (induction sss)
  case (Cons ss sss)
  have step: "join d (ss @ ts) = join d ss @ d # join d ts" if "ss \<noteq> []" "ts \<noteq> []" for ss ts
    using that by (induction d ss rule: join.induct) (auto simp: neq_Nil_conv)
  show ?case
  proof (cases sss)
    case (Cons t ts)
    then have "concat sss \<noteq> []" using Cons.prems by simp
    then show ?thesis using Cons.IH Cons.prems step [of ss "concat sss"] Cons by simp
  qed (simp)
qed simp

lemma settings_json_tree: "settings_json ps = render escape_json (settings_tree ps)"
proof -
  define text_of where "text_of = (\<lambda>m. quoted (escape_json (fst m)) @ CHR '':'' # render escape_json (snd m))"
  have plain: "escape_json ''IsSet'' = ''IsSet''" "escape_json ''yes'' = ''yes''" "escape_json ''no'' = ''no''"
    "escape_json [] = []" by (simp_all add: escape_plain ch_code_def)
  have one: "setting_json ps p = join CHR '','' (map text_of (setting_members ps p))" for p
    by (simp add: setting_json_def setting_members_def Let_def json_append_escaped text_of_def escape_append plain quoted_def)
  have "join CHR '','' (map (setting_json ps) ps) = join CHR '','' (map (join CHR '','') (map (\<lambda>p. map text_of (setting_members ps p)) ps))"
    unfolding map_map comp_def by (intro arg_cong [where f = "join CHR '',''"] map_cong refl one)
  also have "\<dots> = join CHR '','' (concat (map (\<lambda>p. map text_of (setting_members ps p)) ps))"
    by (rule join_concat) (auto simp: setting_members_def Let_def)
  also have "concat (map (\<lambda>p. map text_of (setting_members ps p)) ps) = map text_of (concat (map (setting_members ps) ps))"
    by (simp add: map_concat comp_def)
  finally show ?thesis by (simp only: settings_json_def settings_tree_def render_members text_of_def)
qed

lemma settings_json_parses: "parse_json (settings_json ps) = Some (settings_tree ps)"
  unfolding settings_json_tree
  by (rule api_json.parse_render) (auto simp: settings_tree_def setting_members_def Let_def split: if_splits)

text \<open>Two tables that differ only in what their set secrets are.\<close>

definition same_public :: "parameter \<Rightarrow> parameter \<Rightarrow> bool" where
  "same_public p q \<longleftrightarrow> par_name p = par_name q \<and> par_secret p = par_secret q
     \<and> (if par_secret p then (entry_value p = []) = (entry_value q = []) else entry_value p = entry_value q)"

lemma parameter_value_at:
  "distinct (map par_name ps) \<Longrightarrow> i < length ps \<Longrightarrow> parameter_value ps (par_name (ps ! i)) = entry_value (ps ! i)"
  by (simp add: parameter_value_def find_parameter_at)

lemma settings_tree_public:
  assumes "distinct (map par_name ps)" "list_all2 same_public ps qs"
  shows "settings_tree ps = settings_tree qs"
proof -
  have len: "length ps = length qs" and rel: "\<forall>i < length ps. same_public (ps ! i) (qs ! i)"
    using assms(2) by (auto simp: list_all2_conv_all_nth)
  have "map par_name ps = map par_name qs" using len rel by (auto simp: list_eq_iff_nth_eq same_public_def)
  then have dq: "distinct (map par_name qs)" using assms(1) by simp
  have "map (setting_members ps) ps = map (setting_members qs) qs"
  proof (rule nth_equalityI)
    fix i assume "i < length (map (setting_members ps) ps)"
    then have i: "i < length ps" by simp
    with rel have "same_public (ps ! i) (qs ! i)" by simp
    then show "map (setting_members ps) ps ! i = map (setting_members qs) qs ! i"
      using parameter_value_at [OF assms(1) i] parameter_value_at [OF dq, of i] i len
      by (auto simp: setting_members_def Let_def same_public_def)
  qed (simp add: len)
  then show ?thesis by (simp add: settings_tree_def)
qed

section \<open>Properties\<close>



text \<open>C31: The settings document never gives a secret away: it parses to the names and values of the
  public parameters and one flag per secret, and it is the same text for any other secrets that
  are set in the same places.\<close>

theorem settings_hide_secrets:
  assumes "distinct (map par_name ps)" "list_all2 same_public ps qs"
  shows "parse_json (settings_json ps) = Some (settings_tree ps) \<and> settings_json ps = settings_json qs"
  using settings_json_parses settings_json_tree settings_tree_public [OF assms] by simp

definition with_password :: "string \<Rightarrow> parameter list" where
  "with_password pw = parameters[6 := (parameters ! 6)\<lparr>par_value := Some pw\<rparr>]"

theorem settings_hide_secrets_witness:
  "settings_json (with_password ''hunter2'') = settings_json (with_password ''swordfish'')
   \<and> with_password ''hunter2'' \<noteq> with_password ''swordfish''"
proof -
  have "distinct (map par_name (with_password ''hunter2''))"
    by (simp add: with_password_def parameters_def param_entry_def)
  moreover have "list_all2 same_public (with_password ''hunter2'') (with_password ''swordfish'')"
    by (simp add: with_password_def parameters_def param_entry_def same_public_def entry_value_def)
  moreover have "with_password ''hunter2'' \<noteq> with_password ''swordfish''"
    by (simp add: with_password_def parameters_def param_entry_def)
  ultimately show ?thesis using settings_hide_secrets by blast
qed

end
