(* ===== verification/Http.thy ===== *)
theory Http
  imports Storage
begin

text \<open>
  The HTTP side of \<^verbatim>\<open>app/main.c\<close>: reading a request from a socket, its first line, the routes
  and the text of a response. A connection is the list of byte strings its reads return; the
  empty string is the end of the stream or an error.
\<close>

section \<open>Reading a request\<close>

definition MAX_REQUEST :: nat where "MAX_REQUEST = 16384"

definition MAX_PATH_LENGTH :: nat where "MAX_PATH_LENGTH = 8192"

definition crlf :: string where "crlf = [CHR 0x0D, CHR 0x0A]"

definition to_lower :: "char \<Rightarrow> char" where
  "to_lower c = (if is_upper c then char_of (ch_code c + 32) else c)"

text \<open>\<open>strtol (s, NULL, 10)\<close>: saturating at the range of a 64-bit \<open>long\<close>.\<close>

definition strtol10 :: "string \<Rightarrow> int" where
  "strtol10 s = (let t = dropWhile is_cspace s;
       neg = (t \<noteq> [] \<and> hd t = CHR ''-'');
       u = (if t \<noteq> [] \<and> (hd t = CHR ''-'' \<or> hd t = CHR ''+'') then tl t else t);
       n = int (dec_value (takeWhile is_digit u)) in
     if neg then max (- (2 ^ 63)) (- n) else min (2 ^ 63 - 1) n)"

definition content_length_of :: "string \<Rightarrow> int option" where
  "content_length_of headers = (case strstr (map to_lower headers) ''content-length:'' of
     None \<Rightarrow> None | Some field \<Rightarrow> Some (strtol10 (drop 15 field)))"

text \<open>
  The loop of \<open>on_http_request\<close>: the buffer, the length of the header (0 until it is complete)
  and the announced length. A read gets at most the room left; when the buffer is full the loop
  ends. The comparison with a negative length is one of unsigned numbers, so it fails.
\<close>

primrec read_request :: "string list \<Rightarrow> string \<Rightarrow> nat \<Rightarrow> int \<Rightarrow> string \<times> nat \<times> int" where
  "read_request [] buffer header_length content_length = (buffer, header_length, content_length)"
| "read_request (chunk # chunks) buffer header_length content_length =
     (let got = take (MAX_REQUEST - 1 - length buffer) chunk in
      if got = [] then (buffer, header_length, content_length)
      else let buffer' = buffer @ got in
        case strstr (cstr buffer') (crlf @ crlf) of
          None \<Rightarrow> read_request chunks buffer' header_length content_length
        | Some header_end \<Rightarrow>
            let header' = length (cstr buffer') - length header_end + 4;
                content' = (if content_length = 0
                  then (case content_length_of (take header' buffer') of Some k \<Rightarrow> k | None \<Rightarrow> 0) else content_length)
            in if 0 \<le> content' \<and> nat content' \<le> length buffer' - header' then (buffer', header', content')
               else read_request chunks buffer' header' content')"

datatype request = BadRequest | Request string string string

definition parse_request :: "string \<Rightarrow> nat \<Rightarrow> request" where
  "parse_request buffer header_length = (if header_length = 0 then BadRequest
     else case scan_str 7 (cstr buffer) of None \<Rightarrow> BadRequest
     | Some (method, rest) \<Rightarrow> (case scan_str (MAX_PATH_LENGTH - 1) rest of None \<Rightarrow> BadRequest
         | Some (path, _) \<Rightarrow> Request method path (cstr (drop header_length buffer))))"

definition receive_request :: "string list \<Rightarrow> request" where
  "receive_request chunks = (let (buffer, header_length, _) = read_request chunks [] 0 0
     in parse_request buffer header_length)"

section \<open>Routes and responses\<close>

definition route_is :: "string \<Rightarrow> string \<Rightarrow> bool" where
  "route_is path name = (case strstr path name of None \<Rightarrow> False
     | Some found \<Rightarrow> (let rest = drop (length name) found in
         rest = [] \<or> hd rest = CHR ''?'' \<or> hd rest = CHR ''/''))"

definition send_response :: "string \<Rightarrow> string \<Rightarrow> string \<Rightarrow> string" where
  "send_response status content_type body = ''HTTP/1.1 '' @ status @ crlf
     @ ''Content-Type: '' @ content_type @ crlf
     @ ''Content-Length: '' @ show_nat (length body) @ crlf
     @ ''Cache-Control: no-store'' @ crlf
     @ ''X-Content-Type-Options: nosniff'' @ crlf
     @ ''Connection: close'' @ crlf @ crlf @ body"

section \<open>Searching\<close>

lemma has_prefix_length: "has_prefix s p \<Longrightarrow> length p \<le> length s"
  unfolding has_prefix_def by (drule arg_cong [where f = length]) simp

lemma has_prefix_extend: "has_prefix s p \<Longrightarrow> has_prefix (s @ t) p"
  using has_prefix_length by (simp add: has_prefix_def)

lemma strstr_extend: "strstr s p = Some t \<Longrightarrow> strstr (s @ r) p = Some (t @ r)"
proof (induction s)
  case Nil
  then have "p = []" "t = []" by (auto split: if_splits)
  then show ?case by (cases r) (simp_all add: has_prefix_def)
next
  case (Cons c s)
  show ?case
  proof (cases "has_prefix (c # s) p")
    case True
    with Cons.prems have "t = c # s" by simp
    with has_prefix_extend [OF True, of r] show ?thesis by simp
  next
    case False
    with Cons have tail: "strstr (s @ r) p = Some (t @ r)" by simp
    have "strstr s p = Some t" using False Cons.prems by simp
    then have "length p \<le> length s"
      by (induction s) (auto split: if_splits dest: has_prefix_length)
    then have "\<not> has_prefix (c # s @ r) p" using False by (auto simp: has_prefix_def take_Cons' split: if_splits)
    with tail show ?thesis by simp
  qed
qed

lemma strstr_prefix: "strstr s p = Some t \<Longrightarrow> has_prefix t p"
  by (induction s) (auto simp: has_prefix_def split: if_splits)

lemma strstr_length: "strstr s p = Some t \<Longrightarrow> length t \<le> length s"
  by (induction s) (auto split: if_splits)

text \<open>A header that ends with the only blank line in it.\<close>

definition complete_head :: "string \<Rightarrow> bool" where
  "complete_head head \<longleftrightarrow> strstr head (crlf @ crlf) = Some (crlf @ crlf) \<and> nul \<notin> set head"

lemma partial_head:
  assumes "complete_head (q @ r)" "r \<noteq> []"
  shows "strstr q (crlf @ crlf) = None"
proof (rule ccontr)
  assume "strstr q (crlf @ crlf) \<noteq> None"
  then obtain t where t: "strstr q (crlf @ crlf) = Some t" by blast
  from strstr_extend [OF this, of r] assms(1) have "t @ r = crlf @ crlf" by (simp add: complete_head_def)
  moreover have "length (crlf @ crlf) \<le> length t" using strstr_prefix [OF t] by (rule has_prefix_length)
  ultimately have "length (t @ r) \<le> length t" by metis
  with assms(2) show False by simp
qed

lemma whole_head: "complete_head head \<Longrightarrow> strstr (head @ b) (crlf @ crlf) = Some (crlf @ crlf @ b)"
  using strstr_extend [of head "crlf @ crlf" _ b] by (simp add: complete_head_def)

section \<open>A request does not depend on how it is split\<close>

text \<open>What the loop holds while the request is incomplete.\<close>

definition reading :: "string \<Rightarrow> string \<Rightarrow> string \<Rightarrow> nat \<Rightarrow> int \<Rightarrow> bool" where
  "reading head body buffer h c \<longleftrightarrow> (\<exists>r. head @ body = buffer @ r \<and> r \<noteq> [])
     \<and> (length buffer < length head \<longrightarrow> h = 0 \<and> c = 0) \<and> (c = 0 \<or> c = int (length body))"

lemma read_request_step:
  assumes "take (MAX_REQUEST - 1 - length buffer) chunk = chunk" "chunk \<noteq> []" "cstr (buffer @ chunk) = buffer @ chunk"
  shows "strstr (buffer @ chunk) (crlf @ crlf) = None \<Longrightarrow>
      read_request (chunk # chunks) buffer h c = read_request chunks (buffer @ chunk) h c"
    "strstr (buffer @ chunk) (crlf @ crlf) = Some header_end \<Longrightarrow>
      header = length (buffer @ chunk) - length header_end + 4 \<Longrightarrow>
      content = (if c = 0 then (case content_length_of (take header (buffer @ chunk)) of Some k \<Rightarrow> k | None \<Rightarrow> 0) else c) \<Longrightarrow>
      read_request (chunk # chunks) buffer h c =
        (if 0 \<le> content \<and> nat content \<le> length (buffer @ chunk) - header then (buffer @ chunk, header, content)
         else read_request chunks (buffer @ chunk) header content)"
  by (simp_all only: read_request.simps assms Let_def if_False option.case)

lemma read_request_whole:
  assumes head: "complete_head head" and nul: "nul \<notin> set body"
    and cl: "content_length_of head = Some (int (length body)) \<or> content_length_of head = None \<and> body = []"
    and size: "length (head @ body) < MAX_REQUEST"
  shows "reading head body buffer h c \<Longrightarrow> buffer @ concat chunks = head @ body \<Longrightarrow> [] \<notin> set chunks
    \<Longrightarrow> read_request chunks buffer h c = (head @ body, length head, int (length body))"
proof (induction chunks arbitrary: buffer h c)
  case Nil
  then show ?case by (auto simp: reading_def)
next
  case (Cons chunk chunks)
  have whole: "(buffer @ chunk) @ concat chunks = head @ body" using Cons.prems(2) by simp
  have "length (buffer @ chunk) < MAX_REQUEST"
    using size arg_cong [OF whole, of length] by simp
  then have got: "take (MAX_REQUEST - 1 - length buffer) chunk = chunk" by simp
  have ne: "chunk \<noteq> []" using Cons.prems(3) by auto
  have c: "c = 0 \<or> c = int (length body)" using Cons.prems(1) by (simp add: reading_def)
  have "set (buffer @ chunk) \<subseteq> set (head @ body)" unfolding whole [symmetric] by auto
  then have cstr: "cstr (buffer @ chunk) = buffer @ chunk"
    using head nul by (intro cstr_id) (auto simp: complete_head_def)
  show ?case
  proof (cases "length (buffer @ chunk) < length head")
    case True
    define r where "r = drop (length (buffer @ chunk)) head"
    have split: "head = (buffer @ chunk) @ r"
      using whole True unfolding r_def by (metis append_eq_append_conv_if append_take_drop_id not_le order_less_imp_le)
    have "r \<noteq> []" using True by (simp add: r_def)
    then have none: "strstr (buffer @ chunk) (crlf @ crlf) = None" using head split partial_head by blast
    have "h = 0 \<and> c = 0" using Cons.prems(1) True by (auto simp: reading_def)
    then have "reading head body (buffer @ chunk) h c" using split \<open>r \<noteq> []\<close> by (auto simp: reading_def)
    from Cons.IH [OF this whole] Cons.prems(3) show ?thesis
      unfolding read_request_step(1) [OF got ne cstr none] by simp
  next
    case False
    define b where "b = drop (length head) (buffer @ chunk)"
    have split: "buffer @ chunk = head @ b"
      using whole False unfolding b_def by (metis append_eq_append_conv_if append_take_drop_id not_le)
    then have body: "body = b @ concat chunks" using whole by simp
    have found: "strstr (buffer @ chunk) (crlf @ crlf) = Some (crlf @ crlf @ b)"
      unfolding split by (rule whole_head [OF head])
    have h': "length (buffer @ chunk) - length (crlf @ crlf @ b) + 4 = length head"
    proof -
      have "length (crlf @ crlf) \<le> length head"
        using head strstr_length [of head "crlf @ crlf" "crlf @ crlf"] by (simp only: complete_head_def)
      then show ?thesis unfolding split by (simp add: crlf_def)
    qed
    have c': "(if c = 0 then (case content_length_of (take (length head) (buffer @ chunk)) of Some k \<Rightarrow> k | None \<Rightarrow> 0) else c)
        = int (length body)"
      using c cl by (auto simp: split)
    have step: "read_request (chunk # chunks) buffer h c
        = (if length body \<le> length b then (head @ b, length head, int (length body))
           else read_request chunks (head @ b) (length head) (int (length body)))"
      unfolding read_request_step(2) [OF got ne cstr found h' [symmetric] c' [symmetric]] by (simp add: split)
    show ?thesis
    proof (cases "length body \<le> length b")
      case True
      then have "concat chunks = []" using body by simp
      with step True body show ?thesis by simp
    next
      case False
      then have "concat chunks \<noteq> []" using body by auto
      then have "reading head body (head @ b) (length head) (int (length body))"
        using body by (auto simp: reading_def)
      from Cons.IH [OF this] step False whole split Cons.prems(3) show ?thesis by simp
    qed
  qed
qed

lemma scan_str_token:
  assumes "tok \<noteq> []" "\<forall>c \<in> set tok. \<not> is_cspace c" "length tok \<le> w" "is_cspace d"
  shows "scan_str w (tok @ d # rest) = Some (tok, d # rest)"
proof -
  have "dropWhile is_cspace (tok @ d # rest) = tok @ d # rest" using assms(1,2) by (cases tok) auto
  moreover have "takeWhile (\<lambda>c. \<not> is_cspace c) (take w (tok @ d # rest)) = tok"
    using assms(2-4) by (cases "w - length tok") (auto simp: takeWhile_append takeWhile_eq_all_conv)
  ultimately show ?thesis using assms(1) by (simp add: scan_str_def Let_def)
qed

lemma scan_str_space: "is_cspace d \<Longrightarrow> scan_str w (d # rest) = scan_str w rest"
  by (simp add: scan_str_def)

section \<open>Properties\<close>

text \<open>C32: A complete request is understood in the same way however the network splits it: the method,
  the path and the body are those of its text, whatever the sizes of the reads.\<close>

theorem request_split_irrelevant:
  assumes "complete_head head" "nul \<notin> set body" "length (head @ body) < MAX_REQUEST"
    "content_length_of head = Some (int (length body)) \<or> content_length_of head = None \<and> body = []"
    "head = method @ CHR '' '' # path @ CHR '' '' # rest" "method \<noteq> []" "path \<noteq> []"
    "\<forall>c \<in> set (method @ path). \<not> is_cspace c" "length method \<le> 7" "length path < MAX_PATH_LENGTH"
    "concat chunks = head @ body" "[] \<notin> set chunks"
  shows "receive_request chunks = Request method path body"
proof -
  have ne: "head \<noteq> []" using assms(5) by simp
  then have "reading head body [] 0 0" by (auto simp: reading_def)
  from read_request_whole [OF assms(1,2,4,3) this _ assms(12)] assms(11)
  have read: "read_request chunks [] 0 0 = (head @ body, length head, int (length body))" by simp
  have nul: "cstr (head @ body) = head @ body" "cstr body = body"
    using assms(1,2) by (auto intro!: cstr_id simp: complete_head_def)
  have sp: "is_cspace CHR '' ''" by (simp add: is_cspace_def is_space_def ch_code_def)
  have "scan_str 7 (method @ CHR '' '' # (path @ CHR '' '' # rest @ body)) = Some (method, CHR '' '' # path @ CHR '' '' # rest @ body)"
    by (rule scan_str_token) (use assms(6,8,9) sp in auto)
  moreover have "scan_str (MAX_PATH_LENGTH - 1) (path @ CHR '' '' # rest @ body) = Some (path, CHR '' '' # rest @ body)"
    by (rule scan_str_token) (use assms(7,8,10) sp in auto)
  ultimately show ?thesis
    using ne by (simp add: receive_request_def read parse_request_def nul scan_str_space [OF sp])
      (simp add: assms(5) nul scan_str_space [OF sp])
qed

definition demo_head :: string where
  "demo_head = ''POST /rules HTTP/1.1'' @ crlf @ ''Content-Length: 3'' @ crlf @ crlf"

theorem request_split_irrelevant_witness:
  "receive_request [take 5 demo_head, drop 5 demo_head @ ''a'', ''=b''] = Request ''POST'' ''/rules'' ''a=b''"
proof -
  have "complete_head demo_head" "content_length_of demo_head = Some 3" by code_simp+
  moreover have "demo_head = ''POST'' @ CHR '' '' # ''/rules'' @ CHR '' '' # drop 12 demo_head"
    "[] \<notin> set [take 5 demo_head, drop 5 demo_head @ ''a'', ''=b'']"
    by (simp_all add: demo_head_def)
  moreover have "length demo_head = 43" by (simp add: demo_head_def crlf_def)
  ultimately show ?thesis
    by (intro request_split_irrelevant [of demo_head "''a=b''" "''POST''" "''/rules''" "drop 12 demo_head"])
      (simp_all add: MAX_REQUEST_def MAX_PATH_LENGTH_def nul_char is_cspace_def is_space_def ch_code_def)
qed

end
