(* ===== verification/Sse.thy ===== *)
theory Sse
  imports ApiProps
begin

text \<open>
  The event stream of \<^verbatim>\<open>app/main.c\<close>: clients with non-blocking sockets. A client is its
  connection number, the counter of consecutive frames it had no room for, and (for the
  specification) the bytes its socket has taken. What a write returns is a parameter.
\<close>

section \<open>Model\<close>

definition SSE_MAX_STALLED :: guint where "SSE_MAX_STALLED = 30"

record sse_client =
  sse_connection :: nat
  sse_stalled :: guint
  sse_sent :: string

datatype write_result = Written nat | WouldBlock | WriteError

definition newline :: char where "newline = CHR 0x0A"

definition sse_headers :: string where
  "sse_headers = ''HTTP/1.1 200 OK'' @ [CHR 0x0D, newline]
     @ ''Content-Type: text/event-stream'' @ [CHR 0x0D, newline]
     @ ''Cache-Control: no-store'' @ [CHR 0x0D, newline]
     @ ''X-Content-Type-Options: nosniff'' @ [CHR 0x0D, newline]
     @ ''Connection: keep-alive'' @ [CHR 0x0D, newline, CHR 0x0D, newline]"

text \<open>A connection joins the list when its headers are written.\<close>

definition sse_add :: "bool \<Rightarrow> nat \<Rightarrow> sse_client list \<Rightarrow> sse_client list" where
  "sse_add headers_written connection clients = (if \<not> headers_written then clients
     else \<lparr>sse_connection = connection, sse_stalled = 0, sse_sent = sse_headers\<rparr> # clients)"

definition sse_frame :: "string \<Rightarrow> string" where
  "sse_frame json = ''data: '' @ json @ [newline, newline]"

text \<open>One client of a broadcast: \<open>None\<close> where it is dropped.\<close>

definition sse_write :: "string \<Rightarrow> write_result \<Rightarrow> sse_client \<Rightarrow> sse_client option" where
  "sse_write frame result client = (case result of
     Written n \<Rightarrow> if 0 < n then Some (client\<lparr>sse_stalled := 0, sse_sent := sse_sent client @ take n frame\<rparr>) else None
   | WouldBlock \<Rightarrow> let client' = client\<lparr>sse_stalled := sse_stalled client + 1\<rparr> in
       if SSE_MAX_STALLED \<le> sse_stalled client' then None else Some client'
   | WriteError \<Rightarrow> None)"

definition sse_broadcast :: "string \<Rightarrow> (nat \<Rightarrow> write_result) \<Rightarrow> sse_client list \<Rightarrow> sse_client list" where
  "sse_broadcast frame results clients = (if clients = [] then []
     else List.map_filter (\<lambda>c. sse_write frame (results (sse_connection c)) c) clients)"

section \<open>Rounds\<close>

type_synonym round = "string \<times> (nat \<Rightarrow> write_result)"

fun sse_rounds :: "round list \<Rightarrow> sse_client list \<Rightarrow> sse_client list" where
  "sse_rounds [] clients = clients"
| "sse_rounds ((frame, results) # rounds) clients = sse_rounds rounds (sse_broadcast frame results clients)"

fun client_run :: "(string \<times> write_result) list \<Rightarrow> sse_client \<Rightarrow> sse_client option" where
  "client_run [] client = Some client"
| "client_run ((frame, result) # xs) client = (case sse_write frame result client of
     None \<Rightarrow> None | Some client' \<Rightarrow> client_run xs client')"

definition script :: "round list \<Rightarrow> nat \<Rightarrow> (string \<times> write_result) list" where
  "script rounds connection = map (\<lambda>(frame, results). (frame, results connection)) rounds"

lemma sse_broadcast_filter:
  "sse_broadcast frame results clients = List.map_filter (\<lambda>c. sse_write frame (results (sse_connection c)) c) clients"
  by (simp add: sse_broadcast_def List.map_filter_def)

lemma sse_write_connection: "sse_write frame r c = Some c' \<Longrightarrow> sse_connection c' = sse_connection c"
  by (auto simp: sse_write_def Let_def split: write_result.splits if_splits)

lemma map_filter_compose:
  "List.map_filter g (List.map_filter f xs) = List.map_filter (\<lambda>x. Option.bind (f x) g) xs"
  by (induction xs) (auto simp: List.map_filter_def split: option.splits)

lemma sse_rounds_client:
  "sse_rounds rounds clients = List.map_filter (\<lambda>c. client_run (script rounds (sse_connection c)) c) clients"
proof (induction rounds arbitrary: clients)
  case Nil
  show ?case by (induction clients) (simp_all add: script_def List.map_filter_def)
next
  case (Cons r rounds)
  obtain frame results where r: "r = (frame, results)" by force
  have "Option.bind (sse_write frame (results (sse_connection c)) c) (\<lambda>c'. client_run (script rounds (sse_connection c')) c')
      = client_run (script (r # rounds) (sse_connection c)) c" for c
  proof (cases "sse_write frame (results (sse_connection c)) c")
    case (Some c')
    then show ?thesis using sse_write_connection [OF Some] by (simp add: r script_def)
  qed (simp add: r script_def)
  then have "(\<lambda>c. Option.bind (sse_write frame (results (sse_connection c)) c) (\<lambda>c'. client_run (script rounds (sse_connection c')) c'))
      = (\<lambda>c. client_run (script (r # rounds) (sse_connection c)) c)" by (rule ext)
  then show ?case by (simp only: r sse_rounds.simps Cons.IH sse_broadcast_filter map_filter_compose)
qed

section \<open>When a client is dropped\<close>

definition trailing_blocks :: "(string \<times> write_result) list \<Rightarrow> nat" where
  "trailing_blocks xs = length (takeWhile (\<lambda>x. snd x = WouldBlock) (rev xs))"

definition broken :: "write_result \<Rightarrow> bool" where
  "broken r \<longleftrightarrow> r = WriteError \<or> r = Written 0"

definition taken :: "string \<times> write_result \<Rightarrow> string" where
  "taken x = (case snd x of Written n \<Rightarrow> take n (fst x) | _ \<Rightarrow> [])"

definition kept :: "(string \<times> write_result) list \<Rightarrow> bool" where
  "kept xs \<longleftrightarrow> (\<forall>x \<in> set xs. \<not> broken (snd x)) \<and> (\<forall>k \<le> length xs. trailing_blocks (take k xs) < 30)"

lemma trailing_blocks_snoc: "trailing_blocks (xs @ [x]) = (if snd x = WouldBlock then trailing_blocks xs + 1 else 0)"
  by (simp add: trailing_blocks_def)

lemma kept_snoc: "kept (xs @ [x]) \<longleftrightarrow> kept xs \<and> \<not> broken (snd x) \<and> trailing_blocks (xs @ [x]) < 30"
  unfolding kept_def by (auto simp: le_Suc_eq)

lemma client_run_snoc: "client_run (xs @ [x]) c = Option.bind (client_run xs c) (sse_write (fst x) (snd x))"
proof (induction xs arbitrary: c)
  case Nil
  show ?case by (cases x) (simp split: option.split)
next
  case (Cons y ys)
  show ?case by (cases y) (simp add: Cons.IH split: option.split)
qed

lemma client_run_spec:
  assumes "sse_stalled c = 0"
  shows "client_run xs c = (if kept xs then Some (c\<lparr>sse_stalled := of_nat (trailing_blocks xs),
     sse_sent := sse_sent c @ concat (map taken xs)\<rparr>) else None)"
proof (induction xs rule: rev_induct)
  case Nil
  show ?case using assms by (simp add: kept_def trailing_blocks_def)
next
  case (snoc x xs)
  show ?case
  proof (cases "kept xs")
    case False
    then show ?thesis by (simp add: client_run_snoc snoc.IH kept_snoc)
  next
    case True
    define t where "t = trailing_blocks xs"
    have t: "t < 30" using True by (auto simp: kept_def t_def)
    have "SSE_MAX_STALLED \<le> (of_nat t + 1 :: guint) \<longleftrightarrow> 30 \<le> t + 1"
    proof -
      have "unat (of_nat t + 1 :: guint) = t + 1"
        using t by (simp add: unat_word_ariths unat_of_nat take_bit_nat_def flip: of_nat_Suc)
      then show ?thesis by (simp add: SSE_MAX_STALLED_def word_le_nat_alt)
    qed
    then show ?thesis using True
      using taken_def [of x]
      by (cases "snd x") (auto simp: client_run_snoc snoc.IH kept_snoc trailing_blocks_snoc sse_write_def broken_def
          add.commute simp flip: t_def)
  qed
qed

section \<open>Property\<close>

text \<open>C33: Over any number of frames a client is dropped exactly when a write fails or 30 in a row find
  no room, whatever the other clients do, and what it has received is the part of each frame its
  writes took. A write that takes part of a frame counts as a success: the rest of the frame is
  not sent again, so the next event is glued to a torn one.\<close>

theorem sse_clients_independent:
  assumes "\<forall>c \<in> set clients. sse_stalled c = 0"
  shows "sse_rounds rounds clients
    = map (\<lambda>c. c\<lparr>sse_stalled := of_nat (trailing_blocks (script rounds (sse_connection c))),
          sse_sent := sse_sent c @ concat (map taken (script rounds (sse_connection c)))\<rparr>)
        (filter (\<lambda>c. kept (script rounds (sse_connection c))) clients)"
  unfolding sse_rounds_client using assms
  by (induction clients) (auto simp: List.map_filter_def client_run_spec)

definition demo_client :: sse_client where
  "demo_client = \<lparr>sse_connection = 1, sse_stalled = 0, sse_sent = []\<rparr>"

theorem sse_clients_independent_witness:
  "sse_rounds [(''data: 1'', \<lambda>_. Written 4), (''data: 2'', \<lambda>_. Written 7)] [demo_client]
     = [demo_client\<lparr>sse_sent := ''datadata: 2''\<rparr>]"
proof -
  have "kept [(''data: 1'', Written 4), (''data: 2'', Written 7)]"
    by (auto simp: kept_def broken_def trailing_blocks_def le_Suc_eq numeral_2_eq_2)
  then show ?thesis
    using sse_clients_independent [of "[demo_client]" "[(''data: 1'', \<lambda>_. Written 4), (''data: 2'', \<lambda>_. Written 7)]"]
    by (simp add: demo_client_def script_def taken_def trailing_blocks_def del: sse_rounds.simps)
qed

end
