(* ===== verification/Mqtt.thy ===== *)
theory Mqtt
  imports Api Floats
begin

text \<open>
  \<^verbatim>\<open>app/mqtt.h\<close>, \<^verbatim>\<open>app/mqtt.c\<close>: publishing to a broker through the paho client. The state is
  whether a client exists and is connected, and what was sent; the calls into paho are outputs
  in order. Not under \<^verbatim>\<open>src/\<close> and therefore parameters: whether creating a client succeeds, the
  monotonic clock and the number formats. Paho's callbacks are operations.
\<close>

section \<open>State\<close>

record mqtt_config =
  mc_enabled :: bool
  mc_host :: string
  mc_port :: guint
  mc_tls :: bool
  mc_username :: string
  mc_password :: string
  mc_topic_prefix :: string
  mc_interval_s :: guint
  mc_discovery :: bool
  mc_discovery_all :: bool

record mqtt =
  mq_config :: mqtt_config
  mq_client :: bool
  mq_address :: string
  mq_client_id :: string
  mq_connected :: bool
  mq_discovery_sent :: bool
  mq_last_publish :: gint64

text \<open>
  \<open>Publish\<close> has the topic, the payload, the quality of service, the retained flag and the time
  waited for completion; \<open>Connect\<close> the user name and password given, the topic of the will
  and whether TLS is used.
\<close>

datatype mqtt_output =
  Publish string string nat bool nat
| Create string string
| Connect "string option" "string option" string bool
| Disconnect
| Destroy

definition zero_config :: mqtt_config where
  "zero_config = \<lparr>mc_enabled = False, mc_host = [], mc_port = 0, mc_tls = False, mc_username = [], mc_password = [],
     mc_topic_prefix = [], mc_interval_s = 0, mc_discovery = False, mc_discovery_all = False\<rparr>"

definition mqtt_new :: mqtt where
  "mqtt_new = \<lparr>mq_config = zero_config, mq_client = False, mq_address = [], mq_client_id = [], mq_connected = False,
     mq_discovery_sent = False, mq_last_publish = 0\<rparr>"

section \<open>Which metrics become entities\<close>

definition interface_is_vlan :: "string \<Rightarrow> bool" where
  "interface_is_vlan key = (let start = drop 4 key in
     case strchr start CHR ''.'' of None \<Rightarrow> False
     | Some end \<Rightarrow> CHR ''_'' \<in> set (take (length start - length end) start))"

definition is_essential :: "string \<Rightarrow> bool \<Rightarrow> bool" where
  "is_essential key named_sensors =
     (if key \<in> set [''cpu.usage'', ''mem.usage'', ''mem.used'', ''load.1'', ''sys.uptime'', ''flash.life_used'',
          ''flash.pre_eol'', ''poe.total'', ''poe.budget''] then True
      else if has_prefix key ''sensor.'' then True
      else if has_prefix key ''temp.'' then \<not> named_sensors
      else if has_prefix key ''fs.'' \<and> has_suffix key ''.usage'' then \<not> has_prefix key ''fs.mnt_''
      else if has_prefix key ''net.'' \<and> (has_suffix key ''.rx_bps'' \<or> has_suffix key ''.tx_bps'')
        then \<not> interface_is_vlan key
      else False)"

definition has_named_sensors :: "api \<Rightarrow> bool" where
  "has_named_sensors a = list_ex (\<lambda>d. has_prefix (md_id d) ''sensor.'') (api_defs a)"

definition device_class_for :: "string \<Rightarrow> string option" where
  "device_class_for unit = (if unit = ''C'' then Some ''temperature''
     else if unit = ''B'' then Some ''data_size''
     else if unit = ''B/s'' then Some ''data_rate''
     else if unit = ''s'' then Some ''duration''
     else if unit = ''MHz'' then Some ''frequency''
     else None)"

text \<open>The degree sign is the UTF-8 of U+00B0.\<close>

definition ha_unit_for :: "string \<Rightarrow> string" where
  "ha_unit_for unit = (if unit = ''C'' then [CHR 0xC2, CHR 0xB0, CHR ''C'']
     else if unit = ''Mb/s'' then ''Mbit/s''
     else unit)"

definition ha_suggested_unit :: "metric_def \<Rightarrow> string option" where
  "ha_suggested_unit d = (if md_unit d = ''B'' then Some (if has_prefix (md_id d) ''fs.'' then ''GB'' else ''MB'')
     else if md_unit d = ''B/s'' then Some ''MB/s'' else None)"

section \<open>Topics and payloads\<close>

definition topic :: "mqtt \<Rightarrow> string \<Rightarrow> string" where
  "topic m leaf = strlcpy 256 (mc_topic_prefix (mq_config m) @ ''/'' @ leaf)"

definition publish :: "mqtt \<Rightarrow> string \<Rightarrow> string \<Rightarrow> nat \<Rightarrow> bool \<Rightarrow> nat \<Rightarrow> mqtt_output list" where
  "publish m topic_name payload qos retained wait_ms =
     (if \<not> mq_client m then [] else [Publish topic_name payload qos retained wait_ms])"

definition object_id_of :: "device_info \<Rightarrow> metric_def \<Rightarrow> string" where
  "object_id_of dev d = map (\<lambda>c. if is_alnum c then c else CHR ''_'')
     (strlcpy 128 (dev_serial dev @ ''_'' @ md_id d))"

definition config_topic_of :: "device_info \<Rightarrow> metric_def \<Rightarrow> string" where
  "config_topic_of dev d = strlcpy 256 (''homeassistant/sensor/'' @ object_id_of dev d @ ''/config'')"

text \<open>A member with a text value; nothing is escaped.\<close>

definition raw_kv :: "string \<Rightarrow> string \<Rightarrow> string" where
  "raw_kv key val = quoted key @ CHR '':'' # quoted val"

definition discovery_payload :: "mqtt \<Rightarrow> device_info \<Rightarrow> metric_def \<Rightarrow> string" where
  "discovery_payload m dev d = CHR ''{'' # raw_kv ''name'' (md_label d) @ '',''
     @ raw_kv ''unique_id'' (''axis_'' @ object_id_of dev d) @ '',''
     @ raw_kv ''state_topic'' (topic m ''state'') @ '',''
     @ raw_kv ''availability_topic'' (topic m ''status'') @ '',''
     @ raw_kv ''value_template'' (''{{ value_json['' @ [CHR 0x27] @ md_id d @ [CHR 0x27] @ ''] }}'') @ '',''
     @ (if md_unit d \<noteq> [] then raw_kv ''unit_of_measurement'' (ha_unit_for (md_unit d)) @ '','' else [])
     @ (case device_class_for (md_unit d) of Some c \<Rightarrow> raw_kv ''device_class'' c @ '','' | None \<Rightarrow> [])
     @ (case ha_suggested_unit d of
          Some u \<Rightarrow> raw_kv ''suggested_unit_of_measurement'' u @ '',''
            @ quoted ''suggested_display_precision'' @ '':1,''
        | None \<Rightarrow> [])
     @ raw_kv ''state_class'' ''measurement'' @ '',''
     @ quoted ''device'' @ '':{'' @ quoted ''identifiers'' @ '':['' @ quoted (''axis_'' @ dev_serial dev) @ ''],''
     @ raw_kv ''name'' (if dev_model dev \<noteq> [] then dev_model dev else ''Axis device'') @ '',''
     @ raw_kv ''manufacturer'' ''Axis'' @ '','' @ raw_kv ''model'' (dev_model dev) @ '',''
     @ raw_kv ''sw_version'' (dev_firmware dev) @ ''}}''"

definition discovery_wanted :: "api \<Rightarrow> mqtt \<Rightarrow> metric_def \<Rightarrow> bool" where
  "discovery_wanted a m d \<longleftrightarrow> selection_enabled (api_selection a) SELECT_TRANSMIT (md_id d)
     \<and> (mc_discovery_all (mq_config m) \<or> is_essential (md_id d) (has_named_sensors a))"

definition publish_discovery :: "api \<Rightarrow> bool \<Rightarrow> mqtt \<Rightarrow> mqtt \<times> mqtt_output list" where
  "publish_discovery a withdraw_stale m = (m\<lparr>mq_discovery_sent := True\<rparr>,
     concat (map (\<lambda>d. if \<not> discovery_wanted a m d
         then (if withdraw_stale then publish m (config_topic_of (api_device a) d) [] 0 True 0 else [])
         else publish m (config_topic_of (api_device a) d) (discovery_payload m (api_device a) d) 0 True 0)
       (api_defs a)))"

section \<open>Callbacks\<close>

definition on_connected :: "api \<Rightarrow> mqtt \<Rightarrow> mqtt \<times> mqtt_output list" where
  "on_connected a m = (let m1 = m\<lparr>mq_connected := True\<rparr>;
     online = publish m1 (topic m1 ''status'') ''online'' 1 True 0;
     (m2, configs) = (if mc_discovery (mq_config m1) then publish_discovery a (\<not> mq_discovery_sent m1) m1 else (m1, []))
   in (m2\<lparr>mq_last_publish := 0\<rparr>, online @ configs))"

definition on_connection_lost :: "mqtt \<Rightarrow> mqtt" where
  "on_connection_lost m = m\<lparr>mq_connected := False\<rparr>"

section \<open>Lifecycle\<close>

definition mqtt_disconnect :: "mqtt \<Rightarrow> mqtt \<times> mqtt_output list" where
  "mqtt_disconnect m = (if \<not> mq_client m then (m, [])
     else (m\<lparr>mq_client := False, mq_connected := False, mq_discovery_sent := False\<rparr>,
       (if mq_connected m then publish m (topic m ''status'') ''offline'' 1 True 1000 @ [Disconnect] else []) @ [Destroy]))"

definition connection_differs :: "mqtt_config \<Rightarrow> mqtt_config \<Rightarrow> bool" where
  "connection_differs a b \<longleftrightarrow> mc_enabled a \<noteq> mc_enabled b \<or> mc_port a \<noteq> mc_port b \<or> mc_tls a \<noteq> mc_tls b
     \<or> mc_host a \<noteq> mc_host b \<or> mc_username a \<noteq> mc_username b
     \<or> mc_password a \<noteq> mc_password b \<or> mc_topic_prefix a \<noteq> mc_topic_prefix b"

definition broker_address :: "mqtt_config \<Rightarrow> string" where
  "broker_address c = strlcpy 224 ((if mc_tls c then ''ssl'' else ''tcp'') @ ''://'' @ mc_host c @ '':''
     @ show_nat (unat (mc_port c)))"

definition connect_now :: "api \<Rightarrow> bool \<Rightarrow> mqtt \<Rightarrow> mqtt \<times> mqtt_output list" where
  "connect_now a create_ok m = (let c = mq_config m;
     m1 = m\<lparr>mq_address := broker_address c, mq_client_id := strlcpy 64 (''axis-metrics-'' @
       (if dev_serial (api_device a) \<noteq> [] then dev_serial (api_device a) else ''unknown''))\<rparr> in
     if \<not> create_ok then (m1\<lparr>mq_client := False\<rparr>, [Create (mq_address m1) (mq_client_id m1)])
     else (m1\<lparr>mq_client := True\<rparr>, [Create (mq_address m1) (mq_client_id m1),
       Connect (if mc_username c \<noteq> [] then Some (mc_username c) else None)
         (if mc_username c \<noteq> [] \<and> mc_password c \<noteq> [] then Some (mc_password c) else None)
         (topic m1 ''status'') (mc_tls c)]))"

definition mqtt_apply :: "api \<Rightarrow> bool \<Rightarrow> mqtt_config \<Rightarrow> mqtt \<Rightarrow> mqtt \<times> mqtt_output list" where
  "mqtt_apply a create_ok config m = (let
     reconnect = (connection_differs (mq_config m) config \<or> \<not> mq_client m);
     rediscover = (\<not> reconnect \<and> mq_connected m \<and> mc_discovery config
       \<and> (mc_discovery config \<noteq> mc_discovery (mq_config m) \<or> mc_discovery_all config \<noteq> mc_discovery_all (mq_config m)));
     m1 = m\<lparr>mq_config := config\<rparr> in
     if \<not> mc_enabled config then mqtt_disconnect m1
     else if mc_host config = [] then mqtt_disconnect m1
     else if reconnect then
       (let (m2, outs) = mqtt_disconnect m1; (m3, outs') = connect_now a create_ok m2 in (m3, outs @ outs'))
     else if rediscover then publish_discovery a True m1
     else (m1, []))"

text \<open>\<open>now\<close> is the monotonic clock in seconds. \<open>None\<close> is a memory error of the document.\<close>

definition mqtt_tick :: "formatter \<Rightarrow> api \<Rightarrow> gint64 \<Rightarrow> mqtt \<Rightarrow> (mqtt \<times> mqtt_output list) option" where
  "mqtt_tick fmt a now m = (if \<not> mq_connected m \<or> \<not> mc_enabled (mq_config m) then Some (m, [])
     else if mq_last_publish m \<noteq> 0 \<and> now - mq_last_publish m < int (unat (mc_interval_s (mq_config m))) then Some (m, [])
     else do {
       json \<leftarrow> api_current_values_json fmt a;
       let m1 = m\<lparr>mq_last_publish := now\<rparr>;
       Some (m1, publish m1 (topic m1 ''state'') json 0 True 0)
     })"

definition alert_payload :: "(double \<Rightarrow> string) \<Rightarrow> string \<Rightarrow> string \<Rightarrow> string \<Rightarrow> double \<Rightarrow> bool \<Rightarrow> string" where
  "alert_payload fmt_g rule_id name metric v firing = CHR ''{'' # raw_kv ''rule'' rule_id @ '','' @ raw_kv ''name'' name
     @ '','' @ raw_kv ''metric'' metric @ '','' @ quoted ''value'' @ CHR '':'' # fmt_g v
     @ '','' @ raw_kv ''state'' (if firing then ''firing'' else ''cleared'') @ ''}''"

definition mqtt_publish_alert :: "(double \<Rightarrow> string) \<Rightarrow> mqtt option \<Rightarrow> string \<Rightarrow> string \<Rightarrow> string \<Rightarrow> double \<Rightarrow> bool
    \<Rightarrow> mqtt_output list" where
  "mqtt_publish_alert fmt_g mq rule_id name metric v firing = (case mq of None \<Rightarrow> []
     | Some m \<Rightarrow> if \<not> mq_connected m then []
         else publish m (topic m (strlcpy 128 (''alert/'' @ rule_id)))
           (alert_payload fmt_g rule_id name metric v firing) 1 True 0)"

definition mqtt_state :: "mqtt \<Rightarrow> string" where
  "mqtt_state m = (if \<not> mc_enabled (mq_config m) then ''disabled''
     else if \<not> mq_client m then ''error''
     else if mq_connected m then ''connected'' else ''connecting'')"

definition mqtt_free :: "mqtt \<Rightarrow> mqtt_output list" where
  "mqtt_free m = snd (mqtt_disconnect m)"

end
