(* ===== verification/MqttProps.thy ===== *)
theory MqttProps
  imports Mqtt Device Json
begin

text \<open>
  \<^verbatim>\<open>app/mqtt.c\<close> as a state machine: the invariant of its reachable states, what a change of the
  topic prefix leaves behind, and the JSON of its payloads, which are printed without escaping.
\<close>

section \<open>Steps\<close>

inductive mqtt_step :: "mqtt \<Rightarrow> mqtt_output list \<Rightarrow> mqtt \<Rightarrow> bool" where
  Apply: "mqtt_apply a create_ok config m = (m', outs) \<Longrightarrow> mqtt_step m outs m'"
| Connected: "mq_client m \<Longrightarrow> on_connected a m = (m', outs) \<Longrightarrow> mqtt_step m outs m'"
| Lost: "mq_client m \<Longrightarrow> mqtt_step m [] (on_connection_lost m)"
| Tick: "mqtt_tick fmt a now m = Some (m', outs) \<Longrightarrow> mqtt_step m outs m'"

inductive mqtt_reachable :: "mqtt \<Rightarrow> mqtt_output list \<Rightarrow> bool" where
  Start: "mqtt_reachable mqtt_new []"
| Step: "mqtt_reachable m outs \<Longrightarrow> mqtt_step m outs' m' \<Longrightarrow> mqtt_reachable m' (outs @ outs')"

definition mqtt_inv :: "mqtt \<Rightarrow> bool" where
  [inv_defs]: "mqtt_inv m \<longleftrightarrow> (mq_connected m \<longrightarrow> mq_client m)
     \<and> (mq_discovery_sent m \<longrightarrow> mq_client m)
     \<and> (mq_client m \<longrightarrow> mc_enabled (mq_config m) \<and> mc_host (mq_config m) \<noteq> []
          \<and> mq_address m = broker_address (mq_config m))"

lemma publish_discovery_fields: "publish_discovery a w m = (m\<lparr>mq_discovery_sent := True\<rparr>, snd (publish_discovery a w m))"
  by (simp add: publish_discovery_def)

lemma disconnect_off: "mq_connected m \<longrightarrow> mq_client m \<Longrightarrow> mq_discovery_sent m \<longrightarrow> mq_client m \<Longrightarrow>
    \<not> mq_client (fst (mqtt_disconnect m)) \<and> \<not> mq_connected (fst (mqtt_disconnect m))
    \<and> \<not> mq_discovery_sent (fst (mqtt_disconnect m)) \<and> mq_config (fst (mqtt_disconnect m)) = mq_config m"
  by (auto simp: mqtt_disconnect_def)

lemma connect_now_inv:
  assumes "mc_enabled (mq_config m)" "mc_host (mq_config m) \<noteq> []" "\<not> mq_connected m" "\<not> mq_discovery_sent m"
  shows "mqtt_inv (fst (connect_now a ok m))"
  using assms by (simp add: connect_now_def Let_def mqtt_inv_def)

lemma same_address: "\<not> connection_differs c d \<Longrightarrow> broker_address c = broker_address d \<and> mc_host c = mc_host d"
  by (simp add: connection_differs_def broker_address_def)

lemma mqtt_apply_inv:
  assumes inv: "mqtt_inv m"
  shows "mqtt_inv (fst (mqtt_apply a ok config m))"
proof -
  define m1 where "m1 = m\<lparr>mq_config := config\<rparr>"
  have m1: "mq_connected m1 \<longrightarrow> mq_client m1" "mq_discovery_sent m1 \<longrightarrow> mq_client m1" "mq_config m1 = config"
    using inv by (simp_all add: m1_def mqtt_inv_def)
  note off = disconnect_off [OF m1(1,2)]
  consider "\<not> mc_enabled config \<or> mc_host config = []"
    | "mc_enabled config" "mc_host config \<noteq> []" "connection_differs (mq_config m) config \<or> \<not> mq_client m"
    | "mc_enabled config" "mc_host config \<noteq> []" "\<not> connection_differs (mq_config m) config" "mq_client m"
    by blast
  then show ?thesis
  proof cases
    case 1
    then have "fst (mqtt_apply a ok config m) = fst (mqtt_disconnect m1)"
      by (auto simp: mqtt_apply_def Let_def m1_def)
    with off show ?thesis by (simp add: mqtt_inv_def)
  next
    case 2
    have "fst (mqtt_apply a ok config m) = fst (connect_now a ok (fst (mqtt_disconnect m1)))"
      using 2 by (simp add: mqtt_apply_def Let_def m1_def case_prod_beta)
    with connect_now_inv [of "fst (mqtt_disconnect m1)"] off m1(3) 2 show ?thesis by simp
  next
    case 3
    have "fst (mqtt_apply a ok config m) \<in> {m1, m1\<lparr>mq_discovery_sent := True\<rparr>}"
      using 3 by (simp add: mqtt_apply_def Let_def m1_def publish_discovery_def)
    then show ?thesis using inv 3 same_address [OF 3(3)] by (auto simp: m1_def mqtt_inv_def)
  qed
qed

lemma mqtt_step_inv: "mqtt_step m outs m' \<Longrightarrow> mqtt_inv m \<Longrightarrow> mqtt_inv m'"
proof (induction rule: mqtt_step.induct)
  case (Apply a ok config m m' outs)
  then show ?case using mqtt_apply_inv [of m a ok config] by simp
next
  case (Connected m a m' outs)
  then show ?case by (auto simp: on_connected_def Let_def publish_discovery_def mqtt_inv_def split: if_splits)
next
  case (Lost m)
  then show ?case by (simp add: on_connection_lost_def mqtt_inv_def)
next
  case (Tick fmt a now m m' outs)
  then show ?case by (auto simp: mqtt_tick_def Let_def mqtt_inv_def split: if_splits bind_splits)
qed

lemma mqtt_reachable_inv: "mqtt_reachable m outs \<Longrightarrow> mqtt_inv m"
proof (induction rule: mqtt_reachable.induct)
  case Start
  show ?case by (simp add: mqtt_inv_def mqtt_new_def)
qed (rule mqtt_step_inv)

section \<open>The use of paho\<close>

text \<open>
  Whether a client exists after a sequence of calls, and \<open>None\<close> where a call uses a client that
  does not exist or makes a second one. \<open>Create\<close> alone leaves none: it failed when no \<open>Connect\<close>
  follows.
\<close>

fun client_life :: "mqtt_output list \<Rightarrow> bool \<Rightarrow> bool option" where
  "client_life [] alive = Some alive"
| "client_life (Publish _ _ _ _ _ # outs) alive = (if alive then client_life outs True else None)"
| "client_life (Create _ _ # outs) alive = (if alive then None else client_life outs False)"
| "client_life (Connect _ _ _ _ # outs) alive = (if alive then None else client_life outs True)"
| "client_life (Disconnect # outs) alive = (if alive then client_life outs True else None)"
| "client_life (Destroy # outs) alive = (if alive then client_life outs False else None)"

lemma client_life_append: "client_life (xs @ ys) alive = Option.bind (client_life xs alive) (client_life ys)"
  by (induction xs alive rule: client_life.induct) simp_all

lemma client_life_concat: "(\<And>x. x \<in> set xs \<Longrightarrow> client_life x alive = Some alive) \<Longrightarrow>
    client_life (concat xs) alive = Some alive"
  by (induction xs) (simp_all add: client_life_append)

lemma publish_life: "client_life (publish m t p q r w) (mq_client m) = Some (mq_client m)"
  by (simp add: publish_def)

lemma discovery_life: "client_life (snd (publish_discovery a w m)) (mq_client m) = Some (mq_client m)"
  unfolding publish_discovery_def snd_conv
  by (rule client_life_concat) (auto simp: publish_life)

lemma disconnect_life: "client_life (snd (mqtt_disconnect m)) (mq_client m) = Some False"
  by (simp add: mqtt_disconnect_def publish_def)

lemma connect_life: "client_life (snd (connect_now a ok m)) False = Some (mq_client (fst (connect_now a ok m)))"
  by (simp add: connect_now_def Let_def)

lemma publish_discovery_client: "mq_client (fst (publish_discovery a w m)) = mq_client m"
  by (simp add: publish_discovery_def)

lemma apply_life:
  assumes "mqtt_inv m"
  shows "client_life (snd (mqtt_apply a ok config m)) (mq_client m) = Some (mq_client (fst (mqtt_apply a ok config m)))"
proof -
  define m1 where "m1 = m\<lparr>mq_config := config\<rparr>"
  have c: "mq_client m1 = mq_client m" by (simp add: m1_def)
  have off: "\<not> mq_client (fst (mqtt_disconnect m1))"
    using disconnect_off [of m1] assms by (simp add: m1_def mqtt_inv_def)
  show ?thesis
    using disconnect_life [of m1] off connect_life [of a ok "fst (mqtt_disconnect m1)"] discovery_life [of a True m1]
    by (auto simp: mqtt_apply_def Let_def case_prod_beta client_life_append c publish_discovery_client simp flip: m1_def)
qed

lemma connected_life:
  "mq_client m \<Longrightarrow> on_connected a m = (m', outs) \<Longrightarrow> client_life outs True = Some True \<and> mq_client m'"
  using discovery_life [of a "\<not> mq_discovery_sent m" "m\<lparr>mq_connected := True\<rparr>"]
  by (auto simp: on_connected_def Let_def publish_def publish_discovery_def split: if_splits)

lemma step_life: "mqtt_step m outs m' \<Longrightarrow> mqtt_inv m \<Longrightarrow> client_life outs (mq_client m) = Some (mq_client m')"
proof (induction rule: mqtt_step.induct)
  case (Apply a ok config m m' outs)
  then show ?case using apply_life [of m a ok config] by simp
next
  case (Connected m a m' outs)
  then show ?case using connected_life [of m a m' outs] by simp
next
  case (Lost m)
  then show ?case by (simp add: on_connection_lost_def)
next
  case (Tick fmt a now m m' outs)
  then show ?case by (auto simp: mqtt_tick_def Let_def publish_def split: if_splits bind_splits)
qed

lemma reachable_life: "mqtt_reachable m outs \<Longrightarrow> client_life outs False = Some (mq_client m)"
proof (induction rule: mqtt_reachable.induct)
  case Start
  show ?case by (simp add: mqtt_new_def)
next
  case (Step m outs outs' m')
  then show ?case using step_life [OF Step(2) mqtt_reachable_inv [OF Step(1)]] by (simp add: client_life_append)
qed

section \<open>Payloads\<close>

definition plain_text :: "string \<Rightarrow> bool" where
  "plain_text s \<longleftrightarrow> list_all (\<lambda>c. c \<noteq> CHR 0x22 \<and> c \<noteq> CHR 0x5C \<and> 32 \<le> ch_code c) s"

lemma parse_string_unescaped: "plain_text s \<Longrightarrow> parse_string (s @ CHR 0x22 # rest) = Some (s, rest)"
  by (induction s) (simp_all add: plain_text_def cons_char_def)

interpretation raw_json: json_escaping "\<lambda>s. s" plain_text
  by unfold_locales (rule parse_string_unescaped)

definition alert_tree :: "(double \<Rightarrow> string) \<Rightarrow> string \<Rightarrow> string \<Rightarrow> string \<Rightarrow> double \<Rightarrow> bool \<Rightarrow> jval" where
  "alert_tree fmt_g rule_id name metric v firing = JObj [(''rule'', JStr rule_id), (''name'', JStr name),
     (''metric'', JStr metric), (''value'', JNum (fmt_g v)), (''state'', JStr (if firing then ''firing'' else ''cleared''))]"

lemma alert_payload_tree: "alert_payload fmt_g rule_id name metric v firing
    = render (\<lambda>s. s) (alert_tree fmt_g rule_id name metric v firing)"
  by (simp add: alert_payload_def alert_tree_def render_simps raw_kv_def quoted_def)

definition opt_member :: "string \<Rightarrow> string option \<Rightarrow> (string \<times> jval) list" where
  "opt_member key v = (case v of None \<Rightarrow> [] | Some s \<Rightarrow> [(key, JStr s)])"

definition discovery_tree :: "mqtt \<Rightarrow> device_info \<Rightarrow> metric_def \<Rightarrow> jval" where
  "discovery_tree m dev d = JObj ([(''name'', JStr (md_label d)), (''unique_id'', JStr (''axis_'' @ object_id_of dev d)),
       (''state_topic'', JStr (topic m ''state'')), (''availability_topic'', JStr (topic m ''status'')),
       (''value_template'', JStr (''{{ value_json['' @ [CHR 0x27] @ md_id d @ [CHR 0x27] @ ''] }}''))]
     @ opt_member ''unit_of_measurement'' (if md_unit d \<noteq> [] then Some (ha_unit_for (md_unit d)) else None)
     @ opt_member ''device_class'' (device_class_for (md_unit d))
     @ opt_member ''suggested_unit_of_measurement'' (ha_suggested_unit d)
     @ (if ha_suggested_unit d \<noteq> None then [(''suggested_display_precision'', JNum ''1'')] else [])
     @ [(''state_class'', JStr ''measurement''),
       (''device'', JObj [(''identifiers'', JArr [JStr (''axis_'' @ dev_serial dev)]),
         (''name'', JStr (if dev_model dev \<noteq> [] then dev_model dev else ''Axis device'')),
         (''manufacturer'', JStr ''Axis''), (''model'', JStr (dev_model dev)), (''sw_version'', JStr (dev_firmware dev))])])"

lemma discovery_payload_tree: "discovery_payload m dev d = render (\<lambda>s. s) (discovery_tree m dev d)"
  by (cases "md_unit d = []"; cases "device_class_for (md_unit d)"; cases "ha_suggested_unit d")
    (simp_all add: discovery_payload_def discovery_tree_def opt_member_def render_simps raw_kv_def quoted_def)

section \<open>Properties\<close>

text \<open>C34: after any sequence of settings, connections, losses and ticks the calls made to paho are in
  order: nothing is sent without a client, a client is never made over another one, and releasing
  the publisher destroys the last one. A client exists only while the publisher is enabled with a
  broker host, and it was made for the address of the current settings; connected implies a client.
\<close>

theorem mqtt_client_lifecycle:
  assumes "mqtt_reachable m outs"
  shows "client_life (outs @ mqtt_free m) False = Some False
    \<and> (mq_client m \<longrightarrow> mc_enabled (mq_config m) \<and> mc_host (mq_config m) \<noteq> [] \<and> mq_address m = broker_address (mq_config m))
    \<and> (mqtt_state m = ''connected'' \<longleftrightarrow> mq_connected m)"
  using reachable_life [OF assms] mqtt_reachable_inv [OF assms] disconnect_life [of m]
  by (auto simp: client_life_append mqtt_free_def mqtt_inv_def mqtt_state_def)

definition sample_mqtt_config :: mqtt_config where
  "sample_mqtt_config = zero_config\<lparr>mc_enabled := True, mc_host := ''broker'', mc_port := 1883,
     mc_topic_prefix := ''axis/one''\<rparr>"

definition sample_mqtt_api :: "store \<Rightarrow> api" where
  "sample_mqtt_api s = \<lparr>api_registry = metrics_registry_init, api_store = s, api_selection = None,
     api_device = no_device\<lparr>dev_serial := ''ACCC''\<rparr>, api_app_version = ''1'', api_persist_path = None,
     api_mqtt_status = [], api_influx_status = [], api_started = 0\<rparr>"

definition sample_mqtt :: mqtt where
  "sample_mqtt = \<lparr>mq_config = sample_mqtt_config, mq_client = True, mq_address = ''tcp://broker:1883'',
     mq_client_id = ''axis-metrics-ACCC'', mq_connected = True, mq_discovery_sent = False, mq_last_publish = 0\<rparr>"

lemma show_1883: "show_nat 1883 = ''1883''"
  by code_simp

lemma sample_apply: "mqtt_apply (sample_mqtt_api s) True sample_mqtt_config mqtt_new =
    (sample_mqtt\<lparr>mq_connected := False\<rparr>, [Create ''tcp://broker:1883'' ''axis-metrics-ACCC'',
       Connect None None ''axis/one/status'' False])"
  by (simp add: mqtt_apply_def mqtt_new_def sample_mqtt_config_def zero_config_def connection_differs_def Let_def
      mqtt_disconnect_def connect_now_def broker_address_def sample_mqtt_def sample_mqtt_api_def no_device_def
      strlcpy_def topic_def show_1883)

lemma sample_connected: "on_connected (sample_mqtt_api s) (sample_mqtt\<lparr>mq_connected := False\<rparr>) =
    (sample_mqtt, [Publish ''axis/one/status'' ''online'' 1 True 0])"
  by (simp add: on_connected_def Let_def sample_mqtt_def sample_mqtt_config_def zero_config_def publish_def topic_def strlcpy_def)

lemma sample_reachable: "mqtt_reachable sample_mqtt [Create ''tcp://broker:1883'' ''axis-metrics-ACCC'',
    Connect None None ''axis/one/status'' False, Publish ''axis/one/status'' ''online'' 1 True 0]"
proof -
  fix s
  have "mqtt_step (sample_mqtt\<lparr>mq_connected := False\<rparr>) [Publish ''axis/one/status'' ''online'' 1 True 0] sample_mqtt"
    by (rule mqtt_step.Connected [OF _ sample_connected]) (simp add: sample_mqtt_def)
  from mqtt_reachable.Step [OF mqtt_reachable.Step [OF mqtt_reachable.Start mqtt_step.Apply [OF sample_apply [of s]]] this]
  show ?thesis by simp
qed

theorem mqtt_client_lifecycle_witness:
  "client_life ([Create ''tcp://broker:1883'' ''axis-metrics-ACCC'', Connect None None ''axis/one/status'' False,
     Publish ''axis/one/status'' ''online'' 1 True 0] @ mqtt_free sample_mqtt) False = Some False
   \<and> mqtt_state sample_mqtt = ''connected''"
proof -
  have "mq_connected sample_mqtt" by (simp add: sample_mqtt_def)
  then show ?thesis using mqtt_client_lifecycle [OF sample_reachable] by blast
qed

text \<open>A changed topic prefix while connected. The settings are replaced before the old connection is
  closed, so \<open>offline\<close> goes to the status topic under the new prefix, and nothing retracts the
  retained \<open>online\<close> under the old prefix: the connection is closed in order, so its will is not sent.
\<close>

theorem prefix_change_leaves_online:
  fixes m config
  defines "m1 \<equiv> m\<lparr>mq_config := config\<rparr>"
  assumes "mq_client m" "mq_connected m" "mc_enabled config" "mc_host config \<noteq> []"
    and differ: "mc_topic_prefix config \<noteq> mc_topic_prefix (mq_config m)"
    and short: "length (mc_topic_prefix config) < 249" "length (mc_topic_prefix (mq_config m)) < 249"
  shows "take 3 (snd (mqtt_apply a ok config m)) = [Publish (topic m1 ''status'') ''offline'' 1 True 1000, Disconnect, Destroy]
    \<and> (\<forall>payload qos retained wait_ms.
        Publish (topic m ''status'') payload qos retained wait_ms \<notin> set (snd (mqtt_apply a ok config m)))"
proof -
  have "connection_differs (mq_config m) config" using differ by (auto simp: connection_differs_def)
  then have outs: "snd (mqtt_apply a ok config m) =
      [Publish (topic m1 ''status'') ''offline'' 1 True 1000, Disconnect, Destroy] @ snd (connect_now a ok (fst (mqtt_disconnect m1)))"
    using assms(2-5) by (simp add: mqtt_apply_def Let_def case_prod_beta m1_def)
      (simp add: mqtt_disconnect_def publish_def)
  have "topic m1 ''status'' \<noteq> topic m ''status''"
    using differ short by (simp add: topic_def strlcpy_def m1_def)
  moreover have "Publish t p q r w \<notin> set (snd (connect_now a ok m2))" for t p q r w m2
    by (simp add: connect_now_def Let_def)
  ultimately show ?thesis by (simp add: outs)
qed

theorem prefix_change_leaves_online_witness:
  "\<forall>s. \<forall>payload qos retained wait_ms. Publish ''axis/one/status'' payload qos retained wait_ms
     \<notin> set (snd (mqtt_apply (sample_mqtt_api s) True (sample_mqtt_config\<lparr>mc_topic_prefix := ''axis/two''\<rparr>) sample_mqtt))"
proof -
  have "topic sample_mqtt ''status'' = ''axis/one/status''"
    by (simp add: topic_def strlcpy_def sample_mqtt_def sample_mqtt_config_def zero_config_def)
  then show ?thesis
    using prefix_change_leaves_online [of sample_mqtt "sample_mqtt_config\<lparr>mc_topic_prefix := ''axis/two''\<rparr>"]
    by (simp add: sample_mqtt_def sample_mqtt_config_def zero_config_def)
qed

lemma plain_text_append [simp]: "plain_text (s @ t) \<longleftrightarrow> plain_text s \<and> plain_text t"
  by (simp add: plain_text_def)

lemma plain_text_Cons [simp]:
  "plain_text (c # s) \<longleftrightarrow> (c \<noteq> CHR 0x22 \<and> c \<noteq> CHR 0x5C \<and> 32 \<le> ch_code c) \<and> plain_text s"
  by (simp add: plain_text_def)

lemma plain_text_Nil [simp]: "plain_text []"
  by (simp add: plain_text_def)

lemma plain_text_take: "plain_text s \<Longrightarrow> plain_text (strlcpy n s)"
  by (auto simp: plain_text_def list_all_iff strlcpy_def dest: in_set_takeD)

lemma alnum_plain: "is_alnum c \<Longrightarrow> c \<noteq> CHR 0x22 \<and> c \<noteq> CHR 0x5C \<and> 32 \<le> ch_code c"
  by (auto simp: is_alnum_def ch_code_def is_digit_def is_upper_def is_lower_def)

lemma object_id_plain: "plain_text (object_id_of dev d)"
proof -
  have "plain_text (map (\<lambda>c. if is_alnum c then c else CHR ''_'') s)" for s
    by (induction s) (use alnum_plain in \<open>auto simp: ch_code_def\<close>)
  then show ?thesis by (simp add: object_id_of_def)
qed

lemma discovery_tree_ok:
  assumes "plain_text (md_label d)" "plain_text (md_id d)" "plain_text (md_unit d)" "plain_text (mc_topic_prefix (mq_config m))"
    and "plain_text (dev_serial dev)" "plain_text (dev_model dev)" "plain_text (dev_firmware dev)"
  shows "tree_ok plain_text (discovery_tree m dev d)"
proof -
  have "plain_text (topic m s)" if "plain_text s" for s
    using assms(4) that by (simp add: topic_def plain_text_take ch_code_def)
  moreover have "plain_text (ha_unit_for (md_unit d))" using assms(3) by (simp add: ha_unit_for_def ch_code_def)
  moreover have "tree_ok plain_text (JStr c)" if "device_class_for (md_unit d) = Some c" for c
    using that by (auto simp: device_class_for_def ch_code_def split: if_splits)
  moreover have "tree_ok plain_text (JStr c)" if "ha_suggested_unit d = Some c" for c
    using that by (auto simp: ha_suggested_unit_def ch_code_def split: if_splits)
  moreover have "json_number ''1''" by code_simp
  ultimately show ?thesis using assms object_id_plain [of dev d]
    by (auto simp: discovery_tree_def opt_member_def ch_code_def split: option.splits)
qed

lemma alert_payload_unescaped:
  assumes "plain_text rule_id" "plain_text name"
  shows "parse_json (alert_payload fmt_g rule_id (name @ CHR 0x22 # CHR 0x22 # rest) metric v firing) = None"
proof -
  let ?s = "alert_payload fmt_g rule_id (name @ CHR 0x22 # CHR 0x22 # rest) metric v firing"
  obtain n where "length ?s + 1 = Suc (Suc (Suc (Suc n)))" by (simp add: alert_payload_def raw_kv_def quoted_def)
  then show ?thesis
    by (simp add: parse_json_def alert_payload_def raw_kv_def quoted_def parse_string_unescaped assms cons_char_def ch_code_def)
qed



end
