(* ===== verification/Influx.thy ===== *)
theory Influx
  imports Api
begin

text \<open>
  \<^verbatim>\<open>app/influx.h\<close>, \<^verbatim>\<open>app/influx.c\<close>: one line of InfluxDB line protocol per interval, handed through
  a queue to a worker thread that posts it with curl. Not under \<^verbatim>\<open>src/\<close> and therefore
  parameters: curl's escaping, its handles and the outcome of a transfer, the clock and the
  number format. The operations of the main thread and of the worker are the steps that
  \<^verbatim>\<open>InfluxProps\<close> interleaves; a payload that is released is recorded in \<open>ix_freed\<close>.
\<close>

section \<open>State\<close>

datatype influx_version = INFLUX_V1 | INFLUX_V2

record influx_config =
  ic_enabled :: bool
  ic_version :: influx_version
  ic_url :: string
  ic_database :: string
  ic_org :: string
  ic_token :: string
  ic_username :: string
  ic_password :: string
  ic_measurement :: string
  ic_interval_s :: guint

datatype influx_msg = Payload string | QUIT

text \<open>The worker waits, holds a payload it has taken, posts it with the settings it read, or has ended.\<close>

datatype influx_worker = Waiting | Taken string | Posting string influx_config | Ended

record influx =
  ix_config :: influx_config
  ix_worker :: influx_worker
  ix_queue :: "influx_msg list"
  ix_stopping :: bool
  ix_last_write :: gint64
  ix_state :: string
  ix_freed :: "string list"

definition set_state :: "string \<Rightarrow> influx \<Rightarrow> influx" where
  "set_state state x = x\<lparr>ix_state := strlcpy 32 state\<rparr>"

definition influx_state :: "influx option \<Rightarrow> string" where
  "influx_state influx = (case influx of None \<Rightarrow> ''disabled''
     | Some x \<Rightarrow> if ic_enabled (ix_config x) then ix_state x else ''disabled'')"

section \<open>Line protocol\<close>

definition escape_with :: "char set \<Rightarrow> string \<Rightarrow> string" where
  "escape_with special s = concat (map (\<lambda>c. if c \<in> special then [CHR 0x5C, c] else [c]) s)"

definition tag_special :: "char set" where
  "tag_special = {CHR '','', CHR ''='', CHR '' '', CHR 0x5C}"

definition measurement_special :: "char set" where
  "measurement_special = {CHR '','', CHR '' '', CHR 0x5C}"

definition append_escaped_tag :: "string \<Rightarrow> string" where
  "append_escaped_tag s = escape_with tag_special s"

definition append_escaped_measurement :: "string \<Rightarrow> string" where
  "append_escaped_measurement s = escape_with measurement_special s"

definition or_unknown :: "string \<Rightarrow> string" where
  "or_unknown s = (if s \<noteq> [] then s else ''unknown'')"

text \<open>The metrics that become fields.\<close>

definition line_fields :: "api \<Rightarrow> gfloat list \<Rightarrow> (metric_def \<times> gfloat) list" where
  "line_fields a vs = filter (\<lambda>(d, v). \<not> (f32_isnan v \<or> \<not> selection_enabled (api_selection a) SELECT_TRANSMIT (md_id d)))
     (zip (api_defs a) vs)"

definition field_text :: "formatter \<Rightarrow> metric_def \<times> gfloat \<Rightarrow> string" where
  "field_text fmt f = append_escaped_tag (md_id (fst f)) @ CHR ''='' # fmt (snd f)"

text \<open>Outer \<open>None\<close> is a memory error, inner \<open>None\<close> is no payload.\<close>

definition build_payload :: "formatter \<Rightarrow> api \<Rightarrow> influx \<Rightarrow> string option option" where
  "build_payload fmt a x = do {
     latest \<leftarrow> latest_values a;
     (case latest of None \<Rightarrow> Some None
      | Some (vs, timestamp) \<Rightarrow> (let fs = line_fields a vs in
          if fs = [] then Some None
          else Some (Some (append_escaped_measurement (ic_measurement (ix_config x))
            @ '',device='' @ append_escaped_tag (or_unknown (dev_serial (api_device a)))
            @ '',model='' @ append_escaped_tag (or_unknown (dev_model (api_device a)))
            @ CHR '' '' # join CHR '','' (map (field_text fmt) fs)
            @ CHR '' '' # show_int timestamp @ [CHR 0x0A]))))
   }"

section \<open>The worker\<close>

text \<open>\<open>escape\<close> is \<open>curl_easy_escape\<close>, which may return NULL.\<close>

definition strip_slashes :: "string \<Rightarrow> string" where
  "strip_slashes s = rev (dropWhile (\<lambda>c. c = CHR ''/'') (rev s))"

definition opt_text :: "string option \<Rightarrow> string" where
  "opt_text s = (case s of Some t \<Rightarrow> t | None \<Rightarrow> [])"

definition build_url :: "(string \<Rightarrow> string option) \<Rightarrow> influx_config \<Rightarrow> string" where
  "build_url escape c = (let base = strip_slashes (ic_url c);
     database = opt_text (escape (ic_database c)); org = opt_text (escape (ic_org c)) in
     if ic_version c = INFLUX_V2 then base @ ''/api/v2/write?org='' @ org @ ''&bucket='' @ database @ ''&precision=s''
     else base @ ''/write?db='' @ database @ ''&precision=s'')"

record http_post =
  hp_url :: string
  hp_headers :: "string list"
  hp_login :: "(string \<times> string) option"
  hp_body :: string

definition influx_request :: "(string \<Rightarrow> string option) \<Rightarrow> influx_config \<Rightarrow> string \<Rightarrow> http_post" where
  "influx_request escape c payload = \<lparr>hp_url = build_url escape c,
     hp_headers = ''Content-Type: text/plain; charset=utf-8''
       # (if ic_version c = INFLUX_V2 \<and> ic_token c \<noteq> [] then [''Authorization: Token '' @ ic_token c] else []),
     hp_login = (if \<not> (ic_version c = INFLUX_V2 \<and> ic_token c \<noteq> []) \<and> ic_version c = INFLUX_V1 \<and> ic_username c \<noteq> []
       then Some (ic_username c, ic_password c) else None),
     hp_body = payload\<rparr>"

text \<open>
  The outcome of a write: no handle, a failed transfer, or a response with a status code.
\<close>

datatype transfer = No_handle | Transfer_failed | Status int

definition transfer_state :: "transfer \<Rightarrow> string" where
  "transfer_state outcome = (case outcome of No_handle \<Rightarrow> ''error'' | Transfer_failed \<Rightarrow> ''error''
     | Status status \<Rightarrow> if status = 401 \<or> status = 403 then ''unauthorized''
         else if status < 200 \<or> status \<ge> 300 then ''error'' else ''connected'')"

definition write_payload :: "transfer \<Rightarrow> influx \<Rightarrow> influx" where
  "write_payload outcome x = set_state (transfer_state outcome) x"

text \<open>
  One turn of the loop of \<open>worker_main\<close> in its three parts: taking a message (which blocks on an
  empty queue), reading the settings under the lock, and posting and releasing the payload.
\<close>

definition worker_pop :: "influx \<Rightarrow> influx option" where
  "worker_pop x = (case ix_worker x of
       Waiting \<Rightarrow> (case ix_queue x of [] \<Rightarrow> None
         | QUIT # q \<Rightarrow> Some (x\<lparr>ix_queue := q, ix_worker := Ended\<rparr>)
         | Payload p # q \<Rightarrow> Some (x\<lparr>ix_queue := q, ix_worker := Taken p\<rparr>))
     | _ \<Rightarrow> None)"

definition worker_config :: "influx \<Rightarrow> influx option" where
  "worker_config x = (case ix_worker x of
       Taken p \<Rightarrow> (let c = ix_config x in
         if ic_enabled c \<and> ic_url c \<noteq> [] then Some (x\<lparr>ix_worker := Posting p c\<rparr>)
         else Some (x\<lparr>ix_worker := Waiting, ix_freed := p # ix_freed x\<rparr>))
     | _ \<Rightarrow> None)"

definition worker_post :: "transfer \<Rightarrow> influx \<Rightarrow> influx option" where
  "worker_post outcome x = (case ix_worker x of
       Posting p c \<Rightarrow> Some ((write_payload outcome x)\<lparr>ix_worker := Waiting, ix_freed := p # ix_freed x\<rparr>)
     | _ \<Rightarrow> None)"

section \<open>Lifecycle\<close>

definition zero_influx_config :: influx_config where
  "zero_influx_config = \<lparr>ic_enabled = False, ic_version = INFLUX_V1, ic_url = [], ic_database = [], ic_org = [],
     ic_token = [], ic_username = [], ic_password = [], ic_measurement = [], ic_interval_s = 0\<rparr>"

definition influx_new :: influx where
  "influx_new = \<lparr>ix_config = zero_influx_config, ix_worker = Waiting, ix_queue = [], ix_stopping = False,
     ix_last_write = 0, ix_state = ''disabled'', ix_freed = []\<rparr>"

text \<open>The payloads of a queue.\<close>

definition payloads :: "influx_msg list \<Rightarrow> string list" where
  "payloads q = concat (map (\<lambda>m. case m of Payload p \<Rightarrow> [p] | QUIT \<Rightarrow> []) q)"

text \<open>
  \<open>influx_free\<close> asks the worker to end, waits for it to end, and releases what is still queued.
\<close>

definition influx_stop :: "influx \<Rightarrow> influx" where
  "influx_stop x = x\<lparr>ix_stopping := True, ix_queue := ix_queue x @ [QUIT]\<rparr>"

definition influx_join :: "influx \<Rightarrow> influx option" where
  "influx_join x = (if ix_worker x \<noteq> Ended then None
     else Some (x\<lparr>ix_queue := [], ix_freed := rev (payloads (ix_queue x)) @ ix_freed x\<rparr>))"

definition influx_apply :: "influx_config \<Rightarrow> influx \<Rightarrow> influx" where
  "influx_apply config x = (let was_enabled = ic_enabled (ix_config x);
     x1 = x\<lparr>ix_config := config\<rparr>;
     x2 = (if \<not> ic_enabled config then x1\<lparr>ix_state := ''disabled''\<rparr>
           else if \<not> was_enabled then x1\<lparr>ix_state := ''pending''\<rparr> else x1)
   in if ic_enabled config \<and> \<not> was_enabled then x2\<lparr>ix_last_write := 0\<rparr> else x2)"

text \<open>
  \<open>now\<close> is the monotonic clock in seconds. The worker may take the queued payload while the tick
  empties the queue; that is the worker taking it before the tick, as the queue holds at most one.
  \<open>None\<close> is a memory error: of the payload, or releasing the constant \<open>QUIT\<close>.
\<close>

definition influx_due :: "gint64 \<Rightarrow> influx \<Rightarrow> bool" where
  "influx_due now x \<longleftrightarrow> \<not> (\<not> ic_enabled (ix_config x) \<or> ix_stopping x \<or> ic_url (ix_config x) = [])
     \<and> \<not> (ix_last_write x \<noteq> 0 \<and> now - ix_last_write x < int (unat (ic_interval_s (ix_config x))))"

definition influx_tick :: "formatter \<Rightarrow> api \<Rightarrow> gint64 \<Rightarrow> influx \<Rightarrow> influx option" where
  "influx_tick fmt a now x = (if \<not> influx_due now x then Some x
     else if QUIT \<in> set (ix_queue x) then None
     else do {
       let x1 = x\<lparr>ix_last_write := now, ix_queue := [], ix_freed := rev (payloads (ix_queue x)) @ ix_freed x\<rparr>;
       payload \<leftarrow> build_payload fmt a x1;
       (case payload of None \<Rightarrow> Some x1 | Some p \<Rightarrow> Some (x1\<lparr>ix_queue := [Payload p]\<rparr>))
     })"

end
