(* ===== verification/InfluxProps.thy ===== *)
theory InfluxProps
  imports Influx ApiProps "HOL-Library.Multiset"
begin

text \<open>
  \<^verbatim>\<open>app/influx.c\<close>: the main thread and the worker as an interleaving of steps (each payload is
  released exactly once, the queue is bounded, shutting down ends), and the line protocol, which a
  reader of the protocol takes apart into the readings of the store.
\<close>

section \<open>Interleaving\<close>

text \<open>The label is the list of payloads a step allocates.\<close>

inductive influx_step :: "influx \<Rightarrow> string list \<Rightarrow> influx \<Rightarrow> bool" where
  Apply: "\<not> ix_stopping x \<Longrightarrow> influx_step x [] (influx_apply config x)"
| Tick: "\<not> ix_stopping x \<Longrightarrow> influx_tick fmt a now x = Some x' \<Longrightarrow>
    influx_step x (if influx_due now x then payloads (ix_queue x') else []) x'"
| Stop: "\<not> ix_stopping x \<Longrightarrow> influx_step x [] (influx_stop x)"
| Pop: "worker_pop x = Some x' \<Longrightarrow> influx_step x [] x'"
| Config: "worker_config x = Some x' \<Longrightarrow> influx_step x [] x'"
| Post: "worker_post outcome x = Some x' \<Longrightarrow> influx_step x [] x'"

inductive influx_reachable :: "influx \<Rightarrow> string list \<Rightarrow> bool" where
  Start: "influx_reachable influx_new []"
| Step: "influx_reachable x ps \<Longrightarrow> influx_step x new x' \<Longrightarrow> influx_reachable x' (ps @ new)"

fun held :: "influx_worker \<Rightarrow> string list" where
  "held (Taken p) = [p]"
| "held (Posting p c) = [p]"
| "held w = []"

text \<open>What every reachable state keeps, with the payloads allocated so far.\<close>

definition influx_inv :: "influx \<Rightarrow> string list \<Rightarrow> bool" where
  "influx_inv x ps \<longleftrightarrow>
     mset (ix_freed x) + mset (payloads (ix_queue x)) + mset (held (ix_worker x)) = mset ps
   \<and> length (payloads (ix_queue x)) \<le> 1
   \<and> (if ix_stopping x then (if ix_worker x = Ended then ix_queue x = []
        else ix_queue x = map Payload (payloads (ix_queue x)) @ [QUIT])
      else ix_worker x \<noteq> Ended \<and> ix_queue x = map Payload (payloads (ix_queue x)))"

lemma payloads_simps [simp]: "payloads [] = []" "payloads (Payload p # q) = p # payloads q"
    "payloads (QUIT # q) = payloads q" "payloads (q @ q') = payloads q @ payloads q'"
  by (simp_all add: payloads_def)

lemma payloads_map [simp]: "payloads (map Payload ps) = ps"
  by (induction ps) simp_all

lemma no_quit: "q = map Payload (payloads q) \<Longrightarrow> QUIT \<notin> set q"
  by (metis imageE influx_msg.distinct(1) list.set_map)

lemma apply_fields: "ix_queue (influx_apply config x) = ix_queue x" "ix_worker (influx_apply config x) = ix_worker x"
    "ix_stopping (influx_apply config x) = ix_stopping x" "ix_freed (influx_apply config x) = ix_freed x"
  by (simp_all add: influx_apply_def Let_def)

lemma tick_inv:
  assumes inv: "influx_inv x ps" and run: "\<not> ix_stopping x" and tick: "influx_tick fmt a now x = Some x'"
  shows "influx_inv x' (ps @ (if influx_due now x then payloads (ix_queue x') else []))"
proof (cases "influx_due now x")
  case True
  have "QUIT \<notin> set (ix_queue x)" using inv run by (simp add: influx_inv_def no_quit)
  define x1 where "x1 = x\<lparr>ix_last_write := now, ix_queue := [], ix_freed := rev (payloads (ix_queue x)) @ ix_freed x\<rparr>"
  have x1: "ix_queue x1 = []" "ix_freed x1 = rev (payloads (ix_queue x)) @ ix_freed x" "ix_worker x1 = ix_worker x"
    "ix_stopping x1 = ix_stopping x" by (simp_all add: x1_def)
  from True tick \<open>QUIT \<notin> _\<close> have "x' = x1 \<or> (\<exists>p. x' = x1\<lparr>ix_queue := [Payload p]\<rparr>)"
    by (auto simp: influx_tick_def Let_def x1_def split: bind_splits option.splits)
  then show ?thesis using inv run True x1 by (auto simp: influx_inv_def ac_simps)
qed (use inv tick in \<open>simp add: influx_tick_def\<close>)

lemma pop_inv:
  assumes inv: "influx_inv x ps" and pop: "worker_pop x = Some x'"
  shows "influx_inv x' ps"
proof -
  obtain m q where mq: "ix_worker x = Waiting" "ix_queue x = m # q"
    using pop by (auto simp: worker_pop_def split: influx_worker.splits list.splits)
  show ?thesis
  proof (cases m)
    case (Payload p)
    then have x': "x' = x\<lparr>ix_queue := q, ix_worker := Taken p\<rparr>" using pop mq by (simp add: worker_pop_def)
    then show ?thesis using inv mq Payload by (cases "payloads q") (auto simp: influx_inv_def split: if_splits)
  next
    case QUIT
    then have x': "x' = x\<lparr>ix_queue := q, ix_worker := Ended\<rparr>" using pop mq by (simp add: worker_pop_def)
    have "ix_stopping x" using inv mq QUIT by (cases "payloads q") (auto simp: influx_inv_def split: if_splits)
    then show ?thesis using inv mq QUIT by (cases "payloads q") (auto simp: influx_inv_def x')
  qed
qed

lemma influx_step_inv: "influx_step x new x' \<Longrightarrow> influx_inv x ps \<Longrightarrow> influx_inv x' (ps @ new)"
proof (induction rule: influx_step.induct)
  case (Apply x config)
  then show ?case by (simp add: influx_inv_def apply_fields)
next
  case (Tick x fmt a now x')
  then show ?case by (intro tick_inv)
next
  case (Stop x)
  then show ?case by (auto simp: influx_inv_def influx_stop_def)
next
  case (Pop x x')
  then show ?case using pop_inv by simp
next
  case (Config x x')
  then show ?case
    by (auto simp: worker_config_def influx_inv_def Let_def split: influx_worker.splits if_splits)
next
  case (Post outcome x x')
  then show ?case
    by (auto simp: worker_post_def influx_inv_def write_payload_def set_state_def split: influx_worker.splits if_splits)
qed

lemma influx_reachable_inv: "influx_reachable x ps \<Longrightarrow> influx_inv x ps"
proof (induction rule: influx_reachable.induct)
  case Start
  show ?case by (simp add: influx_inv_def influx_new_def)
qed (rule influx_step_inv)

lemma tick_total:
  assumes inv: "influx_inv x ps" and a: "api_inv a"
  shows "influx_tick fmt a now x \<noteq> None"
proof -
  have "QUIT \<notin> set (ix_queue x)" if "influx_due now x"
    using inv that by (auto simp: influx_inv_def influx_due_def dest: no_quit)
  moreover have "build_payload fmt a y \<noteq> None" for y
    using latest_values_known [OF a] by (auto simp: build_payload_def Let_def split: option.splits)
  then have "\<exists>p. build_payload fmt a y = Some p" for y by (metis not_None_eq)
  ultimately show ?thesis by (auto simp: influx_tick_def Let_def split: bind_splits option.splits) (metis option.distinct(1))
qed

section \<open>Shutting down\<close>

inductive worker_step :: "influx \<Rightarrow> influx \<Rightarrow> bool" where
  Pop: "worker_pop x = Some x' \<Longrightarrow> worker_step x x'"
| Config: "worker_config x = Some x' \<Longrightarrow> worker_step x x'"
| Post: "worker_post outcome x = Some x' \<Longrightarrow> worker_step x x'"

fun worker_work :: "influx_worker \<Rightarrow> nat" where
  "worker_work Waiting = 0" | "worker_work (Posting p c) = 1" | "worker_work (Taken p) = 2" | "worker_work Ended = 0"

definition work_left :: "influx \<Rightarrow> nat" where
  "work_left x = 3 * length (ix_queue x) + worker_work (ix_worker x)"

lemma worker_step_decreases: "worker_step x x' \<Longrightarrow> work_left x' < work_left x"
proof (induction rule: worker_step.induct)
  case (Pop x x')
  then show ?case by (auto simp: worker_pop_def work_left_def split: influx_worker.splits list.splits influx_msg.splits)
next
  case (Config x x')
  then show ?case by (auto simp: worker_config_def work_left_def Let_def split: influx_worker.splits if_splits)
next
  case (Post outcome x x')
  then show ?case
    by (auto simp: worker_post_def work_left_def write_payload_def set_state_def split: influx_worker.splits)
qed

lemma worker_step_reachable: "worker_step x x' \<Longrightarrow> influx_step x [] x'"
  by (induction rule: worker_step.induct) (auto intro: influx_step.intros)

lemma worker_step_stopping: "worker_step x x' \<Longrightarrow> ix_stopping x' = ix_stopping x"
  by (induction rule: worker_step.induct)
    (auto simp: worker_pop_def worker_config_def worker_post_def write_payload_def set_state_def Let_def
      split: influx_worker.splits list.splits influx_msg.splits if_splits)

lemma worker_progress:
  assumes "influx_inv x ps" "ix_stopping x" "ix_worker x \<noteq> Ended"
  shows "\<exists>x'. worker_step x x'"
proof (cases "ix_worker x")
  case Waiting
  have "ix_queue x \<noteq> []" using assms by (auto simp: influx_inv_def)
  then obtain m q where "ix_queue x = m # q" by (cases "ix_queue x") auto
  then show ?thesis using Waiting by (cases m) (auto intro!: worker_step.Pop simp: worker_pop_def)
next
  case (Taken p)
  then have "worker_config x \<noteq> None" by (simp add: worker_config_def Let_def)
  then show ?thesis by (auto intro: worker_step.Config)
next
  case (Posting p c)
  then have "worker_post (Status 204) x \<noteq> None" by (simp add: worker_post_def)
  then show ?thesis by (auto intro: worker_step.Post)
qed (use assms in simp)

inductive worker_run :: "nat \<Rightarrow> influx \<Rightarrow> influx \<Rightarrow> bool" where
  Done: "worker_run 0 x x"
| More: "worker_step x y \<Longrightarrow> worker_run n y z \<Longrightarrow> worker_run (Suc n) x z"

lemma worker_run_bound: "worker_run n x y \<Longrightarrow> n + work_left y \<le> work_left x"
  by (induction rule: worker_run.induct) (use worker_step_decreases in \<open>force+\<close>)

lemma worker_run_inv: "worker_run n x y \<Longrightarrow> influx_inv x ps \<Longrightarrow> influx_inv y ps \<and> ix_stopping y = ix_stopping x"
proof (induction rule: worker_run.induct)
  case (More x y n z)
  have "influx_inv y ps" using influx_step_inv [OF worker_step_reachable [OF More(1)] More(4)] by simp
  then show ?case using More worker_step_stopping by simp
qed simp

section \<open>Properties of the threads\<close>

text \<open>C36: whatever the interleaving of settings, ticks, shutdown and the worker, each payload that was
  allocated is released once, still queued once, or held by the worker; at most one is queued; and
  a tick never releases the constant that wakes the worker for shutdown.
\<close>

theorem influx_payloads_released_once:
  assumes "influx_reachable x allocated"
  shows "mset (ix_freed x) + mset (payloads (ix_queue x)) + mset (held (ix_worker x)) = mset allocated
    \<and> length (payloads (ix_queue x)) \<le> 1
    \<and> (\<forall>a fmt now. api_inv a \<longrightarrow> influx_tick fmt a now x \<noteq> None)"
  using influx_reachable_inv [OF assms] tick_total by (auto simp: influx_inv_def)

text \<open>C37: \<open>influx_free\<close> returns. Once the worker was asked to end it can always go on until it has
  ended, after at most eight of its steps, and the join then leaves every payload released.
\<close>

theorem influx_shutdown_ends:
  assumes "influx_reachable x allocated" "\<not> ix_stopping x" "worker_run n (influx_stop x) y"
  shows "n \<le> 8 \<and> (if ix_worker y \<noteq> Ended then \<exists>z. worker_step y z
    else \<exists>z. influx_join y = Some z \<and> ix_queue z = [] \<and> mset (ix_freed z) = mset allocated)"
proof -
  have inv0: "influx_inv (influx_stop x) allocated"
    using influx_step_inv [OF influx_step.Stop [OF assms(2)] influx_reachable_inv [OF assms(1)]] by simp
  have stop: "ix_stopping (influx_stop x)" "ix_worker (influx_stop x) = ix_worker x" by (simp_all add: influx_stop_def)
  have y: "influx_inv y allocated" "ix_stopping y" using worker_run_inv [OF assms(3) inv0] stop by simp_all
  have "worker_work (ix_worker x) \<le> 2" by (cases "ix_worker x") simp_all
  then have "work_left (influx_stop x) \<le> 8"
    using influx_reachable_inv [OF assms(1)] assms(2)
    by (auto simp: work_left_def influx_stop_def influx_inv_def add_mono dest!: arg_cong [of _ _ length])
  then have "n \<le> 8" using worker_run_bound [OF assms(3)] by simp
  moreover have "\<exists>z. worker_step y z" if "ix_worker y \<noteq> Ended" using worker_progress [OF y] that by simp
  moreover have "\<exists>z. influx_join y = Some z \<and> ix_queue z = [] \<and> mset (ix_freed z) = mset allocated" if "ix_worker y = Ended"
    using y that by (auto simp: influx_join_def influx_inv_def)
  ultimately show ?thesis by simp
qed

section \<open>A device with one reading\<close>

definition demo_influx_config :: influx_config where
  "demo_influx_config = zero_influx_config\<lparr>ic_enabled := True, ic_url := ''http://db:8086/'', ic_measurement := ''axis cam'',
     ic_interval_s := 60\<rparr>"

definition demo_line :: string where
  "demo_line = ''axis'' @ CHR 0x5C # '' cam,device=unknown,model=unknown cpu.usage=1 1000'' @ [CHR 0x0A]"

lemma demo_build:
  assumes "api_inv (demo_api s)" "st_has_latest s" "st_latest s = [1065353216]" "st_latest_ts s = 1000"
  shows "build_payload (\<lambda>_. ''1'') (demo_api s) (x\<lparr>ix_config := demo_influx_config\<rparr>) = Some (Some demo_line)"
proof -
  have l: "latest_values (demo_api s) = Some (Some ([1065353216], 1000))"
    using latest_values_known [OF assms(1)] assms(2-4) by (simp add: demo_api_def)
  have f: "line_fields (demo_api s) [1065353216] = [(hd (reg_defs demo_registry), 1065353216)]"
    by (simp add: line_fields_def demo_api_def demo_registry_def f32_isnan_def f32_exp_def selection_enabled_def)
  have n: "show_int 1000 = ''1000''" by code_simp
  show ?thesis
    by (simp add: build_payload_def l f n Let_def)
      (simp add: demo_api_def demo_registry_def demo_influx_config_def zero_influx_config_def append_escaped_measurement_def
        append_escaped_tag_def escape_with_def measurement_special_def tag_special_def or_unknown_def field_text_def demo_line_def)
qed

text \<open>Enabled, and ticked at second 100: one payload is queued.\<close>

definition demo_queued :: influx where
  "demo_queued = influx_new\<lparr>ix_config := demo_influx_config, ix_state := ''pending'', ix_last_write := 100,
     ix_queue := [Payload demo_line]\<rparr>"

lemma demo_queued_reachable: "influx_reachable demo_queued [demo_line]"
proof -
  obtain s where s: "api_inv (demo_api s)" "st_has_latest s" "st_latest s = [1065353216]" "st_latest_ts s = 1000"
    by (rule demo_api_inv)
  define x1 where "x1 = influx_apply demo_influx_config influx_new"
  have x1: "x1 = influx_new\<lparr>ix_config := demo_influx_config, ix_state := ''pending''\<rparr>"
    by (simp add: x1_def influx_apply_def influx_new_def demo_influx_config_def zero_influx_config_def)
  have r1: "influx_reachable x1 []"
    using influx_reachable.Step [OF influx_reachable.Start influx_step.Apply [of influx_new demo_influx_config]]
    by (simp add: influx_new_def x1_def)
  have due: "influx_due 100 x1"
    by (simp add: x1 influx_due_def influx_new_def demo_influx_config_def zero_influx_config_def)
  have tick: "influx_tick (\<lambda>_. ''1'') (demo_api s) 100 x1 = Some demo_queued"
    using due demo_build [OF s, of "x1\<lparr>ix_last_write := 100\<rparr>"]
    by (simp add: influx_tick_def x1 influx_new_def demo_queued_def)
  have "influx_step x1 (payloads (ix_queue demo_queued)) demo_queued"
    using influx_step.Tick [OF _ tick] due by (simp add: x1 influx_new_def)
  from influx_reachable.Step [OF r1 this] show ?thesis by (simp add: demo_queued_def)
qed

theorem influx_payloads_released_once_witness:
  "mset (ix_freed demo_queued) + mset (payloads (ix_queue demo_queued)) + mset (held (ix_worker demo_queued)) = {#demo_line#}
   \<and> length (payloads (ix_queue demo_queued)) \<le> 1"
  using influx_payloads_released_once [OF demo_queued_reachable] by simp

lemma demo_shutdown:
  "worker_run 4 (influx_stop demo_queued) (demo_queued\<lparr>ix_queue := [], ix_stopping := True, ix_state := ''connected'',
     ix_worker := Ended, ix_freed := [demo_line]\<rparr>)"
proof -
  let ?x0 = "influx_stop demo_queued"
  let ?x1 = "demo_queued\<lparr>ix_stopping := True, ix_queue := [QUIT], ix_worker := Taken demo_line\<rparr>"
  let ?x2 = "?x1\<lparr>ix_worker := Posting demo_line demo_influx_config\<rparr>"
  let ?x3 = "?x1\<lparr>ix_state := ''connected'', ix_worker := Waiting, ix_freed := [demo_line]\<rparr>"
  let ?x4 = "?x3\<lparr>ix_queue := [], ix_worker := Ended\<rparr>"
  have "worker_step ?x0 ?x1" by (rule worker_step.Pop) (simp add: worker_pop_def influx_stop_def demo_queued_def influx_new_def)
  moreover have "worker_step ?x1 ?x2"
    by (rule worker_step.Config) (simp add: worker_config_def Let_def demo_queued_def influx_new_def demo_influx_config_def zero_influx_config_def)
  moreover have "worker_step ?x2 ?x3"
    by (rule worker_step.Post [of "Status 204"])
      (simp add: worker_post_def write_payload_def transfer_state_def set_state_def demo_queued_def influx_new_def strlcpy_def)
  moreover have "worker_step ?x3 ?x4" by (rule worker_step.Pop) (simp add: worker_pop_def demo_queued_def influx_new_def)
  ultimately have "worker_run (Suc (Suc (Suc (Suc 0)))) ?x0 ?x4" by (blast intro: worker_run.intros)
  then show ?thesis by (simp add: numeral_eq_Suc demo_queued_def influx_new_def)
qed

theorem influx_shutdown_ends_witness:
  "\<exists>y z. worker_run 4 (influx_stop demo_queued) y \<and> influx_join y = Some z \<and> mset (ix_freed z) = {#demo_line#}"
proof -
  have "\<not> ix_stopping demo_queued" by (simp add: demo_queued_def influx_new_def)
  from influx_shutdown_ends [OF demo_queued_reachable this demo_shutdown] show ?thesis
    using demo_shutdown by auto
qed

section \<open>Reading the line protocol\<close>

text \<open>A reader of one line: names and values end at an unescaped delimiter, and a newline ends the line.\<close>

definition cons_fst :: "char \<Rightarrow> string \<times> string \<Rightarrow> string \<times> string" where
  "cons_fst c r = (c # fst r, snd r)"

fun read_name :: "char set \<Rightarrow> string \<Rightarrow> string \<times> string" where
  "read_name stop [] = ([], [])"
| "read_name stop [c] = (if c \<in> stop \<or> c = CHR 0x0A then ([], [c]) else ([c], []))"
| "read_name stop (c # d # cs) = (if c = CHR 0x5C then cons_fst d (read_name stop cs)
     else if c \<in> stop \<or> c = CHR 0x0A then ([], c # d # cs) else cons_fst c (read_name stop (d # cs)))"

primrec read_pairs :: "nat \<Rightarrow> string \<Rightarrow> ((string \<times> string) list \<times> string) option" where
  "read_pairs 0 s = None"
| "read_pairs (Suc n) s = (case read_name {CHR ''=''} s of (key, r) \<Rightarrow>
     if r = [] \<or> hd r \<noteq> CHR ''='' then None
     else case read_name {CHR '','', CHR '' ''} (tl r) of (val, r2) \<Rightarrow>
       if r2 \<noteq> [] \<and> hd r2 = CHR '','' then map_option (\<lambda>(ps, r3). ((key, val) # ps, r3)) (read_pairs n (tl r2))
       else Some ([(key, val)], r2))"

definition read_line :: "string \<Rightarrow> (string \<times> (string \<times> string) list \<times> (string \<times> string) list \<times> string) option" where
  "read_line s = (case read_name {CHR '','', CHR '' ''} s of (measurement, r) \<Rightarrow>
     if r = [] \<or> hd r \<noteq> CHR '','' then None else case read_pairs (length s) (tl r) of None \<Rightarrow> None
     | Some (tags, r2) \<Rightarrow> if r2 = [] \<or> hd r2 \<noteq> CHR '' '' then None else case read_pairs (length s) (tl r2) of None \<Rightarrow> None
       | Some (fs, r3) \<Rightarrow> if r3 = [] \<or> hd r3 \<noteq> CHR '' '' then None
           else Some (measurement, tags, fs, takeWhile (\<lambda>c. c \<noteq> CHR 0x0A) (tl r3)))"

lemma escape_with_Cons [simp]: "escape_with special (c # s) = (if c \<in> special then [CHR 0x5C, c] else [c]) @ escape_with special s"
    "escape_with special [] = []"
  by (simp_all add: escape_with_def)

lemma read_name_escaped:
  assumes "stop \<subseteq> special" "CHR 0x5C \<in> special" "CHR 0x0A \<notin> set s" "CHR 0x5C \<notin> stop"
    and "rest \<noteq> []" "hd rest \<in> stop"
  shows "read_name stop (escape_with special s @ rest) = (s, rest)"
  using assms(3)
proof (induction s)
  case Nil
  obtain c cs where "rest = c # cs" using assms(5) by (cases rest) auto
  then have "read_name stop rest = ([], rest)" using assms(4,6) by (cases cs) auto
  then show ?case by simp
next
  case (Cons c s)
  show ?case
  proof (cases "c \<in> special")
    case False
    have "escape_with special s @ rest \<noteq> []" using assms(5) by simp
    then obtain d cs where d: "escape_with special s @ rest = d # cs" by (cases "escape_with special s @ rest") auto
    from False assms(1,2) have "c \<notin> stop" "c \<noteq> CHR 0x5C" by auto
    moreover have "c \<noteq> CHR 0x0A" using Cons.prems by auto
    ultimately show ?thesis using Cons False by (simp add: d cons_fst_def)
  qed (use Cons in \<open>simp add: cons_fst_def\<close>)
qed

lemma length_join: "\<forall>s \<in> set ss. s \<noteq> [] \<Longrightarrow> length ss \<le> length (join d ss)"
  by (induction d ss rule: join.induct) (auto simp: Suc_le_eq)

lemma show_int_line: "c \<in> set (show_int k) \<Longrightarrow> c \<noteq> CHR 0x0A"
  by (auto simp: show_int_def is_digit_def ch_code_def dest: show_nat_digits split: if_splits)

definition pair_text :: "string \<times> string \<Rightarrow> string" where
  "pair_text p = append_escaped_tag (fst p) @ CHR ''='' # append_escaped_tag (snd p)"

lemma read_pairs_text:
  assumes "ps \<noteq> []" "\<forall>(k, v) \<in> set ps. CHR 0x0A \<notin> set k \<and> CHR 0x0A \<notin> set v" "length ps \<le> n"
    and "rest \<noteq> []" "hd rest = CHR '' ''"
  shows "read_pairs n (join CHR '','' (map pair_text ps) @ rest) = Some (ps, rest)"
  using assms(1-3)
proof (induction ps arbitrary: n)
  case (Cons p ps)
  obtain k v where p: "p = (k, v)" by (cases p)
  obtain m where n: "n = Suc m" using Cons(4) by (cases n) auto
  have key: "read_name {CHR ''=''} (append_escaped_tag k @ CHR ''='' # r) = (k, CHR ''='' # r)" for r
    using Cons(3) p unfolding append_escaped_tag_def by (intro read_name_escaped) (auto simp: tag_special_def)
  have val: "read_name {CHR '','', CHR '' ''} (append_escaped_tag v @ r) = (v, r)" if "r \<noteq> []" "hd r \<in> {CHR '','', CHR '' ''}" for r
    using Cons(3) p that unfolding append_escaped_tag_def by (intro read_name_escaped) (auto simp: tag_special_def)
  show ?case
  proof (cases ps)
    case Nil
    then show ?thesis using assms(4,5) by (simp add: p n pair_text_def key val)
  next
    case (Cons q qs)
    then have "join CHR '','' (map pair_text (p # ps)) @ rest
        = append_escaped_tag k @ CHR ''='' # append_escaped_tag v @ CHR '','' # join CHR '','' (map pair_text ps) @ rest"
      by (simp add: p pair_text_def)
    moreover have "read_pairs m (join CHR '','' (map pair_text ps) @ rest) = Some (ps, rest)"
      using Cons.IH [of m] Cons.prems Cons n by simp
    ultimately show ?thesis by (simp add: n key val p)
  qed
qed simp

text \<open>C38: a payload read as one line of the protocol gives back the measurement, the device and the
  model, and as fields exactly the transmitted metrics that have a reading, each with its number,
  in the order of the registry, and the time of the sample; ids, the model and the measurement may
  hold commas, spaces, equal signs and backslashes.
\<close>

theorem influx_line_round_trip:
  assumes latest: "latest_values a = Some (Some (vs, timestamp))"
    and line: "build_payload fmt a x = Some (Some line)"
    and numbers: "\<forall>v. set (fmt v) \<inter> (insert (CHR 0x0A) tag_special) = {}"
    and newlines: "CHR 0x0A \<notin> set (ic_measurement (ix_config x))" "CHR 0x0A \<notin> set (dev_serial (api_device a))"
      "CHR 0x0A \<notin> set (dev_model (api_device a))" "\<forall>d \<in> set (api_defs a). CHR 0x0A \<notin> set (md_id d)"
  shows "read_line line = Some (ic_measurement (ix_config x),
      [(''device'', or_unknown (dev_serial (api_device a))), (''model'', or_unknown (dev_model (api_device a)))],
      map (\<lambda>(d, v). (md_id d, fmt v)) (filter (\<lambda>(d, v). \<not> f32_isnan v
        \<and> selection_enabled (api_selection a) SELECT_TRANSMIT (md_id d)) (zip (api_defs a) vs)),
      show_int timestamp)"
proof -
  define fs where "fs = map (\<lambda>(d, v). (md_id d, fmt v)) (line_fields a vs)"
  define tags where "tags = [(''device'', or_unknown (dev_serial (api_device a))), (''model'', or_unknown (dev_model (api_device a)))]"
  have nonempty: "line_fields a vs \<noteq> []" using latest line by (auto simp: build_payload_def Let_def split: if_splits)
  have number: "append_escaped_tag (fmt v) = fmt v" for v
  proof -
    have "escape_with tag_special s = s" if "set s \<inter> tag_special = {}" for s using that by (induction s) auto
    moreover have "set (fmt v) \<inter> tag_special = {}" using numbers by blast
    ultimately show ?thesis by (simp add: append_escaped_tag_def)
  qed
  have fields: "map (field_text fmt) (line_fields a vs) = map pair_text fs"
    by (auto simp: fs_def field_text_def pair_text_def number)
  define m where "m = append_escaped_measurement (ic_measurement (ix_config x))"
  define ending where "ending = CHR '' '' # show_int timestamp @ [CHR 0x0A]"
  define after where "after = CHR '' '' # join CHR '','' (map pair_text fs) @ ending"
  have line_eq: "line = m @ CHR '','' # join CHR '','' (map pair_text tags) @ after"
    using latest line nonempty
    by (simp add: build_payload_def Let_def m_def tags_def after_def ending_def pair_text_def append_escaped_tag_def
        tag_special_def flip: fields)
  have measurement: "read_name {CHR '','', CHR '' ''} (m @ CHR '','' # r) = (ic_measurement (ix_config x), CHR '','' # r)" for r
    using newlines(1) unfolding m_def append_escaped_measurement_def
    by (intro read_name_escaped) (auto simp: measurement_special_def)
  have "read_pairs (length line) (join CHR '','' (map pair_text tags) @ after) = Some (tags, after)"
    using newlines(2,3) by (intro read_pairs_text) (auto simp: tags_def or_unknown_def line_eq after_def)
  moreover have "read_pairs (length line) (join CHR '','' (map pair_text fs) @ ending) = Some (fs, ending)"
  proof (rule read_pairs_text)
    show "fs \<noteq> []" using nonempty by (simp add: fs_def)
    have "d \<in> set (api_defs a)" if "(d, v) \<in> set (line_fields a vs)" for d v
      using that by (auto simp: line_fields_def dest: set_zip_leftD)
    then show "\<forall>(k, v) \<in> set fs. CHR 0x0A \<notin> set k \<and> CHR 0x0A \<notin> set v" using newlines(4) numbers by (fastforce simp: fs_def)
    show "length fs \<le> length line" using length_join [of "map pair_text fs" "CHR '',''"] by (simp add: line_eq after_def pair_text_def)
  qed (simp_all add: ending_def)
  moreover have "takeWhile (\<lambda>c. c \<noteq> CHR 0x0A) (show_int timestamp @ [CHR 0x0A]) = show_int timestamp"
    using show_int_line by (simp add: takeWhile_append2)
  moreover have "fs = map (\<lambda>(d, v). (md_id d, fmt v)) (filter (\<lambda>(d, v). \<not> f32_isnan v
        \<and> selection_enabled (api_selection a) SELECT_TRANSMIT (md_id d)) (zip (api_defs a) vs))"
    by (simp add: fs_def line_fields_def)
  ultimately show ?thesis
    by (simp add: read_line_def line_eq measurement after_def ending_def tags_def)
qed

theorem influx_line_round_trip_witness:
  "read_line demo_line = Some (''axis cam'', [(''device'', ''unknown''), (''model'', ''unknown'')], [(''cpu.usage'', ''1'')], ''1000'')"
proof -
  obtain s where s: "api_inv (demo_api s)" "st_has_latest s" "st_latest s = [1065353216]" "st_latest_ts s = 1000"
    by (rule demo_api_inv)
  have l: "latest_values (demo_api s) = Some (Some ([1065353216], 1000))"
    using latest_values_known [OF s(1)] s(2-4) by (simp add: demo_api_def)
  have b: "build_payload (\<lambda>_. ''1'') (demo_api s) (influx_new\<lparr>ix_config := demo_influx_config\<rparr>) = Some (Some demo_line)"
    by (rule demo_build [OF s])
  have n: "show_int 1000 = ''1000''" by code_simp
  show ?thesis
    using influx_line_round_trip [OF l b]
    by (simp add: tag_special_def demo_influx_config_def zero_influx_config_def demo_api_def demo_registry_def or_unknown_def
        f32_isnan_def f32_exp_def selection_enabled_def n)
qed

end
