(* ===== verification/Procs.thy ===== *)
theory Procs
  imports Scanf Json
begin

text \<open>
  \<^verbatim>\<open>app/procs.c\<close>: the table of processes. Parameters: the names in \<^verbatim>\<open>/proc\<close>, the contents of the
  files below it, the clock, \<open>sysconf\<close>, the number format, and \<open>qsort\<close>, whose order of equal
  elements is unspecified. \<open>None\<close> is a read outside the text of a file.
\<close>

section \<open>State\<close>

definition PROCS_INTERVAL_S :: nat where "PROCS_INTERVAL_S = 10"

definition PROCS_MAX :: nat where "PROCS_MAX = 512"

definition PROC_NAME_SIZE :: nat where "PROC_NAME_SIZE = 24"

record proc =
  pr_pid :: int
  pr_name :: string
  pr_jiffies :: guint64
  pr_rss_bytes :: guint64
  pr_cpu_percent :: double
  pr_seen :: bool

text \<open>\<open>ps_entries\<close> are the first \<open>count\<close> entries of the array.\<close>

record procs =
  ps_entries :: "proc list"
  ps_last_scan :: gint64
  ps_ticks_per_second :: int
  ps_page_size :: int
  ps_cores :: guint

text \<open>The arguments are what \<open>sysconf\<close> returned.\<close>

definition procs_new :: "int \<Rightarrow> int \<Rightarrow> int \<Rightarrow> procs" where
  "procs_new ticks page cores = \<lparr>ps_entries = [], ps_last_scan = 0,
     ps_ticks_per_second = (if ticks \<le> 0 then 100 else ticks),
     ps_page_size = (if page \<le> 0 then 4096 else page),
     ps_cores = (if cores > 0 then of_int cores else 1)\<rparr>"

text \<open>The place of the first entry of a process.\<close>

fun find_proc :: "nat \<Rightarrow> proc list \<Rightarrow> int \<Rightarrow> nat option" where
  "find_proc i [] pid = None"
| "find_proc i (p # ps) pid = (if pr_pid p = pid then Some i else find_proc (Suc i) ps pid)"

section \<open>Reading a process\<close>

text \<open>The text from the last occurrence on (\<open>strrchr\<close>).\<close>

fun strrchr :: "string \<Rightarrow> char \<Rightarrow> string option" where
  "strrchr [] c = None"
| "strrchr (x # xs) c = (case strrchr xs c of Some t \<Rightarrow> Some t | None \<Rightarrow> if x = c then Some (x # xs) else None)"

definition stat_format :: "directive list" where
  "stat_format = concat (replicate 11 [SkipStr, Ws]) @ [Uns, Ws, Uns, Ws] @ concat (replicate 8 [SkipStr, Ws]) @ [Uns]"

record stat_reading =
  sr_name :: string
  sr_jiffies :: guint64
  sr_rss_pages :: guint64

text \<open>
  The inner \<open>None\<close> is FALSE. The fields start two characters after the last closing parenthesis,
  which is outside the text when that parenthesis is its last character.
\<close>

definition read_stat :: "string option \<Rightarrow> stat_reading option option" where
  "read_stat contents = (case contents of None \<Rightarrow> Some None
     | Some text \<Rightarrow> (case (strchr text CHR ''('', strrchr text CHR '')'') of
         (Some from_open, Some from_close) \<Rightarrow>
           if length from_open < length from_close then Some None
           else if length from_close < 2 then None
           else (let name = strlcpy PROC_NAME_SIZE (take (length from_open - length from_close - 1) (drop 1 from_open));
                     vs = sscanf (\<lambda>_. None) stat_format (drop 2 from_close) in
             if length vs \<noteq> 3 then Some None
             else Some (Some \<lparr>sr_name = name, sr_jiffies = uval vs 0 0 + uval vs 1 0, sr_rss_pages = uval vs 2 0\<rparr>))
       | _ \<Rightarrow> Some None))"

text \<open>\<open>atoi\<close> keeps the low 32 bits of \<open>strtol\<close>.\<close>

definition atoi :: "string \<Rightarrow> int" where
  "atoi s = (let (sign, t) = split_sign (dropWhile is_space s); n = dec_value (takeWhile is_digit t) in
     sint (word_of_int (if sign = ''-'' then max (- (2 ^ 63)) (- int n) else min (2 ^ 63 - 1) (int n)) :: 32 word))"

definition stat_path :: "int \<Rightarrow> string" where
  "stat_path pid = strlcpy 64 (''/proc/'' @ show_int pid @ ''/stat'')"

section \<open>Scanning\<close>

definition cpu_share :: "procs \<Rightarrow> double \<Rightarrow> guint64 \<Rightarrow> double" where
  "cpu_share ps elapsed_s jiffies =
     ddiv (ddiv (dmul (to_double 100) (ddiv (to_double (of_nat (unat jiffies))) (to_double (of_int (ps_ticks_per_second ps)))))
       elapsed_s) (to_double (of_nat (unat (ps_cores ps))))"

definition update_proc :: "procs \<Rightarrow> double \<Rightarrow> stat_reading \<Rightarrow> proc \<Rightarrow> proc" where
  "update_proc ps elapsed_s r p = (let
     p1 = (if dlt (DFin 0) elapsed_s \<and> pr_jiffies p \<le> sr_jiffies r
       then p\<lparr>pr_cpu_percent := cpu_share ps elapsed_s (sr_jiffies r - pr_jiffies p)\<rparr> else p)
   in p1\<lparr>pr_jiffies := sr_jiffies r, pr_rss_bytes := sr_rss_pages r * of_int (ps_page_size ps),
       pr_name := strlcpy PROC_NAME_SIZE (sr_name r), pr_seen := True\<rparr>)"

definition new_proc :: "int \<Rightarrow> guint64 \<Rightarrow> proc" where
  "new_proc pid jiffies = \<lparr>pr_pid = pid, pr_name = [], pr_jiffies = jiffies, pr_rss_bytes = 0, pr_cpu_percent = DFin 0,
     pr_seen = False\<rparr>"

definition record_proc :: "procs \<Rightarrow> double \<Rightarrow> int \<Rightarrow> stat_reading \<Rightarrow> proc list \<Rightarrow> proc list" where
  "record_proc ps elapsed_s pid r entries = (case find_proc 0 entries pid of
       Some i \<Rightarrow> entries[i := update_proc ps elapsed_s r (entries ! i)]
     | None \<Rightarrow> if PROCS_MAX \<le> length entries then entries
         else entries @ [update_proc ps elapsed_s r (new_proc pid (sr_jiffies r))])"

fun scan_names :: "(string \<Rightarrow> string option) \<Rightarrow> procs \<Rightarrow> double \<Rightarrow> string list \<Rightarrow> proc list \<Rightarrow> proc list option" where
  "scan_names get ps elapsed_s [] entries = Some entries"
| "scan_names get ps elapsed_s (entry # names) entries =
     (if entry = [] \<or> \<not> is_digit (hd entry) then scan_names get ps elapsed_s names entries
      else case read_stat (get (stat_path (atoi entry))) of
        None \<Rightarrow> None
      | Some None \<Rightarrow> scan_names get ps elapsed_s names entries
      | Some (Some r) \<Rightarrow> scan_names get ps elapsed_s names (record_proc ps elapsed_s (atoi entry) r entries))"

definition scan :: "string list option \<Rightarrow> (string \<Rightarrow> string option) \<Rightarrow> double \<Rightarrow> procs \<Rightarrow> procs option" where
  "scan dir get elapsed_s ps = (let unseen = map (\<lambda>p. p\<lparr>pr_seen := False\<rparr>) (ps_entries ps) in
     case dir of None \<Rightarrow> Some (ps\<lparr>ps_entries := unseen\<rparr>)
     | Some names \<Rightarrow> do {
         entries \<leftarrow> scan_names get ps elapsed_s names unseen;
         Some (ps\<lparr>ps_entries := filter pr_seen entries\<rparr>)
       })"

text \<open>\<open>now\<close> is the monotonic clock in microseconds.\<close>

definition procs_tick :: "string list option \<Rightarrow> (string \<Rightarrow> string option) \<Rightarrow> gint64 \<Rightarrow> procs option \<Rightarrow> procs option option" where
  "procs_tick dir get now procs = (case procs of None \<Rightarrow> Some None
     | Some ps \<Rightarrow> if ps_last_scan ps \<noteq> 0 \<and> now - ps_last_scan ps < int PROCS_INTERVAL_S * 1000000 then Some procs
         else (let elapsed = (if ps_last_scan ps \<noteq> 0
             then ddiv (to_double (of_int (now - ps_last_scan ps))) (to_double 1000000) else DFin 0) in
           map_option Some (scan dir get elapsed (ps\<lparr>ps_last_scan := now\<rparr>))))"

section \<open>The document\<close>

definition by_cpu :: "proc \<Rightarrow> proc \<Rightarrow> int" where
  "by_cpu left right = (if dlt (pr_cpu_percent left) (pr_cpu_percent right) then 1
     else if dlt (pr_cpu_percent right) (pr_cpu_percent left) then - 1
     else if pr_rss_bytes left < pr_rss_bytes right then 1
     else if pr_rss_bytes right < pr_rss_bytes left then - 1 else 0)"

definition escape_proc_char :: "char \<Rightarrow> string" where
  "escape_proc_char c = (if c = CHR 0x22 \<or> c = CHR 0x5C then [CHR 0x5C] else [])
     @ (if ch_code c < 32 then unicode_escape c else [c])"

definition escape_proc :: "string \<Rightarrow> string" where
  "escape_proc s = concat (map escape_proc_char s)"

definition proc_json :: "(double \<Rightarrow> string) \<Rightarrow> proc \<Rightarrow> string" where
  "proc_json fmt p = CHR ''{'' # quoted ''pid'' @ CHR '':'' # show_int (pr_pid p) @ CHR '','' # quoted ''name'' @ CHR '':''
     # quoted (escape_proc (pr_name p)) @ CHR '','' # quoted ''cpu'' @ CHR '':'' # fmt (pr_cpu_percent p)
     @ CHR '','' # quoted ''rss'' @ CHR '':'' # show_nat (unat (pr_rss_bytes p)) @ ''}''"

definition procs_json :: "((proc \<Rightarrow> proc \<Rightarrow> int) \<Rightarrow> proc list \<Rightarrow> proc list) \<Rightarrow> (double \<Rightarrow> string) \<Rightarrow> procs \<Rightarrow> nat \<Rightarrow> string" where
  "procs_json qsort fmt ps limit = (let sorted_procs = qsort by_cpu (ps_entries ps) in
     CHR ''{'' # quoted ''interval'' @ CHR '':'' # show_nat PROCS_INTERVAL_S @ CHR '','' # quoted ''cores'' @ CHR '':''
     # show_nat (unat (ps_cores ps)) @ CHR '','' # quoted ''processes'' @ '':[''
     @ join CHR '','' (map (proc_json fmt) (take (min limit (length (ps_entries ps))) sorted_procs))
     @ ''],'' @ quoted ''total'' @ CHR '':'' # show_nat (length (ps_entries ps)) @ ''}'')"

end
