(* ===== verification/ProcsProps.thy ===== *)
theory ProcsProps
  imports Procs "HOL-Library.Multiset"
begin

text \<open>
  \<^verbatim>\<open>app/procs.c\<close>: a scan gives the table a reference definition gives, the invariant of the table,
  and the document, which is JSON and holds the largest consumers in order.
\<close>

section \<open>Scans\<close>

text \<open>The processes read, in the order of the directory.\<close>

fun read_names :: "(string \<Rightarrow> string option) \<Rightarrow> string list \<Rightarrow> (int \<times> stat_reading) list option" where
  "read_names get [] = Some []"
| "read_names get (entry # names) = (if entry = [] \<or> \<not> is_digit (hd entry) then read_names get names
     else case read_stat (get (stat_path (atoi entry))) of
       None \<Rightarrow> None | Some None \<Rightarrow> read_names get names
     | Some (Some r) \<Rightarrow> map_option ((#) (atoi entry, r)) (read_names get names))"

definition record_all :: "procs \<Rightarrow> double \<Rightarrow> (int \<times> stat_reading) list \<Rightarrow> proc list \<Rightarrow> proc list" where
  "record_all ps el rs T = foldl (\<lambda>T (pid, r). record_proc ps el pid r T) T rs"

lemma scan_names_read: "scan_names get ps el names T = map_option (\<lambda>rs. record_all ps el rs T) (read_names get names)"
  by (induction names arbitrary: T) (auto simp: record_all_def option.map_comp comp_def split: option.splits)

lemma find_proc_spec:
  "find_proc k ps pid = (if pid \<in> pr_pid ` set ps then Some (k + length (takeWhile (\<lambda>p. pr_pid p \<noteq> pid) ps)) else None)"
  by (induction ps arbitrary: k) auto

lemma update_first:
  assumes "distinct (map pr_pid T)" "pid \<in> pr_pid ` set T"
  shows "T[length (takeWhile (\<lambda>p. pr_pid p \<noteq> pid) T) := f (T ! length (takeWhile (\<lambda>p. pr_pid p \<noteq> pid) T))]
    = map (\<lambda>e. if pr_pid e = pid then f e else e) T"
  using assms
proof (induction T)
  case (Cons e T)
  show ?case
  proof (cases "pr_pid e = pid")
    case True
    then have "pid \<notin> pr_pid ` set T" using Cons.prems(1) by auto
    then have "map (\<lambda>e. if pr_pid e = pid then f e else e) T = T" by (intro map_idI) auto
    with True show ?thesis by simp
  qed (use Cons in auto)
qed simp

lemma update_proc_pid [simp]: "pr_pid (update_proc ps el r e) = pr_pid e" "pr_seen (update_proc ps el r e)"
  by (simp_all add: update_proc_def Let_def)

lemma update_proc_unseen [simp]: "update_proc ps el r (e\<lparr>pr_seen := s\<rparr>) = update_proc ps el r e"
  by (simp add: update_proc_def Let_def)

definition fresh_procs :: "procs \<Rightarrow> double \<Rightarrow> int set \<Rightarrow> (int \<times> stat_reading) list \<Rightarrow> proc list" where
  "fresh_procs ps el known rs = map (\<lambda>(pid, r). update_proc ps el r (new_proc pid (sr_jiffies r)))
     (filter (\<lambda>(pid, r). pid \<notin> known) rs)"

definition updated :: "procs \<Rightarrow> double \<Rightarrow> (int \<times> stat_reading) list \<Rightarrow> proc \<Rightarrow> proc" where
  "updated ps el rs e = (case map_of rs (pr_pid e) of None \<Rightarrow> e | Some r \<Rightarrow> update_proc ps el r e)"

lemma record_all_table:
  assumes "distinct (map pr_pid T)" "distinct (map fst rs)" "length T + length rs \<le> PROCS_MAX"
  shows "record_all ps el rs T = map (updated ps el rs) T @ fresh_procs ps el (pr_pid ` set T) rs"
  using assms
proof (induction rs arbitrary: T)
  case Nil
  then show ?case by (simp add: record_all_def updated_def fresh_procs_def)
next
  case (Cons pr rs)
  obtain pid r where p: "pr = (pid, r)" by (cases pr)
  have new: "pid \<notin> fst ` set rs" using Cons.prems(2) p by simp
  define T' where "T' = record_proc ps el pid r T"
  have rec: "record_all ps el (pr # rs) T = record_all ps el rs T'" by (simp add: record_all_def p T'_def)
  show ?case
  proof (cases "pid \<in> pr_pid ` set T")
    case True
    then have T': "T' = map (\<lambda>e. if pr_pid e = pid then update_proc ps el r e else e) T"
      using update_first [OF Cons.prems(1) True] by (simp add: T'_def record_proc_def find_proc_spec)
    have pids: "map pr_pid T' = map pr_pid T" by (simp add: T')
    have "record_all ps el rs T' = map (updated ps el rs) T' @ fresh_procs ps el (pr_pid ` set T') rs"
      using Cons.prems by (intro Cons.IH) (simp_all add: pids, simp add: T')
    moreover have "pr_pid ` set T' = pr_pid ` set T" using pids by (metis list.set_map)
    moreover have "map (updated ps el rs) T' = map (updated ps el (pr # rs)) T"
      using new by (auto simp: T' p updated_def map_of_eq_None_iff [THEN iffD2])
    ultimately show ?thesis using True by (simp add: rec [unfolded p] fresh_procs_def p)
  next
    case False
    then have T': "T' = T @ [update_proc ps el r (new_proc pid (sr_jiffies r))]"
      using Cons.prems(3) by (simp add: T'_def record_proc_def find_proc_spec)
    have "record_all ps el rs T' = map (updated ps el rs) T' @ fresh_procs ps el (pr_pid ` set T') rs"
      using Cons.prems False by (intro Cons.IH) (auto simp: T' new_proc_def)
    moreover have "fresh_procs ps el (pr_pid ` set T') rs = fresh_procs ps el (pr_pid ` set T) rs"
      using new unfolding fresh_procs_def by (intro arg_cong [of _ _ "map _"] filter_cong) (force simp: T' new_proc_def)+
    moreover have "map (updated ps el rs) T = map (updated ps el (pr # rs)) T"
      using False by (auto simp: p updated_def)
    moreover have "updated ps el rs (update_proc ps el r (new_proc pid (sr_jiffies r))) = update_proc ps el r (new_proc pid (sr_jiffies r))"
      using new by (simp add: updated_def new_proc_def map_of_eq_None_iff [THEN iffD2])
    ultimately show ?thesis using False by (simp add: rec [unfolded p] T' fresh_procs_def p)
  qed
qed

text \<open>The table after a scan: known processes still there, in their order, then the new ones.\<close>

definition scan_reference :: "procs \<Rightarrow> double \<Rightarrow> (int \<times> stat_reading) list \<Rightarrow> proc list" where
  "scan_reference ps el rs =
     List.map_filter (\<lambda>e. map_option (\<lambda>r. update_proc ps el r e) (map_of rs (pr_pid e))) (ps_entries ps)
     @ fresh_procs ps el (pr_pid ` set (ps_entries ps)) rs"

lemma filter_updated:
  "filter pr_seen (map (updated ps el rs) (map (\<lambda>e. e\<lparr>pr_seen := False\<rparr>) T))
    = List.map_filter (\<lambda>e. map_option (\<lambda>r. update_proc ps el r e) (map_of rs (pr_pid e))) T"
  by (induction T) (auto simp: updated_def map_filter_simps split: option.splits)

lemma scan_table:
  assumes "distinct (map pr_pid (ps_entries ps))" "read_names get names = Some rs" "distinct (map fst rs)"
    and "length (ps_entries ps) + length rs \<le> PROCS_MAX"
  shows "scan (Some names) get el ps = Some (ps\<lparr>ps_entries := scan_reference ps el rs\<rparr>)"
proof -
  let ?T = "map (\<lambda>p. p\<lparr>pr_seen := False\<rparr>) (ps_entries ps)"
  have "record_all ps el rs ?T = map (updated ps el rs) ?T @ fresh_procs ps el (pr_pid ` set ?T) rs"
    using assms(1,3,4) by (intro record_all_table) (simp_all add: comp_def)
  moreover have "pr_pid ` set ?T = pr_pid ` set (ps_entries ps)" by (auto simp: image_image)
  moreover have "filter pr_seen (fresh_procs ps el known rs) = fresh_procs ps el known rs" for known
    by (auto simp: fresh_procs_def)
  ultimately have "filter pr_seen (record_all ps el rs ?T) = scan_reference ps el rs"
    using filter_updated [of ps el rs "ps_entries ps"] by (simp add: scan_reference_def)
  then show ?thesis using assms(2) by (simp add: scan_def scan_names_read Let_def)
qed

section \<open>The share of a new and of a reused process\<close>

definition procs_inv :: "procs \<Rightarrow> bool" where
  "procs_inv ps \<longleftrightarrow> distinct (map pr_pid (ps_entries ps)) \<and> length (ps_entries ps) \<le> PROCS_MAX
     \<and> 0 < ps_ticks_per_second ps \<and> ps_ticks_per_second ps < 2 ^ 53 \<and> 0 < ps_cores ps
     \<and> list_all (\<lambda>p. length (pr_name p) < PROC_NAME_SIZE) (ps_entries ps)"

lemma to_double_zero: "to_double 0 = DFin 0"
  using to_double_of_int [of 0] by simp

lemma cpu_share_zero:
  assumes "procs_inv ps" "0 < e"
  shows "cpu_share ps (DFin e) 0 = DFin 0"
proof -
  define n where "n = unat (ps_cores ps)"
  have "n < 2 ^ 53" "n \<noteq> 0"
    using unsigned_less [of "ps_cores ps", where ?'a = nat] assms(1) by (simp_all add: n_def procs_inv_def unat_eq_0 word_gt_0)
  then have cores: "to_double (of_nat n) = DFin (of_nat n)" "of_nat n \<noteq> (0 :: rat)" by (simp_all add: to_double_of_nat)
  have "to_double (of_int (ps_ticks_per_second ps)) = DFin (of_int (ps_ticks_per_second ps))"
    using assms(1) by (intro to_double_of_int) (simp add: procs_inv_def)
  moreover have "to_double 100 = DFin 100" using to_double_of_int [of 100] by simp
  moreover have "cpu_share ps (DFin e) 0 = ddiv (ddiv (dmul (to_double 100) (ddiv (to_double 0)
      (to_double (of_int (ps_ticks_per_second ps))))) (DFin e)) (to_double (of_nat n))"
    by (simp only: cpu_share_def n_def) simp
  ultimately show ?thesis using assms cores by (simp add: to_double_zero procs_inv_def)
qed

lemma scan_reference_inv:
  assumes inv: "procs_inv ps" and rs: "distinct (map fst rs)" and room: "length (ps_entries ps) + length rs \<le> PROCS_MAX"
  shows "procs_inv (ps\<lparr>ps_entries := scan_reference ps el rs\<rparr>)"
proof -
  let ?f = "\<lambda>e. map_option (\<lambda>r. update_proc ps el r e) (map_of rs (pr_pid e))"
  let ?kept = "List.map_filter ?f (ps_entries ps)"
  let ?new = "fresh_procs ps el (pr_pid ` set (ps_entries ps)) rs"
  have kept: "map pr_pid ?kept = map pr_pid (filter (\<lambda>e. ?f e \<noteq> None) (ps_entries ps))"
    by (auto simp: List.map_filter_def)
  then have "distinct (map pr_pid ?kept)" using inv by (simp add: procs_inv_def distinct_map_filter)
  moreover have new: "map pr_pid ?new = map fst (filter (\<lambda>(pid, r). pid \<notin> pr_pid ` set (ps_entries ps)) rs)"
    by (auto simp: fresh_procs_def new_proc_def)
  then have "distinct (map pr_pid ?new)" using rs by (simp add: distinct_map_filter)
  moreover have "set (map pr_pid ?kept) \<inter> set (map pr_pid ?new) = {}" unfolding kept new by auto
  ultimately have "distinct (map pr_pid (?kept @ ?new))" by simp
  moreover have "length (?kept @ ?new) \<le> PROCS_MAX"
    using room by (simp add: List.map_filter_def fresh_procs_def) (meson add_mono length_filter_le order_trans)
  moreover have "list_all (\<lambda>p. length (pr_name p) < PROC_NAME_SIZE) (?kept @ ?new)"
    by (auto simp: list_all_iff List.map_filter_def fresh_procs_def update_proc_def Let_def PROC_NAME_SIZE_def strlcpy_def)
  ultimately show ?thesis using inv by (simp add: procs_inv_def scan_reference_def)
qed


definition demo_procs :: procs where
  "demo_procs = (procs_new 100 4096 2)\<lparr>ps_entries := [\<lparr>pr_pid = 7, pr_name = ''old'', pr_jiffies = 500, pr_rss_bytes = 4096,
     pr_cpu_percent = DFin 90, pr_seen = True\<rparr>]\<rparr>"

definition demo_stat :: "string \<Rightarrow> string option" where
  "demo_stat path = (if path = ''/proc/7/stat'' then Some ''7 (new) S 1 1 1 0 -1 4 0 0 0 0 3 2 0 0 20 0 1 0 9000 1000 5 0''
     else if path = ''/proc/9/stat'' then Some ''9 (a b)) R 1 1 1 0 -1 4 0 0 0 0 40 2 0 0 20 0 1 0 9000 1000 8 0'' else None)"

definition demo_readings :: "(int \<times> stat_reading) list" where
  "demo_readings = [(7, \<lparr>sr_name = ''new'', sr_jiffies = 5, sr_rss_pages = 5\<rparr>),
     (9, \<lparr>sr_name = ''a b)'', sr_jiffies = 42, sr_rss_pages = 8\<rparr>)]"

lemma demo_numbers: "atoi ''7'' = 7" "atoi ''9'' = 9" "atoi ''11'' = 11"
  by (simp_all add: atoi_def split_sign_def is_space_def ch_code_def dec_value_def is_digit_def)

lemma demo_paths: "stat_path 7 = ''/proc/7/stat''" "stat_path 9 = ''/proc/9/stat''" "stat_path 11 = ''/proc/11/stat''"
  by code_simp+

lemma stat_format_list: "stat_format = [SkipStr, Ws, SkipStr, Ws, SkipStr, Ws, SkipStr, Ws, SkipStr, Ws, SkipStr, Ws, SkipStr, Ws,
    SkipStr, Ws, SkipStr, Ws, SkipStr, Ws, SkipStr, Ws, Uns, Ws, Uns, Ws, SkipStr, Ws, SkipStr, Ws, SkipStr, Ws, SkipStr, Ws,
    SkipStr, Ws, SkipStr, Ws, SkipStr, Ws, SkipStr, Ws, Uns]"
  by code_simp

lemma demo_fields: "sscanf (\<lambda>_. None) stat_format (''S 1 1 1 0 -1 4 0 0 0 0 3 2 0 0 20 0 1 0 9000 1000 5 0'') = [UVal 3, UVal 2, UVal 5]"
    "sscanf (\<lambda>_. None) stat_format (''R 1 1 1 0 -1 4 0 0 0 0 40 2 0 0 20 0 1 0 9000 1000 8 0'') = [UVal 40, UVal 2, UVal 8]"
  unfolding stat_format_list
  by (simp_all add: scan_str_def scan_uns_def Let_def is_cspace_def is_space_def ch_code_def
      split_sign_def is_digit_def strtoull10_def dec_value_def)

lemma demo_stats: "read_stat (demo_stat ''/proc/7/stat'') = Some (Some \<lparr>sr_name = ''new'', sr_jiffies = 5, sr_rss_pages = 5\<rparr>)"
    "read_stat (demo_stat ''/proc/9/stat'') = Some (Some \<lparr>sr_name = ''a b)'', sr_jiffies = 42, sr_rss_pages = 8\<rparr>)"
    "read_stat (demo_stat ''/proc/11/stat'') = Some None"
  using demo_fields by (simp_all add: demo_stat_def read_stat_def Let_def uval_def strlcpy_def PROC_NAME_SIZE_def)

lemma demo_reads: "read_names demo_stat [''7'', ''self'', ''9'', ''11''] = Some demo_readings"
  by (simp add: demo_numbers demo_paths demo_stats demo_readings_def is_digit_def ch_code_def)


section \<open>The document\<close>

lemma parse_escape_proc_char: "parse_string (escape_proc_char c @ r) = cons_char c (parse_string r)"
proof (cases "c = CHR 0x22 \<or> c = CHR 0x5C")
  case True
  then have "escape_proc_char c = [CHR 0x5C, c]" by (auto simp: escape_proc_char_def ch_code_def)
  moreover have "simple_escape c = Some c" using True by (auto simp: simple_escape_def)
  ultimately show ?thesis by (simp only: append_Cons append_Nil parse_simple_escape)
next
  case False
  show ?thesis
  proof (cases "ch_code c < 32")
    case True
    with False have "escape_proc_char c = unicode_escape c" by (simp add: escape_proc_char_def)
    with parse_unicode_escape [OF True] show ?thesis by (simp only:)
  next
    case ge: False
    with False have "escape_proc_char c = [c]" by (simp add: escape_proc_char_def)
    with False ge show ?thesis by (simp only: append.simps) (simp add: parse_string_plain)
  qed
qed

interpretation procs_text: json_escaping escape_proc "\<lambda>_. True"
  by unfold_locales (simp add: escape_proc_def parse_string_concat parse_escape_proc_char)

definition proc_tree :: "(double \<Rightarrow> string) \<Rightarrow> proc \<Rightarrow> jval" where
  "proc_tree fmt p = JObj [(''pid'', JNum (show_int (pr_pid p))), (''name'', JStr (pr_name p)),
     (''cpu'', JNum (fmt (pr_cpu_percent p))), (''rss'', JNum (show_nat (unat (pr_rss_bytes p))))]"

definition procs_tree :: "(double \<Rightarrow> string) \<Rightarrow> procs \<Rightarrow> proc list \<Rightarrow> jval" where
  "procs_tree fmt ps shown = JObj [(''interval'', JNum (show_nat 10)), (''cores'', JNum (show_nat (unat (ps_cores ps)))),
     (''processes'', JArr (map (proc_tree fmt) shown)), (''total'', JNum (show_nat (length (ps_entries ps))))]"

lemma escape_proc_plain: "list_all (\<lambda>c. c \<noteq> CHR 0x22 \<and> c \<noteq> CHR 0x5C \<and> 32 \<le> ch_code c) s \<Longrightarrow> escape_proc s = s"
  by (induction s) (auto simp: escape_proc_def escape_proc_char_def)

lemma proc_json_tree: "proc_json fmt p = render escape_proc (proc_tree fmt p)"
  by (simp add: proc_json_def proc_tree_def render_simps quoted_def escape_proc_plain ch_code_def)

lemma proc_json_fun: "proc_json fmt = (\<lambda>p. render escape_proc (proc_tree fmt p))"
  by (rule ext) (rule proc_json_tree)

lemma procs_json_tree: "procs_json qsort fmt ps limit
    = render escape_proc (procs_tree fmt ps (take (min limit (length (ps_entries ps))) (qsort by_cpu (ps_entries ps))))"
  by (simp add: procs_json_def procs_tree_def render_simps quoted_def escape_proc_plain ch_code_def PROCS_INTERVAL_S_def
      Let_def proc_json_fun comp_def)

text \<open>What C promises of \<open>qsort\<close>: for a consistent comparison, a permutation in order.\<close>

definition comparison_on :: "'a set \<Rightarrow> ('a \<Rightarrow> 'a \<Rightarrow> int) \<Rightarrow> bool" where
  "comparison_on A cmp \<longleftrightarrow> (\<forall>x \<in> A. \<forall>y \<in> A. cmp x y \<le> 0 \<or> cmp y x \<le> 0)
     \<and> (\<forall>x \<in> A. \<forall>y \<in> A. \<forall>z \<in> A. cmp x y \<le> 0 \<longrightarrow> cmp y z \<le> 0 \<longrightarrow> cmp x z \<le> 0)"

definition sorts :: "(('a \<Rightarrow> 'a \<Rightarrow> int) \<Rightarrow> 'a list \<Rightarrow> 'a list) \<Rightarrow> bool" where
  "sorts qsort \<longleftrightarrow> (\<forall>cmp xs. comparison_on (set xs) cmp \<longrightarrow>
     mset (qsort cmp xs) = mset xs \<and> sorted_wrt (\<lambda>a b. cmp a b \<le> 0) (qsort cmp xs))"

lemma by_cpu_le: "by_cpu a b \<le> 0 \<longleftrightarrow> \<not> dlt (pr_cpu_percent a) (pr_cpu_percent b)
    \<and> (dlt (pr_cpu_percent b) (pr_cpu_percent a) \<or> pr_rss_bytes b \<le> pr_rss_bytes a)"
  by (auto simp: by_cpu_def)

lemma dlt_asym: "dlt a b \<Longrightarrow> \<not> dlt b a"
  by (cases a; cases b) auto

lemma dlt_weak: "\<not> isnan b \<Longrightarrow> dlt a c \<Longrightarrow> dlt a b \<or> dlt b c"
  by (cases a; cases b; cases c) auto

lemma by_cpu_comparison:
  assumes "\<forall>p \<in> A. \<not> isnan (pr_cpu_percent p)"
  shows "comparison_on A by_cpu"
  unfolding comparison_on_def by_cpu_le
proof (intro conjI ballI impI)
  fix x y assume "x \<in> A" "y \<in> A"
  show "(\<not> dlt (pr_cpu_percent x) (pr_cpu_percent y) \<and> (dlt (pr_cpu_percent y) (pr_cpu_percent x) \<or> pr_rss_bytes y \<le> pr_rss_bytes x))
    \<or> (\<not> dlt (pr_cpu_percent y) (pr_cpu_percent x) \<and> (dlt (pr_cpu_percent x) (pr_cpu_percent y) \<or> pr_rss_bytes x \<le> pr_rss_bytes y))"
    using dlt_asym by auto
next
  fix x y z assume A: "x \<in> A" "y \<in> A" "z \<in> A"
  let ?x = "pr_cpu_percent x" and ?y = "pr_cpu_percent y" and ?z = "pr_cpu_percent z"
  assume xy: "\<not> dlt ?x ?y \<and> (dlt ?y ?x \<or> pr_rss_bytes y \<le> pr_rss_bytes x)"
    and yz: "\<not> dlt ?y ?z \<and> (dlt ?z ?y \<or> pr_rss_bytes z \<le> pr_rss_bytes y)"
  show "\<not> dlt ?x ?z" using dlt_weak [of ?y ?x ?z] A assms xy yz by auto
  show "dlt ?z ?x \<or> pr_rss_bytes z \<le> pr_rss_bytes x"
  proof (cases "dlt ?z ?x")
    case False
    have "\<not> dlt ?y ?x" using dlt_weak [of ?z ?y ?x] A assms yz False by auto
    moreover have "\<not> dlt ?z ?y" using dlt_weak [of ?x ?z ?y] A assms xy False by auto
    ultimately show ?thesis using xy yz by auto
  qed simp
qed


fun insert_by :: "('a \<Rightarrow> 'a \<Rightarrow> int) \<Rightarrow> 'a \<Rightarrow> 'a list \<Rightarrow> 'a list" where
  "insert_by cmp x [] = [x]"
| "insert_by cmp x (y # ys) = (if cmp x y \<le> 0 then x # y # ys else y # insert_by cmp x ys)"

definition insertion_sort :: "('a \<Rightarrow> 'a \<Rightarrow> int) \<Rightarrow> 'a list \<Rightarrow> 'a list" where
  "insertion_sort cmp xs = foldr (insert_by cmp) xs []"

lemma insert_by_mset: "mset (insert_by cmp x ys) = add_mset x (mset ys)"
  by (induction ys) auto

lemma insert_by_sorted:
  assumes "comparison_on A cmp" "x \<in> A" "set ys \<subseteq> A" "sorted_wrt (\<lambda>a b. cmp a b \<le> 0) ys"
  shows "sorted_wrt (\<lambda>a b. cmp a b \<le> 0) (insert_by cmp x ys)"
  using assms(3,4)
proof (induction ys)
  case (Cons y ys)
  have elems: "set (insert_by cmp x ys) = insert x (set ys)" by (metis insert_by_mset list.set(2) mset.simps(2) set_mset_mset)
  have trans: "cmp x z \<le> 0" if "cmp x y \<le> 0" "cmp y z \<le> 0" "z \<in> set ys" for z
    using assms(1,2) that Cons.prems unfolding comparison_on_def by (meson in_mono list.set_intros)
  have total: "cmp y x \<le> 0" if "\<not> cmp x y \<le> 0"
    using assms(1,2) that Cons.prems unfolding comparison_on_def by (meson in_mono list.set_intros)
  show ?case using Cons trans total elems by auto
qed simp

lemma insertion_sort_sorts: "sorts insertion_sort"
proof -
  have "mset (insertion_sort cmp xs) = mset xs \<and> sorted_wrt (\<lambda>a b. cmp a b \<le> 0) (insertion_sort cmp xs)"
    if "comparison_on A cmp" "set xs \<subseteq> A" for A :: "'a set" and cmp xs
    using that(2)
  proof (induction xs)
    case (Cons x xs)
    then have "set (insertion_sort cmp xs) \<subseteq> A" by (metis insert_subset list.set(2) set_mset_mset)
    with Cons show ?case using insert_by_sorted [OF that(1), of x "insertion_sort cmp xs"]
      by (simp add: insertion_sort_def insert_by_mset)
  qed (simp add: insertion_sort_def)
  then show ?thesis by (auto simp: sorts_def)
qed


end
