(* ===== verification/Collect.thy ===== *)
theory Collect
  imports Metrics Storage
begin

text \<open>
  \<^verbatim>\<open>app/collect.c\<close>, state and discovery: what a device offers is found at start-up and registered.
  The device is a parameter (\<open>world\<close>): the files below \<^verbatim>\<open>/proc\<close> and \<^verbatim>\<open>/sys\<close>, the answers of the VAPIX
  requests, \<open>statvfs\<close>, and the conversions of decimal fractions. \<open>None\<close> is an access outside an
  array. The parts of \<open>struct Collector\<close> are grouped into records; \<open>count\<close> fields are the lengths of
  lists.
\<close>

section \<open>The device\<close>

record vfs =
  vfs_blocks :: guint64
  vfs_frsize :: guint64
  vfs_bfree :: guint64
  vfs_bavail :: guint64

record world =
  w_file :: "string \<Rightarrow> string option"
  w_dir :: "string \<Rightarrow> string list option"
  w_is_dir :: "string \<Rightarrow> bool"
  w_exists :: "string \<Rightarrow> bool"
  w_vapix :: "string \<Rightarrow> string option"
  w_statvfs :: "string \<Rightarrow> vfs option"
  w_strtod :: "string \<Rightarrow> double"
  w_scan_lf :: lf_scanner

definition MAX_CORES :: nat where "MAX_CORES = 32"
definition MAX_IFACES :: nat where "MAX_IFACES = 32"
definition MAX_DISKS :: nat where "MAX_DISKS = 24"
definition MAX_MOUNTS :: nat where "MAX_MOUNTS = 16"
definition MAX_ZONES :: nat where "MAX_ZONES = 16"
definition MAX_SENSORS :: nat where "MAX_SENSORS = 16"
definition MAX_POE_PORTS :: nat where "MAX_POE_PORTS = 16"
definition SLOW_INTERVAL_S :: nat where "SLOW_INTERVAL_S = 30"

section \<open>State\<close>

record cpu_times =
  ct_total :: guint64
  ct_idle :: guint64

record cpu_group =
  cg_n_cores :: nat
  cg_usage :: guint
  cg_user :: guint
  cg_system :: guint
  cg_iowait :: guint
  cg_irq :: guint
  cg_steal :: guint
  cg_freq :: guint
  cg_core_usage :: "guint list"
  cg_core_freq :: "guint list"
  cg_prev_total :: cpu_times
  cg_prev_core :: "cpu_times list"
  cg_prev_field :: "guint64 list"

record system_group =
  sg_load1 :: guint
  sg_load5 :: guint
  sg_load15 :: guint
  sg_uptime :: guint
  sg_procs :: guint
  sg_procs_running :: guint
  sg_ctxt :: guint
  sg_sockets :: guint
  sg_tcp_inuse :: guint
  sg_udp_inuse :: guint
  sg_mem_total :: guint
  sg_mem_used :: guint
  sg_mem_free :: guint
  sg_mem_available :: guint
  sg_mem_buffers :: guint
  sg_mem_cached :: guint
  sg_mem_usage :: guint
  sg_swap_total :: guint
  sg_swap_used :: guint
  sg_swap_usage :: guint
  sg_prev_ctxt :: guint64

record iface =
  if_name :: string
  if_rx_bps :: guint
  if_tx_bps :: guint
  if_rx_pps :: guint
  if_tx_pps :: guint
  if_rx_err :: guint
  if_tx_err :: guint
  if_rx_drop :: guint
  if_tx_drop :: guint
  if_link :: guint
  if_up :: guint
  if_prev_rx_bytes :: guint64
  if_prev_tx_bytes :: guint64
  if_prev_rx_pkts :: guint64
  if_prev_tx_pkts :: guint64

record block_disk =
  bd_name :: string
  bd_read_bps :: guint
  bd_write_bps :: guint
  bd_read_iops :: guint
  bd_write_iops :: guint
  bd_util :: guint
  bd_prev_read_sectors :: guint64
  bd_prev_write_sectors :: guint64
  bd_prev_reads :: guint64
  bd_prev_writes :: guint64
  bd_prev_io_ms :: guint64

record mount_metrics =
  mm_mountpoint :: string
  mm_total :: guint
  mm_used :: guint
  mm_free :: guint
  mm_usage :: guint

record zone =
  zn_path :: string
  zn_idx :: guint

record sensor =
  sn_name :: string
  sn_idx :: guint

record poe_port =
  pp_port :: guint
  pp_power :: guint
  pp_allocated :: guint
  pp_class :: guint
  pp_connected :: guint

record collector =
  co_cpu :: cpu_group
  co_sys :: system_group
  co_ifaces :: "iface list"
  co_disks :: "block_disk list"
  co_mounts :: "mount_metrics list"
  co_zones :: "zone list"
  co_sensors :: "sensor list"
  co_fan_rpm :: guint
  co_heater :: guint
  co_poe :: "poe_port list"
  co_poe_total :: guint
  co_poe_budget :: guint
  co_flash_life :: guint
  co_flash_eol :: guint
  co_flash_life_path :: string
  co_flash_eol_path :: string
  co_slow_cache :: "gfloat list"
  co_is_slow :: "bool list"
  co_slow_deadline :: gint64
  co_prev_us :: gint64

definition zero_cpu :: cpu_group where
  "zero_cpu = \<lparr>cg_n_cores = 0, cg_usage = 0, cg_user = 0, cg_system = 0, cg_iowait = 0, cg_irq = 0, cg_steal = 0,
     cg_freq = 0, cg_core_usage = replicate MAX_CORES 0, cg_core_freq = replicate MAX_CORES 0,
     cg_prev_total = \<lparr>ct_total = 0, ct_idle = 0\<rparr>, cg_prev_core = replicate MAX_CORES \<lparr>ct_total = 0, ct_idle = 0\<rparr>,
     cg_prev_field = replicate 8 0\<rparr>"

definition zero_system :: system_group where
  "zero_system = \<lparr>sg_load1 = 0, sg_load5 = 0, sg_load15 = 0, sg_uptime = 0, sg_procs = 0, sg_procs_running = 0, sg_ctxt = 0,
     sg_sockets = 0, sg_tcp_inuse = 0, sg_udp_inuse = 0, sg_mem_total = 0, sg_mem_used = 0, sg_mem_free = 0,
     sg_mem_available = 0, sg_mem_buffers = 0, sg_mem_cached = 0, sg_mem_usage = 0, sg_swap_total = 0, sg_swap_used = 0,
     sg_swap_usage = 0, sg_prev_ctxt = 0\<rparr>"

definition zero_collector :: collector where
  "zero_collector = \<lparr>co_cpu = zero_cpu, co_sys = zero_system, co_ifaces = [], co_disks = [], co_mounts = [], co_zones = [],
     co_sensors = [], co_fan_rpm = 0, co_heater = 0, co_poe = [], co_poe_total = 0, co_poe_budget = 0, co_flash_life = 0,
     co_flash_eol = 0, co_flash_life_path = [], co_flash_eol_path = [], co_slow_cache = [], co_is_slow = [],
     co_slow_deadline = 0, co_prev_us = 0\<rparr>"

section \<open>Helpers\<close>

definition read_text :: "world \<Rightarrow> string \<Rightarrow> nat \<Rightarrow> string option" where
  "read_text w path len = (case w_file w path of None \<Rightarrow> None
     | Some t \<Rightarrow> let buf = take (len - 1) t in if buf = [] then None else Some buf)"

definition read_double :: "world \<Rightarrow> string \<Rightarrow> double \<Rightarrow> double" where
  "read_double w path fallback = (case read_text w path 64 of None \<Rightarrow> fallback | Some buf \<Rightarrow> w_strtod w buf)"

definition sanitize :: "string \<Rightarrow> nat \<Rightarrow> string" where
  "sanitize s len = map (\<lambda>c. if is_alnum c \<or> c = CHR ''_'' then c else CHR ''_'') (take (len - 1) s)"

text \<open>
  The registry and the collector go together. \<open>reg_list\<close> makes several registrations in order; each
  has an id, a label, a unit and a group. The buffers of id and label are cut as \<open>g_snprintf\<close> does.
\<close>

definition reg :: "string \<Rightarrow> string \<Rightarrow> string \<Rightarrow> string \<Rightarrow> metric_registry \<Rightarrow> (guint \<times> metric_registry) option" where
  "reg key label unit grp r = metrics_register r key (Some label) (Some unit) (Some grp)"

primrec reg_list :: "(string \<times> string \<times> string \<times> string) list \<Rightarrow> metric_registry \<Rightarrow> (guint list \<times> metric_registry) option" where
  "reg_list [] r = Some ([], r)"
| "reg_list (m # ms) r = (case m of (key, label, unit, grp) \<Rightarrow> do {
     (i, r1) \<leftarrow> reg key label unit grp r;
     (is, r2) \<leftarrow> reg_list ms r1;
     Some (i # is, r2)
   })"

definition id_text :: "string \<Rightarrow> string" where
  "id_text s = strlcpy METRIC_ID_MAX s"

definition label_text :: "string \<Rightarrow> string" where
  "label_text s = strlcpy METRIC_LABEL_MAX s"

definition show_guint :: "guint \<Rightarrow> string" where
  "show_guint n = show_nat (unat n)"

type_synonym discovery = "metric_registry \<times> collector"

section \<open>Processors and system\<close>

definition core_line_format :: "directive list" where
  "core_line_format = lits ''cpu'' @ [Uns, Ws]"

definition core_of_line :: "string \<Rightarrow> guint option" where
  "core_of_line line = (let vs = sscanf (\<lambda>_. None) core_line_format line in
     if length vs \<noteq> 1 then None else Some (guint_of64 (uval vs 0 0)))"

definition discover_core :: "guint \<Rightarrow> discovery \<Rightarrow> discovery option" where
  "discover_core core rc = (case rc of (r, c) \<Rightarrow> do {
     (i, r1) \<leftarrow> reg (id_text (''cpu.core'' @ show_guint core @ ''.usage'')) (label_text (''Core '' @ show_guint core @ '' usage''))
       ''%'' ''cpu'' r;
     us \<leftarrow> arr_set (unat core) i (cg_core_usage (co_cpu c));
     (j, r2) \<leftarrow> reg (id_text (''cpu.core'' @ show_guint core @ ''.freq'')) (label_text (''Core '' @ show_guint core @ '' frequency''))
       ''MHz'' ''cpu'' r1;
     fs \<leftarrow> arr_set (unat core) j (cg_core_freq (co_cpu c));
     Some (r2, c\<lparr>co_cpu := (co_cpu c)\<lparr>cg_core_usage := us, cg_core_freq := fs,
       cg_n_cores := max (cg_n_cores (co_cpu c)) (unat core + 1)\<rparr>\<rparr>)
   })"

fun discover_core_lines :: "string list \<Rightarrow> discovery \<Rightarrow> discovery option" where
  "discover_core_lines [] rc = Some rc"
| "discover_core_lines (line # lines) rc = (case core_of_line line of
       None \<Rightarrow> discover_core_lines lines rc
     | Some core \<Rightarrow> if MAX_CORES \<le> unat core then discover_core_lines lines rc
         else do { rc1 \<leftarrow> discover_core core rc; discover_core_lines lines rc1 })"

definition cpu_metrics :: "(string \<times> string \<times> string \<times> string) list" where
  "cpu_metrics = [(''cpu.usage'', ''CPU usage'', ''%'', ''cpu''), (''cpu.user'', ''CPU user'', ''%'', ''cpu''),
     (''cpu.system'', ''CPU system'', ''%'', ''cpu''), (''cpu.iowait'', ''CPU iowait'', ''%'', ''cpu''),
     (''cpu.irq'', ''CPU irq'', ''%'', ''cpu''), (''cpu.steal'', ''CPU steal'', ''%'', ''cpu''),
     (''cpu.freq'', ''CPU frequency'', ''MHz'', ''cpu'')]"

definition discover_cpu :: "world \<Rightarrow> discovery \<Rightarrow> discovery option" where
  "discover_cpu w rc = (case rc of (r, c) \<Rightarrow> do {
     (is, r1) \<leftarrow> reg_list cpu_metrics r;
     let c1 = c\<lparr>co_cpu := (co_cpu c)\<lparr>cg_usage := is ! 0, cg_user := is ! 1, cg_system := is ! 2, cg_iowait := is ! 3,
       cg_irq := is ! 4, cg_steal := is ! 5, cg_freq := is ! 6\<rparr>\<rparr>;
     (case w_file w ''/proc/stat'' of None \<Rightarrow> Some (r1, c1)
      | Some t \<Rightarrow> discover_core_lines (fgets_lines 512 t) (r1, c1))
   })"

definition system_metrics :: "(string \<times> string \<times> string \<times> string) list" where
  "system_metrics = [
     (''load.1'', ''Load average 1m'', '''', ''system''), (''load.5'', ''Load average 5m'', '''', ''system''),
     (''load.15'', ''Load average 15m'', '''', ''system''), (''sys.uptime'', ''Uptime'', ''s'', ''system''),
     (''sys.processes'', ''Processes'', '''', ''system''),
     (''sys.processes_running'', ''Runnable processes'', '''', ''system''),
     (''sys.context_switches'', ''Context switches'', ''/s'', ''system''),
     (''sys.sockets'', ''Sockets in use'', '''', ''system''), (''sys.tcp_inuse'', ''TCP sockets'', '''', ''system''),
     (''sys.udp_inuse'', ''UDP sockets'', '''', ''system''),
     (''mem.total'', ''Memory total'', ''B'', ''memory''), (''mem.used'', ''Memory used'', ''B'', ''memory''),
     (''mem.free'', ''Memory free'', ''B'', ''memory''), (''mem.available'', ''Memory available'', ''B'', ''memory''),
     (''mem.buffers'', ''Buffers'', ''B'', ''memory''), (''mem.cached'', ''Cached'', ''B'', ''memory''),
     (''mem.usage'', ''Memory usage'', ''%'', ''memory''), (''mem.swap_total'', ''Swap total'', ''B'', ''memory''),
     (''mem.swap_used'', ''Swap used'', ''B'', ''memory''), (''mem.swap_usage'', ''Swap usage'', ''%'', ''memory'')]"

definition discover_system :: "discovery \<Rightarrow> discovery option" where
  "discover_system rc = (case rc of (r, c) \<Rightarrow> do {
     (is, r1) \<leftarrow> reg_list system_metrics r;
     Some (r1, c\<lparr>co_sys := (co_sys c)\<lparr>sg_load1 := is ! 0, sg_load5 := is ! 1, sg_load15 := is ! 2, sg_uptime := is ! 3,
       sg_procs := is ! 4, sg_procs_running := is ! 5, sg_ctxt := is ! 6, sg_sockets := is ! 7, sg_tcp_inuse := is ! 8,
       sg_udp_inuse := is ! 9, sg_mem_total := is ! 10, sg_mem_used := is ! 11, sg_mem_free := is ! 12,
       sg_mem_available := is ! 13, sg_mem_buffers := is ! 14, sg_mem_cached := is ! 15, sg_mem_usage := is ! 16,
       sg_swap_total := is ! 17, sg_swap_used := is ! 18, sg_swap_usage := is ! 19\<rparr>\<rparr>)
   })"

section \<open>Zones, interfaces, disks\<close>

text \<open>A directory of zones ends at the first missing number.\<close>

fun discover_zones_from :: "world \<Rightarrow> nat list \<Rightarrow> discovery \<Rightarrow> discovery option" where
  "discover_zones_from w [] rc = Some rc"
| "discover_zones_from w (i # is) rc =
     (case read_text w (strlcpy 160 (''/sys/class/thermal/thermal_zone'' @ show_nat i @ ''/type'')) 64 of
        None \<Rightarrow> Some rc
      | Some buf \<Rightarrow> (case rc of (r, c) \<Rightarrow> do {
          let kind = strstrip buf;
          (idx, r1) \<leftarrow> reg (id_text (''temp.'' @ sanitize kind 64)) (label_text (kind @ '' temperature'')) ''C'' ''temperature'' r;
          discover_zones_from w is (r1, c\<lparr>co_zones := co_zones c @
            [\<lparr>zn_path = strlcpy 128 (''/sys/class/thermal/thermal_zone'' @ show_nat i @ ''/temp''), zn_idx = idx\<rparr>]\<rparr>)
        }))"

definition discover_zones :: "world \<Rightarrow> discovery \<Rightarrow> discovery option" where
  "discover_zones w rc = discover_zones_from w [0..<MAX_ZONES] rc"

definition device_metric :: "string \<Rightarrow> string \<Rightarrow> string \<Rightarrow> string \<Rightarrow> string \<times> string \<times> string
    \<Rightarrow> string \<times> string \<times> string \<times> string" where
  "device_metric kind safe name grp m = (case m of (suffix, words, unit) \<Rightarrow>
     (id_text (kind @ safe @ CHR ''.'' # suffix), label_text (name @ CHR '' '' # words), unit, grp))"

definition iface_metrics :: "string \<Rightarrow> (string \<times> string \<times> string \<times> string) list" where
  "iface_metrics name = map (device_metric ''net.'' (sanitize name 32) name ''network'')
     [(''rx_bps'', ''receive'', ''B/s''), (''tx_bps'', ''transmit'', ''B/s''),
      (''rx_pps'', ''receive packets'', ''/s''), (''tx_pps'', ''transmit packets'', ''/s''),
      (''rx_errors'', ''receive errors'', ''''), (''tx_errors'', ''transmit errors'', ''''),
      (''rx_drops'', ''receive drops'', ''''), (''tx_drops'', ''transmit drops'', ''''),
      (''link'', ''link speed'', ''Mb/s''), (''up'', ''link up'', '''')]"

text \<open>The name and the counters of a line of \<^verbatim>\<open>/proc/net/dev\<close>.\<close>

definition iface_line :: "string \<Rightarrow> (string \<times> string) option" where
  "iface_line line = (case strchr line CHR '':'' of None \<Rightarrow> None
     | Some after \<Rightarrow> Some (strstrip (take (length line - length after) line), tl after))"

definition new_iface :: "string \<Rightarrow> guint list \<Rightarrow> iface" where
  "new_iface name is = \<lparr>if_name = strlcpy 32 name, if_rx_bps = is ! 0, if_tx_bps = is ! 1,
       if_rx_pps = is ! 2, if_tx_pps = is ! 3, if_rx_err = is ! 4, if_tx_err = is ! 5, if_rx_drop = is ! 6, if_tx_drop = is ! 7,
       if_link = is ! 8, if_up = is ! 9, if_prev_rx_bytes = 0, if_prev_tx_bytes = 0, if_prev_rx_pkts = 0,
       if_prev_tx_pkts = 0\<rparr>"

definition discover_iface :: "string \<Rightarrow> discovery \<Rightarrow> discovery option" where
  "discover_iface name rc = (case rc of (r, c) \<Rightarrow> do {
     (is, r1) \<leftarrow> reg_list (iface_metrics name) r;
     Some (r1, c\<lparr>co_ifaces := co_ifaces c @ [new_iface name is]\<rparr>)
   })"

fun discover_iface_lines :: "string list \<Rightarrow> discovery \<Rightarrow> discovery option" where
  "discover_iface_lines [] rc = Some rc"
| "discover_iface_lines (line # lines) rc = (if MAX_IFACES \<le> length (co_ifaces (snd rc)) then Some rc
     else case iface_line line of None \<Rightarrow> discover_iface_lines lines rc
     | Some (name, counters) \<Rightarrow> if name = ''lo'' then discover_iface_lines lines rc
         else do { rc1 \<leftarrow> discover_iface name rc; discover_iface_lines lines rc1 })"

definition discover_ifaces :: "world \<Rightarrow> discovery \<Rightarrow> discovery option" where
  "discover_ifaces w rc = (case w_file w ''/proc/net/dev'' of None \<Rightarrow> Some rc
     | Some t \<Rightarrow> discover_iface_lines (drop 2 (fgets_lines 512 t)) rc)"

definition disk_metrics :: "string \<Rightarrow> (string \<times> string \<times> string \<times> string) list" where
  "disk_metrics name = map (device_metric ''disk.'' (sanitize name 32) name ''disk'')
     [(''read_bps'', ''read'', ''B/s''), (''write_bps'', ''write'', ''B/s''), (''read_iops'', ''read ops'', ''/s''),
      (''write_iops'', ''write ops'', ''/s''), (''util'', ''utilisation'', ''%'')]"

definition disk_name_format :: "directive list" where
  "disk_name_format = [Ws, SkipUns, Ws, SkipUns, Ws, StrW 31]"

definition disk_line_name :: "world \<Rightarrow> string \<Rightarrow> string option" where
  "disk_line_name w line = (let vs = sscanf (\<lambda>_. None) disk_name_format line; name = strval vs 0 [] in
     if length vs \<noteq> 1 then None
     else if has_prefix name ''loop'' \<or> has_prefix name ''ram'' then None
     else if \<not> w_is_dir w (strlcpy 128 (''/sys/block/'' @ name)) then None
     else Some name)"

definition new_disk :: "string \<Rightarrow> guint list \<Rightarrow> block_disk" where
  "new_disk name is = \<lparr>bd_name = strlcpy 32 name, bd_read_bps = is ! 0, bd_write_bps = is ! 1,
       bd_read_iops = is ! 2, bd_write_iops = is ! 3, bd_util = is ! 4, bd_prev_read_sectors = 0, bd_prev_write_sectors = 0,
       bd_prev_reads = 0, bd_prev_writes = 0, bd_prev_io_ms = 0\<rparr>"

definition discover_disk :: "string \<Rightarrow> discovery \<Rightarrow> discovery option" where
  "discover_disk name rc = (case rc of (r, c) \<Rightarrow> do {
     (is, r1) \<leftarrow> reg_list (disk_metrics name) r;
     Some (r1, c\<lparr>co_disks := co_disks c @ [new_disk name is]\<rparr>)
   })"

fun discover_disk_lines :: "world \<Rightarrow> string list \<Rightarrow> discovery \<Rightarrow> discovery option" where
  "discover_disk_lines w [] rc = Some rc"
| "discover_disk_lines w (line # lines) rc = (if MAX_DISKS \<le> length (co_disks (snd rc)) then Some rc
     else case disk_line_name w line of None \<Rightarrow> discover_disk_lines w lines rc
     | Some name \<Rightarrow> do { rc1 \<leftarrow> discover_disk name rc; discover_disk_lines w lines rc1 })"

definition discover_disks :: "world \<Rightarrow> discovery \<Rightarrow> discovery option" where
  "discover_disks w rc = (case w_file w ''/proc/diskstats'' of None \<Rightarrow> Some rc
     | Some t \<Rightarrow> discover_disk_lines w (fgets_lines 512 t) rc)"

section \<open>Mounts\<close>

definition kept_fstypes :: "string list" where
  "kept_fstypes = [''ext2'', ''ext3'', ''ext4'', ''xfs'', ''f2fs'', ''vfat'', ''exfat'', ''ubifs'', ''cifs'', ''nfs'']"

definition mount_is_interesting :: "mount \<Rightarrow> bool" where
  "mount_is_interesting m = (if \<not> has_prefix (mnt_device m) ''/dev/'' \<and> mnt_fstype m \<noteq> ''cifs'' \<and> mnt_fstype m \<noteq> ''nfs'' then False
     else if has_prefix (mnt_point m) ''/var/volatile'' then False
     else if has_prefix (mnt_options m) ''ro,'' \<or> mnt_options m = ''ro'' then False
     else mnt_fstype m \<in> set kept_fstypes)"

definition mount_short_name :: "string \<Rightarrow> string" where
  "mount_short_name mountpoint = (if mountpoint = ''/'' then ''root''
     else if has_prefix mountpoint ''/var/spool/storage/areas/'' then drop 25 mountpoint
     else if has_prefix mountpoint ''/var/spool/storage/'' then drop 19 mountpoint
     else drop 1 mountpoint)"

definition fs_metrics :: "string \<Rightarrow> (string \<times> string \<times> string \<times> string) list" where
  "fs_metrics mountpoint = map (device_metric ''fs.'' (sanitize (mount_short_name mountpoint) 128) mountpoint ''storage'')
     [(''total'', ''total'', ''B''), (''used'', ''used'', ''B''), (''free'', ''free'', ''B''), (''usage'', ''usage'', ''%'')]"

definition new_mount :: "string \<Rightarrow> guint list \<Rightarrow> mount_metrics" where
  "new_mount mountpoint is = \<lparr>mm_mountpoint = strlcpy 128 mountpoint, mm_total = is ! 0, mm_used = is ! 1,
       mm_free = is ! 2, mm_usage = is ! 3\<rparr>"

definition discover_mount :: "string \<Rightarrow> discovery \<Rightarrow> discovery option" where
  "discover_mount mountpoint rc = (case rc of (r, c) \<Rightarrow> do {
     (is, r1) \<leftarrow> reg_list (fs_metrics mountpoint) r;
     Some (r1, c\<lparr>co_mounts := co_mounts c @ [new_mount mountpoint is]\<rparr>)
   })"

text \<open>\<open>seen\<close> has room for \<open>MAX_MOUNTS\<close> devices, one for every mount that is kept.\<close>

fun discover_mount_entries :: "mount list \<Rightarrow> string list \<Rightarrow> discovery \<Rightarrow> discovery option" where
  "discover_mount_entries [] seen rc = Some rc"
| "discover_mount_entries (m # ms) seen rc = (if MAX_MOUNTS \<le> length (co_mounts (snd rc)) then Some rc
     else if \<not> mount_is_interesting m then discover_mount_entries ms seen rc
     else if mnt_device m \<in> set seen then discover_mount_entries ms seen rc
     else if MAX_MOUNTS \<le> length seen then None
     else do { rc1 \<leftarrow> discover_mount (mnt_point m) rc; discover_mount_entries ms (seen @ [strlcpy 128 (mnt_device m)]) rc1 })"

definition discover_mounts :: "world \<Rightarrow> discovery \<Rightarrow> discovery option" where
  "discover_mounts w rc = (case w_file w ''/proc/mounts'' of None \<Rightarrow> Some rc
     | Some t \<Rightarrow> discover_mount_entries (mounts_entries t) [] rc)"

fun count_mounts :: "mount list \<Rightarrow> string list \<Rightarrow> nat" where
  "count_mounts [] seen = length seen"
| "count_mounts (m # ms) seen = (if MAX_MOUNTS \<le> length seen then length seen
     else if \<not> mount_is_interesting m then count_mounts ms seen
     else if mnt_device m \<in> set seen then count_mounts ms seen
     else count_mounts ms (seen @ [strlcpy 128 (mnt_device m)]))"

definition collector_mounts_changed :: "world \<Rightarrow> collector \<Rightarrow> bool" where
  "collector_mounts_changed w c = (case w_file w ''/proc/mounts'' of None \<Rightarrow> False
     | Some t \<Rightarrow> count_mounts (mounts_entries t) [] \<noteq> length (co_mounts c))"

section \<open>Sources behind a request\<close>

definition sensor_format :: "directive list" where
  "sensor_format = lits ''Sensor.S'' @ [Uns] @ lits ''.Name='' @ [StrW 47]"

definition sensor_line :: "string \<Rightarrow> (string \<times> guint64) option" where
  "sensor_line line = (let vs = sscanf (\<lambda>_. None) sensor_format line in
     if length vs \<noteq> 2 then None else Some (strstrip (strval vs 1 []), uval vs 0 0))"

definition discover_sensor :: "string \<times> guint64 \<Rightarrow> discovery \<Rightarrow> discovery option" where
  "discover_sensor s rc = (case rc of (r, c) \<Rightarrow> do {
     (idx, r1) \<leftarrow> reg (id_text (''sensor.'' @ sanitize (fst s) 48)) (label_text (fst s @ '' temperature'')) ''C'' ''temperature'' r;
     Some (r1, c\<lparr>co_sensors := co_sensors c @
       [\<lparr>sn_name = strlcpy 48 (''Sensor.S'' @ show_guint (guint_of64 (snd s)) @ ''.Celsius''), sn_idx = idx\<rparr>]\<rparr>)
   })"

fun discover_sensor_lines :: "string list \<Rightarrow> discovery \<Rightarrow> discovery option" where
  "discover_sensor_lines [] rc = Some rc"
| "discover_sensor_lines (line # lines) rc = (if MAX_SENSORS \<le> length (co_sensors (snd rc)) then Some rc
     else case sensor_line line of None \<Rightarrow> discover_sensor_lines lines rc
     | Some s \<Rightarrow> do { rc1 \<leftarrow> discover_sensor s rc; discover_sensor_lines lines rc1 })"

definition discover_sensors :: "world \<Rightarrow> discovery \<Rightarrow> discovery option" where
  "discover_sensors w rc = (case w_vapix w ''temperaturecontrol.cgi'' of None \<Rightarrow> Some rc
     | Some body \<Rightarrow> do {
         (r, c) \<leftarrow> discover_sensor_lines (strsplit CHR 0x0A body) rc;
         (r, c) \<leftarrow> (if strstr body ''Fan.F0.'' \<noteq> None
           then do { (i, r) \<leftarrow> reg ''sensor.fan_rpm'' ''Fan speed'' ''rpm'' ''temperature'' r; Some (r, c\<lparr>co_fan_rpm := i\<rparr>) }
           else Some (r, c));
         if strstr body ''Heater.H0.'' \<noteq> None
           then do { (i, r) \<leftarrow> reg ''sensor.heater'' ''Heater running'' '''' ''temperature'' r; Some (r, c\<lparr>co_heater := i\<rparr>) }
           else Some (r, c)
       })"

text \<open>The numbers after at most \<open>n\<close> occurrences of the tag.\<close>

primrec poe_ports :: "nat \<Rightarrow> string \<Rightarrow> guint list" where
  "poe_ports 0 s = []"
| "poe_ports (Suc n) s = (case strstr s ''<Port>'' of None \<Rightarrow> []
     | Some t \<Rightarrow> guint_of64 (strtoull10 (drop 6 t)) # poe_ports n (drop 6 t))"

definition poe_metrics :: "guint \<Rightarrow> (string \<times> string \<times> string \<times> string) list" where
  "poe_metrics port = map (\<lambda>(suffix, words, unit). (id_text (''poe.port'' @ show_guint port @ CHR ''.'' # suffix),
       label_text (''PoE port '' @ show_guint port @ CHR '' '' # words), unit, ''poe''))
     [(''power'', ''power draw'', ''W''), (''allocated'', ''allocated power'', ''W''), (''class'', ''PoE class'', ''''),
      (''connected'', ''device connected'', '''')]"

definition new_poe_port :: "guint \<Rightarrow> guint list \<Rightarrow> poe_port" where
  "new_poe_port port is = \<lparr>pp_port = port, pp_power = is ! 0, pp_allocated = is ! 1, pp_class = is ! 2,
       pp_connected = is ! 3\<rparr>"

definition discover_poe_port :: "guint \<Rightarrow> discovery \<Rightarrow> discovery option" where
  "discover_poe_port port rc = (case rc of (r, c) \<Rightarrow> do {
     (is, r1) \<leftarrow> reg_list (poe_metrics port) r;
     Some (r1, c\<lparr>co_poe := co_poe c @ [new_poe_port port is]\<rparr>)
   })"

fun discover_poe_ports :: "guint list \<Rightarrow> discovery \<Rightarrow> discovery option" where
  "discover_poe_ports [] rc = Some rc"
| "discover_poe_ports (p # ps) rc = do { rc1 \<leftarrow> discover_poe_port p rc; discover_poe_ports ps rc1 }"

definition poe_request :: string where "poe_request = ''nvr/poe/getportstatuses.cgi''"

definition discover_poe :: "world \<Rightarrow> discovery \<Rightarrow> discovery option" where
  "discover_poe w rc = (case w_vapix w poe_request of None \<Rightarrow> Some rc
     | Some body \<Rightarrow> if strstr body ''<PortStatus>'' = None then Some rc
         else do {
           (r, c) \<leftarrow> discover_poe_ports (poe_ports (MAX_POE_PORTS - length (co_poe (snd rc))) body) rc;
           if co_poe c \<noteq> [] then do {
             (i, r) \<leftarrow> reg ''poe.total'' ''PoE total draw'' ''W'' ''poe'' r;
             (j, r) \<leftarrow> reg ''poe.budget'' ''PoE budget'' ''W'' ''poe'' r;
             Some (r, c\<lparr>co_poe_total := i, co_poe_budget := j\<rparr>)
           } else Some (r, c)
         })"

text \<open>The first card of the first host that reports its wear.\<close>

definition flash_path :: "string \<Rightarrow> string \<Rightarrow> string \<Rightarrow> string" where
  "flash_path pattern entry leaf = strlcpy 192 (pattern @ CHR ''/'' # entry @ CHR ''/'' # leaf)"

fun flash_card :: "world \<Rightarrow> string \<Rightarrow> string list \<Rightarrow> (string \<times> string) option" where
  "flash_card w pattern [] = None"
| "flash_card w pattern (entry # cards) = (if \<not> w_exists w (flash_path pattern entry ''life_time'') then flash_card w pattern cards
     else Some (flash_path pattern entry ''life_time'', flash_path pattern entry ''pre_eol_info''))"

fun flash_host :: "world \<Rightarrow> string list \<Rightarrow> (string \<times> string) option" where
  "flash_host w [] = None"
| "flash_host w (host # hosts) = (let pattern = strlcpy 192 (''/sys/class/mmc_host/'' @ host) in
     case w_dir w pattern of None \<Rightarrow> flash_host w hosts
     | Some cards \<Rightarrow> (case flash_card w pattern cards of None \<Rightarrow> flash_host w hosts | Some paths \<Rightarrow> Some paths))"

definition discover_flash_wear :: "world \<Rightarrow> discovery \<Rightarrow> discovery option" where
  "discover_flash_wear w rc = (case w_dir w ''/sys/class/mmc_host'' of None \<Rightarrow> Some rc
     | Some hosts \<Rightarrow> (case flash_host w hosts of None \<Rightarrow> Some rc
         | Some (life, eol) \<Rightarrow> (case rc of (r, c) \<Rightarrow> do {
             (i, r) \<leftarrow> reg ''flash.life_used'' ''Flash life used'' ''%'' ''storage'' r;
             (j, r) \<leftarrow> reg ''flash.pre_eol'' ''Flash pre-EOL state'' '''' ''storage'' r;
             Some (r, c\<lparr>co_flash_life_path := strlcpy 160 life, co_flash_eol_path := strlcpy 160 eol,
               co_flash_life := i, co_flash_eol := j\<rparr>)
           })))"

section \<open>A collector\<close>

primrec mark_all :: "guint list \<Rightarrow> bool list \<Rightarrow> bool list option" where
  "mark_all [] bs = Some bs"
| "mark_all (i # is) bs = do { bs1 \<leftarrow> arr_set (unat i) True bs; mark_all is bs1 }"

definition slow_indices :: "collector \<Rightarrow> guint list" where
  "slow_indices c = map sn_idx (co_sensors c) @ filter (\<lambda>i. i \<noteq> 0) [co_fan_rpm c, co_heater c]
     @ concat (map (\<lambda>p. [pp_power p, pp_allocated p, pp_class p, pp_connected p]) (co_poe c))
     @ filter (\<lambda>i. i \<noteq> 0) [co_poe_total c, co_poe_budget c, co_flash_life c, co_flash_eol c]"

definition mark_slow :: "collector \<Rightarrow> collector option" where
  "mark_slow c = do { bs \<leftarrow> mark_all (slow_indices c) (co_is_slow c); Some (c\<lparr>co_is_slow := bs\<rparr>) }"

definition discover_all :: "world \<Rightarrow> discovery \<Rightarrow> discovery option" where
  "discover_all w rc = do {
     rc \<leftarrow> discover_cpu w rc; rc \<leftarrow> discover_system rc; rc \<leftarrow> discover_zones w rc; rc \<leftarrow> discover_ifaces w rc;
     rc \<leftarrow> discover_disks w rc; rc \<leftarrow> discover_mounts w rc; rc \<leftarrow> discover_sensors w rc; rc \<leftarrow> discover_poe w rc;
     discover_flash_wear w rc
   }"

definition collector_new :: "world \<Rightarrow> metric_registry \<Rightarrow> discovery option" where
  "collector_new w registry = do {
     (r, c) \<leftarrow> discover_all w (registry, zero_collector);
     c1 \<leftarrow> mark_slow (c\<lparr>co_slow_cache := replicate (unat (reg_count r)) f32_nan,
       co_is_slow := replicate (unat (reg_count r)) False\<rparr>);
     Some (r, c1)
   }"

end
