(* ===== verification/Sample.thy ===== *)
theory Sample
  imports Collect
begin

text \<open>
  \<^verbatim>\<open>app/collect.c\<close>, sampling: every reading is written into the array of values at the index its
  metric has. \<open>None\<close> is a write outside that array or an access outside one of the collector's.
\<close>

section \<open>Writing readings\<close>

definition set_value :: "guint \<Rightarrow> double \<Rightarrow> gfloat list \<Rightarrow> gfloat list option" where
  "set_value idx v vs = arr_set (unat idx) (double_to_f32 v) vs"

text \<open>Several readings in order.\<close>

primrec set_values :: "(guint \<times> double) list \<Rightarrow> gfloat list \<Rightarrow> gfloat list option" where
  "set_values [] vs = Some vs"
| "set_values (iv # ivs) vs = do { vs1 \<leftarrow> set_value (fst iv) (snd iv) vs; set_values ivs vs1 }"

definition u64_double :: "guint64 \<Rightarrow> double" where
  "u64_double n = to_double (of_nat (unat n))"

definition num :: "rat \<Rightarrow> double" where
  "num q = to_double q"

definition rate :: "guint64 \<Rightarrow> guint64 \<Rightarrow> double \<Rightarrow> double" where
  "rate now prev seconds = (if \<not> dlt (DFin 0) seconds \<and> \<not> isnan seconds \<or> now < prev then DNaN
     else ddiv (u64_double (now - prev)) seconds)"

type_synonym sampling = "collector \<times> gfloat list"

section \<open>Processors\<close>

definition cpu_fields_format :: "directive list" where
  "cpu_fields_format = [Uns, Ws, Uns, Ws, Uns, Ws, Uns, Ws, Uns, Ws, Uns, Ws, Uns, Ws, Uns]"

definition cpu_fields :: "string \<Rightarrow> guint64 list" where
  "cpu_fields rest = (let vs = sscanf (\<lambda>_. None) cpu_fields_format rest in map (\<lambda>i. uval vs i 0) [0..<8])"

definition cpu_usage :: "bool \<Rightarrow> cpu_times \<Rightarrow> cpu_times \<Rightarrow> double" where
  "cpu_usage first prev now = (let dt = ct_total now - ct_total prev; didle = ct_idle now - ct_idle prev in
     if \<not> first \<and> ct_total prev < ct_total now \<and> didle \<le> dt
     then ddiv (dmul (num 100) (u64_double (dt - didle))) (u64_double dt) else DNaN)"

definition cpu_total :: "guint64 list \<Rightarrow> cpu_times" where
  "cpu_total v = \<lparr>ct_total = sum_list v, ct_idle = v ! 3 + v ! 4\<rparr>"

text \<open>The readings of the line of all processors.\<close>

definition cpu_shares :: "bool \<Rightarrow> cpu_group \<Rightarrow> guint64 list \<Rightarrow> (guint \<times> double) list" where
  "cpu_shares first g v = (let dt = sum_list v - ct_total (cg_prev_total g); p = cg_prev_field g;
       scale = ddiv (num 100) (u64_double dt) in
     if \<not> first \<and> 0 < dt then
       [(cg_user g, dmul (u64_double (v ! 0 + v ! 1 - p ! 0 - p ! 1)) scale),
        (cg_system g, dmul (u64_double (v ! 2 + v ! 6 - p ! 2 - p ! 6)) scale),
        (cg_iowait g, dmul (u64_double (v ! 4 - p ! 4)) scale),
        (cg_irq g, dmul (u64_double (v ! 5 - p ! 5)) scale),
        (cg_steal g, dmul (u64_double (v ! 7 - p ! 7)) scale)]
     else [])"

definition sample_all_cpus :: "bool \<Rightarrow> guint64 list \<Rightarrow> sampling \<Rightarrow> sampling option" where
  "sample_all_cpus first v cv = (case cv of (c, vs) \<Rightarrow> let g = co_cpu c; now = cpu_total v in do {
     vs1 \<leftarrow> set_values ((cg_usage g, cpu_usage first (cg_prev_total g) now) # cpu_shares first g v) vs;
     Some (c\<lparr>co_cpu := g\<lparr>cg_prev_field := v, cg_prev_total := now\<rparr>\<rparr>, vs1)
   })"

definition sample_core :: "bool \<Rightarrow> guint \<Rightarrow> guint64 list \<Rightarrow> sampling \<Rightarrow> sampling option" where
  "sample_core first core v cv = (case cv of (c, vs) \<Rightarrow> let g = co_cpu c; now = cpu_total v in do {
     prev \<leftarrow> arr_get (cg_prev_core g) (unat core);
     idx \<leftarrow> arr_get (cg_core_usage g) (unat core);
     vs1 \<leftarrow> set_value idx (cpu_usage first prev now) vs;
     prevs \<leftarrow> arr_set (unat core) now (cg_prev_core g);
     Some (c\<lparr>co_cpu := g\<lparr>cg_prev_core := prevs\<rparr>\<rparr>, vs1)
   })"

definition sample_cpu_line :: "double \<Rightarrow> bool \<Rightarrow> string \<Rightarrow> sampling \<Rightarrow> sampling option" where
  "sample_cpu_line seconds first line cv = (case cv of (c, vs) \<Rightarrow>
     if has_prefix line ''ctxt '' then (let ctxt = strtoull10 (drop 5 line) in do {
         vs1 \<leftarrow> (if \<not> first then set_value (sg_ctxt (co_sys c)) (rate ctxt (sg_prev_ctxt (co_sys c)) seconds) vs else Some vs);
         Some (c\<lparr>co_sys := (co_sys c)\<lparr>sg_prev_ctxt := ctxt\<rparr>\<rparr>, vs1) })
     else if has_prefix line ''procs_running '' then do {
         vs1 \<leftarrow> set_value (sg_procs_running (co_sys c)) (u64_double (strtoull10 (drop 14 line))) vs;
         Some (c, vs1) }
     else if \<not> has_prefix line ''cpu'' then Some (c, vs)
     else if 3 < length line \<and> line ! 3 = CHR '' '' then sample_all_cpus first (cpu_fields (drop 4 line)) (c, vs)
     else (case core_of_line line of None \<Rightarrow> Some (c, vs)
       | Some core \<Rightarrow> if cg_n_cores (co_cpu c) \<le> unat core then Some (c, vs)
           else (case strchr line CHR '' '' of None \<Rightarrow> Some (c, vs)
             | Some rest \<Rightarrow> sample_core first core (cpu_fields rest) (c, vs))))"

fun sample_cpu_lines :: "double \<Rightarrow> bool \<Rightarrow> string list \<Rightarrow> sampling \<Rightarrow> sampling option" where
  "sample_cpu_lines seconds first [] cv = Some cv"
| "sample_cpu_lines seconds first (line # lines) cv = do {
     cv1 \<leftarrow> sample_cpu_line seconds first line cv; sample_cpu_lines seconds first lines cv1 }"

definition freq_path :: "nat \<Rightarrow> string" where
  "freq_path core = strlcpy 128 (''/sys/devices/system/cpu/cpu'' @ show_nat core @ ''/cpufreq/scaling_cur_freq'')"

fun sample_freqs :: "world \<Rightarrow> cpu_group \<Rightarrow> nat list \<Rightarrow> double \<Rightarrow> nat \<Rightarrow> gfloat list \<Rightarrow> gfloat list option" where
  "sample_freqs w g [] acc n vs = set_value (cg_freq g) (if n \<noteq> 0 then ddiv acc (num (of_nat n)) else DNaN) vs"
| "sample_freqs w g (core # cores) acc n vs = (let khz = read_double w (freq_path core) DNaN in
     if isnan khz then sample_freqs w g cores acc n vs
     else do {
       idx \<leftarrow> arr_get (cg_core_freq g) core;
       vs1 \<leftarrow> set_value idx (ddiv khz (num 1000)) vs;
       sample_freqs w g cores (dadd acc (ddiv khz (num 1000))) (Suc n) vs1
     })"

definition sample_cpu :: "world \<Rightarrow> double \<Rightarrow> bool \<Rightarrow> sampling \<Rightarrow> sampling option" where
  "sample_cpu w seconds first cv = (case w_file w ''/proc/stat'' of None \<Rightarrow> Some cv
     | Some t \<Rightarrow> do {
         (c, vs) \<leftarrow> sample_cpu_lines seconds first (fgets_lines 512 t) cv;
         vs1 \<leftarrow> sample_freqs w (co_cpu c) [0..<cg_n_cores (co_cpu c)] (DFin 0) 0 vs;
         Some (c, vs1)
       })"

section \<open>Memory and system\<close>

record meminfo =
  mi_total :: guint64
  mi_free :: guint64
  mi_available :: guint64
  mi_buffers :: guint64
  mi_cached :: guint64
  mi_swap_total :: guint64
  mi_swap_free :: guint64

definition meminfo_value :: "string \<Rightarrow> string \<Rightarrow> guint64 option" where
  "meminfo_value key line = (let vs = sscanf (\<lambda>_. None) (lits key @ lits '': '' @ [Uns] @ lits '' kB'') line in
     if length vs = 1 then Some (uval vs 0 0) else None)"

definition meminfo_line :: "string \<Rightarrow> meminfo \<Rightarrow> meminfo" where
  "meminfo_line line m = (case meminfo_value ''MemTotal'' line of Some v \<Rightarrow> m\<lparr>mi_total := v\<rparr> | None \<Rightarrow>
     (case meminfo_value ''MemFree'' line of Some v \<Rightarrow> m\<lparr>mi_free := v\<rparr> | None \<Rightarrow>
     (case meminfo_value ''MemAvailable'' line of Some v \<Rightarrow> m\<lparr>mi_available := v\<rparr> | None \<Rightarrow>
     (case meminfo_value ''Buffers'' line of Some v \<Rightarrow> m\<lparr>mi_buffers := v\<rparr> | None \<Rightarrow>
     (case meminfo_value ''Cached'' line of Some v \<Rightarrow> m\<lparr>mi_cached := v\<rparr> | None \<Rightarrow>
     (case meminfo_value ''SwapTotal'' line of Some v \<Rightarrow> m\<lparr>mi_swap_total := v\<rparr> | None \<Rightarrow>
     (case meminfo_value ''SwapFree'' line of Some v \<Rightarrow> m\<lparr>mi_swap_free := v\<rparr> | None \<Rightarrow> m)))))))"

definition kilobytes :: "guint64 \<Rightarrow> double" where
  "kilobytes n = dmul (u64_double n) (num 1024)"

definition percentage :: "guint64 \<Rightarrow> guint64 \<Rightarrow> double" where
  "percentage part whole = (if whole \<noteq> 0 then ddiv (dmul (num 100) (u64_double part)) (u64_double whole) else DNaN)"

definition memory_readings :: "system_group \<Rightarrow> meminfo \<Rightarrow> (guint \<times> double) list" where
  "memory_readings g m = [(sg_mem_total g, kilobytes (mi_total m)), (sg_mem_free g, kilobytes (mi_free m)),
     (sg_mem_available g, kilobytes (mi_available m)), (sg_mem_buffers g, kilobytes (mi_buffers m)),
     (sg_mem_cached g, kilobytes (mi_cached m)), (sg_mem_used g, kilobytes (mi_total m - mi_available m)),
     (sg_mem_usage g, percentage (mi_total m - mi_available m) (mi_total m)),
     (sg_swap_total g, kilobytes (mi_swap_total m)), (sg_swap_used g, kilobytes (mi_swap_total m - mi_swap_free m)),
     (sg_swap_usage g, percentage (mi_swap_total m - mi_swap_free m) (mi_swap_total m))]"

definition sample_memory :: "world \<Rightarrow> collector \<Rightarrow> gfloat list \<Rightarrow> gfloat list option" where
  "sample_memory w c vs = (case w_file w ''/proc/meminfo'' of None \<Rightarrow> Some vs
     | Some t \<Rightarrow> set_values (memory_readings (co_sys c) (foldl (\<lambda>m line. meminfo_line line m)
         \<lparr>mi_total = 0, mi_free = 0, mi_available = 0, mi_buffers = 0, mi_cached = 0, mi_swap_total = 0, mi_swap_free = 0\<rparr>
         (fgets_lines 128 t))) vs)"

definition loadavg_format :: "directive list" where
  "loadavg_format = [Dbl, Ws, Dbl, Ws, Dbl, Ws, SkipUns, Lit CHR ''/'', Uns]"

definition load_readings :: "world \<Rightarrow> system_group \<Rightarrow> (guint \<times> double) list" where
  "load_readings w g = (case read_text w ''/proc/loadavg'' 256 of None \<Rightarrow> []
     | Some buf \<Rightarrow> let vs = sscanf (w_scan_lf w) loadavg_format buf in
         [(sg_load1 g, dval vs 0 (DFin 0)), (sg_load5 g, dval vs 1 (DFin 0)), (sg_load15 g, dval vs 2 (DFin 0)),
          (sg_procs g, num (of_nat (unat (guint_of64 (uval vs 3 0)))))])"

definition socket_value :: "string \<Rightarrow> string \<Rightarrow> double option" where
  "socket_value key line = (let vs = sscanf (\<lambda>_. None) (lits key @ [Uns]) line in
     if length vs = 1 then Some (num (of_nat (unat (guint_of64 (uval vs 0 0))))) else None)"

definition socket_reading :: "system_group \<Rightarrow> string \<Rightarrow> (guint \<times> double) list" where
  "socket_reading g line = (case socket_value ''sockets: used '' line of Some v \<Rightarrow> [(sg_sockets g, v)] | None \<Rightarrow>
     (case socket_value ''TCP: inuse '' line of Some v \<Rightarrow> [(sg_tcp_inuse g, v)] | None \<Rightarrow>
     (case socket_value ''UDP: inuse '' line of Some v \<Rightarrow> [(sg_udp_inuse g, v)] | None \<Rightarrow> [])))"

definition sample_system :: "world \<Rightarrow> collector \<Rightarrow> gfloat list \<Rightarrow> gfloat list option" where
  "sample_system w c vs = set_values (load_readings w (co_sys c) @ [(sg_uptime (co_sys c), read_double w ''/proc/uptime'' DNaN)]
     @ (case w_file w ''/proc/net/sockstat'' of None \<Rightarrow> []
        | Some t \<Rightarrow> concat (map (socket_reading (co_sys c)) (fgets_lines 128 t)))) vs"

definition sample_zones :: "world \<Rightarrow> collector \<Rightarrow> gfloat list \<Rightarrow> gfloat list option" where
  "sample_zones w c vs = set_values (map (\<lambda>z. (zn_idx z, ddiv (read_double w (zn_path z) DNaN) (num 1000))) (co_zones c)) vs"

section \<open>Interfaces and disks\<close>

definition iface_format :: "directive list" where
  "iface_format = [Uns, Ws, Uns, Ws, Uns, Ws, Uns, Ws, SkipUns, Ws, SkipUns, Ws, SkipUns, Ws, SkipUns, Ws,
     Uns, Ws, Uns, Ws, Uns, Ws, Uns]"

text \<open>The place of the last device of a name, as the loops go on after a match.\<close>

fun last_index :: "nat \<Rightarrow> string list \<Rightarrow> string \<Rightarrow> nat option" where
  "last_index i [] name = None"
| "last_index i (n # ns) name = (case last_index (Suc i) ns name of Some j \<Rightarrow> Some j
     | None \<Rightarrow> if n = name then Some i else None)"

definition iface_readings :: "world \<Rightarrow> double \<Rightarrow> bool \<Rightarrow> iface \<Rightarrow> guint64 list \<Rightarrow> (guint \<times> double) list" where
  "iface_readings w seconds first f v =
     (if \<not> first then
        [(if_rx_bps f, rate (v ! 0) (if_prev_rx_bytes f) seconds), (if_tx_bps f, rate (v ! 4) (if_prev_tx_bytes f) seconds),
         (if_rx_pps f, rate (v ! 1) (if_prev_rx_pkts f) seconds), (if_tx_pps f, rate (v ! 5) (if_prev_tx_pkts f) seconds)]
      else [])
     @ [(if_rx_err f, u64_double (v ! 2)), (if_tx_err f, u64_double (v ! 6)),
        (if_rx_drop f, u64_double (v ! 3)), (if_tx_drop f, u64_double (v ! 7))]
     @ (let speed = read_double w (strlcpy 160 (''/sys/class/net/'' @ if_name f @ ''/speed'')) DNaN in
        [(if_link f, if dlt speed (DFin 0) then DNaN else speed)])
     @ (case read_text w (strlcpy 160 (''/sys/class/net/'' @ if_name f @ ''/operstate'')) 32 of
          None \<Rightarrow> [] | Some state \<Rightarrow> [(if_up f, num (if strstrip state = ''up'' then 1 else 0))])"

definition iface_remember :: "guint64 list \<Rightarrow> iface \<Rightarrow> iface" where
  "iface_remember v f = f\<lparr>if_prev_rx_bytes := v ! 0, if_prev_tx_bytes := v ! 4, if_prev_rx_pkts := v ! 1,
     if_prev_tx_pkts := v ! 5\<rparr>"

definition sample_iface_line :: "world \<Rightarrow> double \<Rightarrow> bool \<Rightarrow> string \<Rightarrow> sampling \<Rightarrow> sampling option" where
  "sample_iface_line w seconds first line cv = (case cv of (c, vs) \<Rightarrow>
     (case iface_line line of None \<Rightarrow> Some (c, vs)
      | Some (name, counters) \<Rightarrow> (case last_index 0 (map if_name (co_ifaces c)) name of None \<Rightarrow> Some (c, vs)
          | Some i \<Rightarrow> (let vals = sscanf (\<lambda>_. None) iface_format counters; v = map (\<lambda>k. uval vals k 0) [0..<8];
                f = co_ifaces c ! i in do {
              vs1 \<leftarrow> set_values (iface_readings w seconds first f v) vs;
              Some (c\<lparr>co_ifaces := (co_ifaces c)[i := iface_remember v f]\<rparr>, vs1) }))))"

fun sample_iface_lines :: "world \<Rightarrow> double \<Rightarrow> bool \<Rightarrow> string list \<Rightarrow> sampling \<Rightarrow> sampling option" where
  "sample_iface_lines w seconds first [] cv = Some cv"
| "sample_iface_lines w seconds first (line # lines) cv = do {
     cv1 \<leftarrow> sample_iface_line w seconds first line cv; sample_iface_lines w seconds first lines cv1 }"

definition sample_ifaces :: "world \<Rightarrow> double \<Rightarrow> bool \<Rightarrow> sampling \<Rightarrow> sampling option" where
  "sample_ifaces w seconds first cv = (case w_file w ''/proc/net/dev'' of None \<Rightarrow> Some cv
     | Some t \<Rightarrow> sample_iface_lines w seconds first (drop 2 (fgets_lines 512 t)) cv)"

definition disk_format :: "directive list" where
  "disk_format = [Ws, SkipUns, Ws, SkipUns, Ws, StrW 31, Ws, Uns, Ws, SkipUns, Ws, Uns, Ws, SkipUns, Ws, Uns, Ws, SkipUns,
     Ws, Uns, Ws, SkipUns, Ws, SkipUns, Ws, Uns]"

text \<open>Reads, sectors read, writes, sectors written and the busy time are \<open>v ! 0\<close> to \<open>v ! 4\<close>.\<close>

definition disk_readings :: "double \<Rightarrow> bool \<Rightarrow> block_disk \<Rightarrow> guint64 list \<Rightarrow> (guint \<times> double) list" where
  "disk_readings seconds first d v = (if \<not> first then
     [(bd_read_bps d, dmul (rate (v ! 1) (bd_prev_read_sectors d) seconds) (num 512)),
      (bd_write_bps d, dmul (rate (v ! 3) (bd_prev_write_sectors d) seconds) (num 512)),
      (bd_read_iops d, rate (v ! 0) (bd_prev_reads d) seconds),
      (bd_write_iops d, rate (v ! 2) (bd_prev_writes d) seconds),
      (bd_util d, let busy_ms = rate (v ! 4) (bd_prev_io_ms d) (num 1); share = ddiv busy_ms (dmul seconds (num 10)) in
         if isnan busy_ms then DNaN else if dlt (num 100) share then num 100 else share)]
     else [])"

definition disk_remember :: "guint64 list \<Rightarrow> block_disk \<Rightarrow> block_disk" where
  "disk_remember v d = d\<lparr>bd_prev_reads := v ! 0, bd_prev_read_sectors := v ! 1, bd_prev_writes := v ! 2,
     bd_prev_write_sectors := v ! 3, bd_prev_io_ms := v ! 4\<rparr>"

definition sample_disk_line :: "double \<Rightarrow> bool \<Rightarrow> string \<Rightarrow> sampling \<Rightarrow> sampling option" where
  "sample_disk_line seconds first line cv = (case cv of (c, vs) \<Rightarrow> (let vals = sscanf (\<lambda>_. None) disk_format line in
     if length vals \<noteq> 6 then Some (c, vs)
     else (case last_index 0 (map bd_name (co_disks c)) (strval vals 0 []) of None \<Rightarrow> Some (c, vs)
       | Some i \<Rightarrow> (let v = map (\<lambda>k. uval vals k 0) [1..<6]; d = co_disks c ! i in do {
           vs1 \<leftarrow> set_values (disk_readings seconds first d v) vs;
           Some (c\<lparr>co_disks := (co_disks c)[i := disk_remember v d]\<rparr>, vs1) }))))"

fun sample_disk_lines :: "double \<Rightarrow> bool \<Rightarrow> string list \<Rightarrow> sampling \<Rightarrow> sampling option" where
  "sample_disk_lines seconds first [] cv = Some cv"
| "sample_disk_lines seconds first (line # lines) cv = do {
     cv1 \<leftarrow> sample_disk_line seconds first line cv; sample_disk_lines seconds first lines cv1 }"

definition sample_disks :: "world \<Rightarrow> double \<Rightarrow> bool \<Rightarrow> sampling \<Rightarrow> sampling option" where
  "sample_disks w seconds first cv = (case w_file w ''/proc/diskstats'' of None \<Rightarrow> Some cv
     | Some t \<Rightarrow> sample_disk_lines seconds first (fgets_lines 512 t) cv)"

section \<open>Mounts\<close>

definition mount_readings :: "world \<Rightarrow> mount_metrics \<Rightarrow> (guint \<times> double) list" where
  "mount_readings w m = (case w_statvfs w (mm_mountpoint m) of
       Some st \<Rightarrow> if vfs_blocks st = 0 then map (\<lambda>i. (i, DNaN)) [mm_total m, mm_used m, mm_free m, mm_usage m]
         else (let total = dmul (u64_double (vfs_blocks st)) (u64_double (vfs_frsize st));
                   avail = dmul (u64_double (vfs_bavail st)) (u64_double (vfs_frsize st));
                   used = dsub total (dmul (u64_double (vfs_bfree st)) (u64_double (vfs_frsize st))) in
           [(mm_total m, total), (mm_used m, used), (mm_free m, avail),
            (mm_usage m, if dlt (DFin 0) total then ddiv (dmul (num 100) used) total else DNaN)])
     | None \<Rightarrow> map (\<lambda>i. (i, DNaN)) [mm_total m, mm_used m, mm_free m, mm_usage m])"

definition sample_mounts :: "world \<Rightarrow> collector \<Rightarrow> gfloat list \<Rightarrow> gfloat list option" where
  "sample_mounts w c vs = set_values (concat (map (mount_readings w) (co_mounts c))) vs"

section \<open>Slow sources\<close>

text \<open>The number starts one place after the name; \<open>None\<close> where the answer ends with the name.\<close>

definition sensor_reading :: "world \<Rightarrow> string \<Rightarrow> sensor \<Rightarrow> (guint \<times> double) list option" where
  "sensor_reading w body s = (case strstr body (sn_name s) of None \<Rightarrow> Some []
     | Some found \<Rightarrow> if length found \<le> length (sn_name s) then None
         else Some [(sn_idx s, w_strtod w (drop (length (sn_name s) + 1) found))])"

primrec sensor_readings :: "world \<Rightarrow> string \<Rightarrow> sensor list \<Rightarrow> (guint \<times> double) list option" where
  "sensor_readings w body [] = Some []"
| "sensor_readings w body (s # ss) = do {
     here \<leftarrow> sensor_reading w body s; rest \<leftarrow> sensor_readings w body ss; Some (here @ rest) }"

definition fan_reading :: "world \<Rightarrow> string \<Rightarrow> guint \<Rightarrow> (guint \<times> double) list" where
  "fan_reading w body idx = (case strstr body ''Fan.F0.Status='' of None \<Rightarrow> []
     | Some fan \<Rightarrow> if idx = 0 then []
         else [(idx, case strchr fan CHR ''['' of None \<Rightarrow> num 0 | Some bracket \<Rightarrow> w_strtod w (drop 1 bracket))])"

definition heater_reading :: "string \<Rightarrow> guint \<Rightarrow> (guint \<times> double) list" where
  "heater_reading body idx = (case strstr body ''Heater.H0.Status='' of None \<Rightarrow> []
     | Some heater \<Rightarrow> if idx = 0 then [] else [(idx, num (if has_prefix (drop 17 heater) ''Running'' then 1 else 0))])"

definition sample_sensors :: "world \<Rightarrow> collector \<Rightarrow> gfloat list \<Rightarrow> gfloat list option" where
  "sample_sensors w c vs = (if co_sensors c = [] \<and> co_fan_rpm c = 0 \<and> co_heater c = 0 then Some vs
     else case w_vapix w ''temperaturecontrol.cgi'' of None \<Rightarrow> Some vs
     | Some body \<Rightarrow> do {
         sensors \<leftarrow> sensor_readings w body (co_sensors c);
         set_values (sensors @ fan_reading w body (co_fan_rpm c) @ heater_reading body (co_heater c)) vs
       })"

definition xml_value :: "world \<Rightarrow> string \<Rightarrow> string \<Rightarrow> double" where
  "xml_value w cursor tag = (let open_tag = strlcpy 32 (CHR ''<'' # tag @ ''>'') in
     case strstr cursor open_tag of None \<Rightarrow> DNaN | Some found \<Rightarrow> w_strtod w (drop (length open_tag) found))"

text \<open>The readings of the ports and the total; \<open>cursor\<close> is where the search for the next port begins.\<close>

fun poe_readings :: "world \<Rightarrow> poe_port list \<Rightarrow> string \<Rightarrow> double \<Rightarrow> (guint \<times> double) list \<times> double" where
  "poe_readings w [] cursor watts = ([], watts)"
| "poe_readings w (p # ps) cursor watts = (case strstr cursor ''<PortStatus>'' of None \<Rightarrow> ([], watts)
     | Some here \<Rightarrow> (let power = xml_value w here ''PowerConsumption'';
           next_cursor = (case strstr here ''</PortStatus>'' of Some after \<Rightarrow> drop 1 after | None \<Rightarrow> drop 1 here);
           (rest, sum_total) = poe_readings w ps next_cursor (if isnan power then watts else dadd watts power) in
         ([(pp_power p, power), (pp_allocated p, xml_value w here ''AllocatedPower''), (pp_class p, xml_value w here ''PoeClass''),
           (pp_connected p, num (if dlt (DFin 0) (xml_value w here ''StatusCode'') then 1 else 0))] @ rest, sum_total)))"

definition sample_poe :: "world \<Rightarrow> collector \<Rightarrow> gfloat list \<Rightarrow> gfloat list option" where
  "sample_poe w c vs = (if co_poe c = [] then Some vs
     else case w_vapix w poe_request of None \<Rightarrow> Some vs
     | Some body \<Rightarrow> (let (ports, total) = poe_readings w (co_poe c) body (DFin 0) in
         set_values (ports @ [(co_poe_total c, total)]
           @ (case w_vapix w ''nvr/poe/gettotalpowerlimit.cgi'' of None \<Rightarrow> []
              | Some limit \<Rightarrow> [(co_poe_budget c, xml_value w limit ''Limit'')])) vs))"

definition wear_format :: "directive list" where
  "wear_format = [Hex, Ws, Hex]"

definition wear_readings :: "world \<Rightarrow> collector \<Rightarrow> (guint \<times> double) list" where
  "wear_readings w c = (case read_text w (co_flash_life_path c) 64 of None \<Rightarrow> []
       | Some buf \<Rightarrow> (let vals = sscanf (\<lambda>_. None) wear_format buf;
             worst = max (guint_of64 (uval vals 0 0)) (guint_of64 (uval vals 1 0)) in
           if length vals \<ge> 1 \<and> 0 < worst then [(co_flash_life c, dmul (num (of_nat (unat (worst - 1)))) (num 10))] else []))
     @ (case read_text w (co_flash_eol_path c) 64 of None \<Rightarrow> []
       | Some buf \<Rightarrow> [(co_flash_eol c, u64_double (strtoull16 buf))])"

definition sample_flash_wear :: "world \<Rightarrow> collector \<Rightarrow> gfloat list \<Rightarrow> gfloat list option" where
  "sample_flash_wear w c vs = (if co_flash_life_path c = [] then Some vs else set_values (wear_readings w c) vs)"

section \<open>One sample\<close>

definition sample_fast :: "world \<Rightarrow> double \<Rightarrow> bool \<Rightarrow> sampling \<Rightarrow> sampling option" where
  "sample_fast w seconds first cv = do {
     (c, vs) \<leftarrow> sample_cpu w seconds first cv;
     vs \<leftarrow> sample_memory w c vs; vs \<leftarrow> sample_system w c vs; vs \<leftarrow> sample_zones w c vs;
     (c, vs) \<leftarrow> sample_ifaces w seconds first (c, vs);
     (c, vs) \<leftarrow> sample_disks w seconds first (c, vs);
     vs \<leftarrow> sample_mounts w c vs;
     Some (c, vs)
   }"

definition sample_slow :: "world \<Rightarrow> gint64 \<Rightarrow> collector \<Rightarrow> collector option" where
  "sample_slow w now c = (if co_slow_deadline c \<le> now then do {
       cache \<leftarrow> sample_sensors w c (co_slow_cache c);
       cache \<leftarrow> sample_poe w c cache;
       cache \<leftarrow> sample_flash_wear w c cache;
       Some (c\<lparr>co_slow_deadline := now + int SLOW_INTERVAL_S * 1000000, co_slow_cache := cache\<rparr>)
     } else Some c)"

text \<open>\<open>now\<close> is the monotonic clock in microseconds; the buffer and the two arrays have one entry per metric.\<close>

definition merge_slow :: "nat \<Rightarrow> collector \<Rightarrow> gfloat list \<Rightarrow> gfloat list option" where
  "merge_slow n c vs = (if length (co_is_slow c) < n \<or> length (co_slow_cache c) < n \<or> length vs < n then None
     else Some (map (\<lambda>i. if co_is_slow c ! i then co_slow_cache c ! i else vs ! i) [0..<n] @ drop n vs))"

definition collector_sample :: "world \<Rightarrow> gint64 \<Rightarrow> metric_registry \<Rightarrow> collector \<Rightarrow> gfloat list \<Rightarrow> sampling option" where
  "collector_sample w now registry c vs = (let n = unat (reg_count registry); first = (co_prev_us c = 0);
     seconds = (if first then DFin 0 else ddiv (to_double (of_int (now - co_prev_us c))) (num 1000000)) in
     if length vs < n then None
     else do {
       (c1, vs1) \<leftarrow> sample_fast w seconds first (c, replicate n f32_nan @ drop n vs);
       c2 \<leftarrow> sample_slow w now c1;
       vs2 \<leftarrow> merge_slow n c2 vs1;
       Some (c2\<lparr>co_prev_us := now\<rparr>, vs2)
     })"

end
