(* ===== verification/CollectProps.thy ===== *)
theory CollectProps
  imports Sample
begin

text \<open>
  \<^verbatim>\<open>app/collect.c\<close>: discovery registers every metric once and gives every index a place in the
  registry, sampling never leaves the array of values, and the two readings of the mount table agree.
\<close>

section \<open>Registration\<close>

text \<open>The registry with at most \<open>k\<close> metrics.\<close>

definition reg_ok :: "nat \<Rightarrow> metric_registry \<Rightarrow> bool" where
  "reg_ok k r \<longleftrightarrow> reg_inv r \<and> unat (reg_capacity r) \<le> max 64 (2 * unat (reg_count r)) \<and> unat (reg_count r) \<le> k"

lemma reg_ok_init: "reg_ok 0 metrics_registry_init"
  using reg_inv_init by (simp add: reg_ok_def metrics_registry_init_def)

lemma reg_ok_mono: "reg_ok k r \<Longrightarrow> k \<le> m \<Longrightarrow> reg_ok m r"
  by (simp add: reg_ok_def)

definition idx_ok :: "metric_registry \<Rightarrow> guint \<Rightarrow> bool" where
  "idx_ok r i \<longleftrightarrow> unat i < unat (reg_count r)"

definition grows :: "metric_registry \<Rightarrow> metric_registry \<Rightarrow> bool" where
  "grows r r' \<longleftrightarrow> unat (reg_count r) \<le> unat (reg_count r')"

lemma grows_refl [simp]: "grows r r"
  by (simp add: grows_def)

lemma grows_trans: "grows r s \<Longrightarrow> grows s t \<Longrightarrow> grows r t"
  by (simp add: grows_def)

lemma idx_ok_grows: "idx_ok r i \<Longrightarrow> grows r r' \<Longrightarrow> idx_ok r' i"
  by (simp add: idx_ok_def grows_def)

lemma reg_step:
  assumes "reg_ok k r" "k < 2 ^ 28"
  shows "\<exists>i r'. reg key label unit grp r = Some (i, r') \<and> reg_ok (Suc k) r' \<and> grows r r' \<and> idx_ok r' i"
proof (cases "key \<in> set (reg_ids r)")
  case True
  have inv: "reg_inv r" using assms by (simp add: reg_ok_def)
  have hit: "0 \<le> metrics_find r key" "nat (metrics_find r key) < length (reg_ids r)"
    using registry.find_hit [OF inv True] by auto
  have "unat (of_nat (nat (metrics_find r key)) :: guint) \<le> nat (metrics_find r key)"
    by (simp add: unat_of_nat)
  then have "idx_ok r (of_nat (nat (metrics_find r key)))"
    using hit length_reg_ids [OF inv] by (simp add: idx_ok_def)
  then show ?thesis
    using register_existing [OF inv True] reg_ok_mono [OF assms(1), of "Suc k"] by (auto simp: reg_def)
next
  case False
  have inv: "reg_inv r" using assms by (simp add: reg_ok_def)
  have cap: "unat (reg_capacity r) < 2 ^ 31" using assms by (auto simp: reg_ok_def)
  obtain r' where r': "metrics_register r key (Some label) (Some unit) (Some grp) = Some (reg_count r, r')" "reg_inv r'"
    "unat (reg_count r') = unat (reg_count r) + 1"
    using register_new [OF inv cap False] by metis
  have "unat (reg_capacity r') \<le> max 64 (2 * (unat (reg_count r) + 1))"
    using registry_capacity [OF r'(1) _ cap inv False] assms(1) by (simp add: reg_ok_def)
  with r' assms(1) show ?thesis by (auto simp: reg_def reg_ok_def grows_def idx_ok_def)
qed

lemma reg_list_step:
  assumes "reg_ok k r" "k + length ms < 2 ^ 28"
  shows "\<exists>is r'. reg_list ms r = Some (is, r') \<and> length is = length ms \<and> reg_ok (k + length ms) r' \<and> grows r r'
    \<and> (\<forall>i \<in> set is. idx_ok r' i)"
  using assms
proof (induction ms arbitrary: k r)
  case (Cons m ms)
  obtain key label unit grp where m: "m = (key, label, unit, grp)" by (metis surj_pair)
  obtain i r1 where r1: "reg key label unit grp r = Some (i, r1)" "reg_ok (Suc k) r1" "grows r r1" "idx_ok r1 i"
    using reg_step [of k r key label unit grp] Cons.prems by auto
  obtain "is" r2 where r2: "reg_list ms r1 = Some (is, r2)" "length is = length ms" "reg_ok (Suc k + length ms) r2" "grows r1 r2"
    "\<forall>i \<in> set is. idx_ok r2 i"
    using Cons.IH [OF r1(2)] Cons.prems by auto
  show ?case using r1 r2 grows_trans [OF r1(3) r2(4)] idx_ok_grows [OF r1(4) r2(4)] by (auto simp: m)
qed simp

section \<open>The indices of a collector\<close>

definition cpu_indices :: "cpu_group \<Rightarrow> guint list" where
  "cpu_indices g = [cg_usage g, cg_user g, cg_system g, cg_iowait g, cg_irq g, cg_steal g, cg_freq g]
     @ cg_core_usage g @ cg_core_freq g"

definition system_indices :: "system_group \<Rightarrow> guint list" where
  "system_indices g = [sg_load1 g, sg_load5 g, sg_load15 g, sg_uptime g, sg_procs g, sg_procs_running g, sg_ctxt g,
     sg_sockets g, sg_tcp_inuse g, sg_udp_inuse g, sg_mem_total g, sg_mem_used g, sg_mem_free g, sg_mem_available g,
     sg_mem_buffers g, sg_mem_cached g, sg_mem_usage g, sg_swap_total g, sg_swap_used g, sg_swap_usage g]"

definition iface_indices :: "iface \<Rightarrow> guint list" where
  "iface_indices f = [if_rx_bps f, if_tx_bps f, if_rx_pps f, if_tx_pps f, if_rx_err f, if_tx_err f, if_rx_drop f,
     if_tx_drop f, if_link f, if_up f]"

definition disk_indices :: "block_disk \<Rightarrow> guint list" where
  "disk_indices d = [bd_read_bps d, bd_write_bps d, bd_read_iops d, bd_write_iops d, bd_util d]"

definition mount_indices :: "mount_metrics \<Rightarrow> guint list" where
  "mount_indices m = [mm_total m, mm_used m, mm_free m, mm_usage m]"

definition poe_indices :: "poe_port \<Rightarrow> guint list" where
  "poe_indices p = [pp_power p, pp_allocated p, pp_class p, pp_connected p]"

text \<open>The name under which a sensor reports its temperature.\<close>

definition sensor_key :: "guint \<Rightarrow> string" where
  "sensor_key n = strlcpy 48 (''Sensor.S'' @ show_guint n @ ''.Celsius'')"

definition coll_shape :: "collector \<Rightarrow> bool" where
  "coll_shape c \<longleftrightarrow> length (cg_core_usage (co_cpu c)) = MAX_CORES \<and> length (cg_core_freq (co_cpu c)) = MAX_CORES
   \<and> length (cg_prev_core (co_cpu c)) = MAX_CORES \<and> length (cg_prev_field (co_cpu c)) = 8
   \<and> cg_n_cores (co_cpu c) \<le> MAX_CORES \<and> length (co_ifaces c) \<le> MAX_IFACES \<and> length (co_disks c) \<le> MAX_DISKS
   \<and> length (co_mounts c) \<le> MAX_MOUNTS \<and> length (co_zones c) \<le> MAX_ZONES \<and> length (co_sensors c) \<le> MAX_SENSORS
   \<and> length (co_poe c) \<le> MAX_POE_PORTS
   \<and> list_all (\<lambda>s. sn_name s \<in> range sensor_key) (co_sensors c)"

definition all_indices :: "collector \<Rightarrow> guint list" where
  "all_indices c = cpu_indices (co_cpu c) @ system_indices (co_sys c) @ concat (map iface_indices (co_ifaces c))
     @ concat (map disk_indices (co_disks c)) @ concat (map mount_indices (co_mounts c)) @ map zn_idx (co_zones c)
     @ map sn_idx (co_sensors c) @ concat (map poe_indices (co_poe c))
     @ [co_fan_rpm c, co_heater c, co_poe_total c, co_poe_budget c, co_flash_life c, co_flash_eol c]"

definition coll_ok :: "metric_registry \<Rightarrow> collector \<Rightarrow> bool" where
  "coll_ok r c \<longleftrightarrow> 0 < unat (reg_count r) \<and> list_all (idx_ok r) (all_indices c) \<and> coll_shape c"

lemma list_ok_grows: "list_all (idx_ok r) is \<Longrightarrow> grows r r' \<Longrightarrow> list_all (idx_ok r') is"
  by (auto simp: list_all_iff intro: idx_ok_grows)

lemma coll_ok_grows: "coll_ok r c \<Longrightarrow> grows r r' \<Longrightarrow> coll_ok r' c"
  using list_ok_grows [of r "all_indices c" r'] by (simp add: coll_ok_def) (simp add: grows_def)

lemma list_all_concat_map [simp]: "list_all P (concat (map f xs)) = list_all (\<lambda>x. list_all P (f x)) xs"
  by (induction xs) simp_all

lemmas coll_defs = coll_ok_def all_indices_def coll_shape_def

text \<open>A part of the discovery that registers at most \<open>m\<close> metrics.\<close>

definition discovers :: "nat \<Rightarrow> (discovery \<Rightarrow> discovery option) \<Rightarrow> bool" where
  "discovers m f \<longleftrightarrow> (\<forall>k r c. reg_ok k r \<longrightarrow> coll_ok r c \<longrightarrow> k + m < 2 ^ 28 \<longrightarrow>
     (\<exists>r' c'. f (r, c) = Some (r', c') \<and> reg_ok (k + m) r' \<and> grows r r' \<and> coll_ok r' c'))"

lemma discoversD:
  assumes "discovers m f" "reg_ok k r" "coll_ok r c" "k + m < 2 ^ 28"
  obtains r' c' where "f (r, c) = Some (r', c')" "reg_ok (k + m) r'" "grows r r'" "coll_ok r' c'"
  using assms unfolding discovers_def by blast

lemma discovers_nothing: "discovers m Some"
  by (auto simp: discovers_def intro: reg_ok_mono)

lemma discovers_more: "discovers m f \<Longrightarrow> m \<le> n \<Longrightarrow> discovers n f"
  unfolding discovers_def
proof (intro allI impI)
  fix k r c assume f: "\<forall>k r c. reg_ok k r \<longrightarrow> coll_ok r c \<longrightarrow> k + m < 2 ^ 28 \<longrightarrow>
      (\<exists>r' c'. f (r, c) = Some (r', c') \<and> reg_ok (k + m) r' \<and> grows r r' \<and> coll_ok r' c')"
    and mn: "m \<le> n" and a: "reg_ok k r" "coll_ok r c" "k + n < 2 ^ 28"
  have "k + m < 2 ^ 28" using a(3) mn by simp
  with f a obtain r' c' where r': "f (r, c) = Some (r', c')" "reg_ok (k + m) r'" "grows r r'" "coll_ok r' c'" by blast
  have "reg_ok (k + n) r'" using reg_ok_mono [OF r'(2)] mn by simp
  with r' show "\<exists>r' c'. f (r, c) = Some (r', c') \<and> reg_ok (k + n) r' \<and> grows r r' \<and> coll_ok r' c'" by blast
qed

lemma discovers_then:
  assumes f: "discovers m f" and g: "discovers n g"
  shows "discovers (m + n) (\<lambda>rc. do { rc1 \<leftarrow> f rc; g rc1 })"
  unfolding discovers_def
proof (intro allI impI)
  fix k r c assume a: "reg_ok k r" "coll_ok r c" "k + (m + n) < 2 ^ 28"
  from a(3) have "k + m < 2 ^ 28" by simp
  from discoversD [OF f a(1,2) this] obtain r1 c1 where
    1: "f (r, c) = Some (r1, c1)" "reg_ok (k + m) r1" "grows r r1" "coll_ok r1 c1" .
  from a(3) have "k + m + n < 2 ^ 28" by simp
  from discoversD [OF g 1(2,4) this] obtain r2 c2 where
    2: "g (r1, c1) = Some (r2, c2)" "reg_ok (k + m + n) r2" "grows r1 r2" "coll_ok r2 c2" .
  show "\<exists>r' c'. (do { rc1 \<leftarrow> f (r, c); g rc1 }) = Some (r', c') \<and> reg_ok (k + (m + n)) r' \<and> grows r r' \<and> coll_ok r' c'"
    using 1 2 grows_trans [OF 1(3) 2(3)] by (simp add: add.assoc)
qed

text \<open>One device with the metrics \<open>ms\<close>, entered into the collector by \<open>put\<close>.\<close>

lemma discovers_device:
  assumes "\<And>r c is. coll_ok r c \<Longrightarrow> length is = length ms \<Longrightarrow> \<forall>i \<in> set is. idx_ok r i \<Longrightarrow> coll_ok r (put is c)"
  shows "discovers (length ms) (\<lambda>rc. case rc of (r, c) \<Rightarrow> do { (is, r1) \<leftarrow> reg_list ms r; Some (r1, put is c) })"
  unfolding discovers_def
proof (intro allI impI)
  fix k r c assume a: "reg_ok k r" "coll_ok r c" "k + length ms < 2 ^ 28"
  obtain "is" r1 where 1: "reg_list ms r = Some (is, r1)" "length is = length ms" "reg_ok (k + length ms) r1" "grows r r1"
    "\<forall>i \<in> set is. idx_ok r1 i" using reg_list_step [OF a(1,3)] by blast
  then show "\<exists>r' c'. (case (r, c) of (r, c) \<Rightarrow> do { (is, r1) \<leftarrow> reg_list ms r; Some (r1, put is c) }) = Some (r', c')
      \<and> reg_ok (k + length ms) r' \<and> grows r r' \<and> coll_ok r' c'"
    using assms [OF coll_ok_grows [OF a(2) 1(4)] 1(2,5)] by simp
qed

lemma nth_idx_ok: "length is = n \<Longrightarrow> \<forall>i \<in> set is. idx_ok r i \<Longrightarrow> j < n \<Longrightarrow> idx_ok r (is ! j)"
  by auto

lemma discovers_system: "discovers 20 discover_system"
proof -
  have "discovers (length system_metrics) discover_system"
    unfolding discover_system_def
    by (rule discovers_device) (simp add: coll_defs system_indices_def nth_idx_ok system_metrics_def)
  then show ?thesis by (simp add: system_metrics_def numeral_eq_Suc)
qed

section \<open>Discovery\<close>

lemma device_step:
  assumes "reg_ok k r" "coll_ok r c" "k + length ms < 2 ^ 28"
    and put: "\<And>r is. coll_ok r c \<Longrightarrow> length is = length ms \<Longrightarrow> \<forall>i \<in> set is. idx_ok r i \<Longrightarrow> coll_ok r (put is c)"
  shows "\<exists>r' is. (case (r, c) of (r, c) \<Rightarrow> do { (is, r1) \<leftarrow> reg_list ms r; Some (r1, put is c) }) = Some (r', put is c)
    \<and> reg_ok (k + length ms) r' \<and> grows r r' \<and> coll_ok r' (put is c)"
proof -
  obtain "is" r1 where 1: "reg_list ms r = Some (is, r1)" "length is = length ms" "reg_ok (k + length ms) r1" "grows r r1"
    "\<forall>i \<in> set is. idx_ok r1 i" using reg_list_step [OF assms(1,3)] by blast
  then show ?thesis using put [OF coll_ok_grows [OF assms(2) 1(4)] 1(2,5)] by auto
qed

text \<open>A loop that stops when the collector's array is full.\<close>

lemma discovers_loop:
  fixes len :: "collector \<Rightarrow> nat"
  assumes nil: "\<And>rc. loop [] rc = Some rc"
    and cons: "\<And>x xs rc. loop (x # xs) rc = (if limit \<le> len (snd rc) then Some rc
       else case sel x of None \<Rightarrow> loop xs rc | Some a \<Rightarrow> do { rc1 \<leftarrow> dev a rc; loop xs rc1 })"
    and dev: "\<And>a k r c. reg_ok k r \<Longrightarrow> coll_ok r c \<Longrightarrow> len c < limit \<Longrightarrow> k + m < 2 ^ 28 \<Longrightarrow>
       \<exists>r' c'. dev a (r, c) = Some (r', c') \<and> reg_ok (k + m) r' \<and> grows r r' \<and> coll_ok r' c' \<and> len c' = Suc (len c)"
  shows "discovers (m * limit) (loop xs)"
proof -
  have "\<exists>r' c'. loop xs (r, c) = Some (r', c') \<and> reg_ok (k + m * (limit - len c)) r' \<and> grows r r' \<and> coll_ok r' c'"
    if "reg_ok k r" "coll_ok r c" "k + m * (limit - len c) < 2 ^ 28" for k r c
    using that
  proof (induction xs arbitrary: k r c)
    case Nil
    then show ?case using reg_ok_mono [OF Nil(1)] by (simp add: nil)
  next
    case (Cons x xs)
    show ?case
    proof (cases "limit \<le> len c")
      case True
      then show ?thesis using Cons.prems by (simp add: cons)
    next
      case room: False
      show ?thesis
      proof (cases "sel x")
        case None
        then show ?thesis using Cons.IH [OF Cons.prems] room by (simp add: cons)
      next
        case (Some a)
        have split: "m * (limit - len c) = m + m * (limit - Suc (len c))" using room
          by (metis Suc_diff_Suc mult_Suc_right not_le)
        have k: "k + m < 2 ^ 28" "k + m + m * (limit - Suc (len c)) < 2 ^ 28" using Cons.prems(3) unfolding split by linarith+
        obtain r1 c1 where 1: "dev a (r, c) = Some (r1, c1)" "reg_ok (k + m) r1" "grows r r1" "coll_ok r1 c1"
          "len c1 = Suc (len c)" using dev [OF Cons.prems(1,2) _ k(1), of a] room by auto
        from k(2) have "k + m + m * (limit - len c1) < 2 ^ 28" unfolding 1(5) .
        from Cons.IH [OF 1(2,4) this] obtain r2 c2 where 2: "loop xs (r1, c1) = Some (r2, c2)"
          "reg_ok (k + m + m * (limit - Suc (len c))) r2" "grows r1 r2" "coll_ok r2 c2" unfolding 1(5) by blast
        have "loop (x # xs) (r, c) = Some (r2, c2)" using room Some 1(1) 2(1) by (simp add: cons)
        moreover have "reg_ok (k + m * (limit - len c)) r2" using 2(2) by (simp only: split add.assoc)
        ultimately show ?thesis using grows_trans [OF 1(3) 2(3)] 2(4) by blast
      qed
    qed
  qed
  note budget = this
  show ?thesis unfolding discovers_def
  proof (intro allI impI)
    fix k r c assume a: "reg_ok k r" "coll_ok r c" "k + m * limit < 2 ^ 28"
    have le: "k + m * (limit - len c) \<le> k + m * limit" by simp
    obtain r' c' where "loop xs (r, c) = Some (r', c')" "reg_ok (k + m * (limit - len c)) r'" "grows r r'" "coll_ok r' c'"
      using budget [OF a(1,2) le_less_trans [OF le a(3)]] by blast
    with reg_ok_mono [OF _ le] show "\<exists>r' c'. loop xs (r, c) = Some (r', c') \<and> reg_ok (k + m * limit) r' \<and> grows r r' \<and> coll_ok r' c'"
      by blast
  qed
qed

lemma discovers_iface_lines: "discovers (10 * MAX_IFACES) (discover_iface_lines lines)"
proof (rule discovers_loop [where len = "\<lambda>c. length (co_ifaces c)" and dev = discover_iface
      and sel = "\<lambda>line. case iface_line line of None \<Rightarrow> None | Some (name, counters) \<Rightarrow> if name = ''lo'' then None else Some name"])
  show "discover_iface_lines (x # xs) rc = (if MAX_IFACES \<le> length (co_ifaces (snd rc)) then Some rc
      else case (case iface_line x of None \<Rightarrow> None | Some (name, counters) \<Rightarrow> if name = ''lo'' then None else Some name) of
        None \<Rightarrow> discover_iface_lines xs rc | Some a \<Rightarrow> do { rc1 \<leftarrow> discover_iface a rc; discover_iface_lines xs rc1 })" for x xs rc
    by (simp split: option.splits)
  fix a k r c assume "reg_ok k r" "coll_ok r c" "length (co_ifaces c) < MAX_IFACES" "k + 10 < 2 ^ 28"
  moreover have "length (iface_metrics a) = 10" by (simp add: iface_metrics_def)
  moreover have "coll_ok r' (c\<lparr>co_ifaces := co_ifaces c @ [new_iface a is]\<rparr>)"
    if "coll_ok r' c" "length is = length (iface_metrics a)" "\<forall>i \<in> set is. idx_ok r' i" for r' "is"
    using that calculation by (simp add: coll_defs iface_indices_def new_iface_def nth_idx_ok)
  ultimately show "\<exists>r' c'. discover_iface a (r, c) = Some (r', c') \<and> reg_ok (k + 10) r' \<and> grows r r' \<and> coll_ok r' c'
      \<and> length (co_ifaces c') = Suc (length (co_ifaces c))"
    using device_step [of k r c "iface_metrics a" "\<lambda>is c. c\<lparr>co_ifaces := co_ifaces c @ [new_iface a is]\<rparr>"]
    unfolding discover_iface_def by fastforce
qed simp

lemma discovers_disk_lines: "discovers (5 * MAX_DISKS) (discover_disk_lines w lines)"
proof (rule discovers_loop [where len = "\<lambda>c. length (co_disks c)" and dev = discover_disk and sel = "disk_line_name w"])
  show "discover_disk_lines w (x # xs) rc = (if MAX_DISKS \<le> length (co_disks (snd rc)) then Some rc
      else case disk_line_name w x of None \<Rightarrow> discover_disk_lines w xs rc
      | Some a \<Rightarrow> do { rc1 \<leftarrow> discover_disk a rc; discover_disk_lines w xs rc1 })" for x xs rc
    by simp
  fix a k r c assume "reg_ok k r" "coll_ok r c" "length (co_disks c) < MAX_DISKS" "k + 5 < 2 ^ 28"
  moreover have "length (disk_metrics a) = 5" by (simp add: disk_metrics_def)
  moreover have "coll_ok r' (c\<lparr>co_disks := co_disks c @ [new_disk a is]\<rparr>)"
    if "coll_ok r' c" "length is = length (disk_metrics a)" "\<forall>i \<in> set is. idx_ok r' i" for r' "is"
    using that calculation by (simp add: coll_defs disk_indices_def new_disk_def nth_idx_ok)
  ultimately show "\<exists>r' c'. discover_disk a (r, c) = Some (r', c') \<and> reg_ok (k + 5) r' \<and> grows r r' \<and> coll_ok r' c'
      \<and> length (co_disks c') = Suc (length (co_disks c))"
    using device_step [of k r c "disk_metrics a" "\<lambda>is c. c\<lparr>co_disks := co_disks c @ [new_disk a is]\<rparr>"]
    unfolding discover_disk_def by fastforce
qed simp

lemma sensor_key_in: "strlcpy 48 (''Sensor.S'' @ show_guint n @ ''.Celsius'') \<in> range sensor_key"
  unfolding sensor_key_def [symmetric] by (rule rangeI)

lemma discovers_sensor_lines: "discovers (1 * MAX_SENSORS) (discover_sensor_lines lines)"
proof (rule discovers_loop [where len = "\<lambda>c. length (co_sensors c)" and dev = discover_sensor and sel = sensor_line])
  show "discover_sensor_lines (x # xs) rc = (if MAX_SENSORS \<le> length (co_sensors (snd rc)) then Some rc
      else case sensor_line x of None \<Rightarrow> discover_sensor_lines xs rc
      | Some a \<Rightarrow> do { rc1 \<leftarrow> discover_sensor a rc; discover_sensor_lines xs rc1 })" for x xs rc
    by simp
  fix a :: "string \<times> guint64" and k r c assume a: "reg_ok k r" "coll_ok r c" "length (co_sensors c) < MAX_SENSORS" "k + 1 < 2 ^ 28"
  obtain i r' where r': "reg (id_text (''sensor.'' @ sanitize (fst a) 48)) (label_text (fst a @ '' temperature'')) ''C'' ''temperature'' r
      = Some (i, r')" "reg_ok (Suc k) r'" "grows r r'" "idx_ok r' i"
    using reg_step [OF a(1)] a(4) by (metis Suc_eq_plus1 Suc_lessD)
  then show "\<exists>r' c'. discover_sensor a (r, c) = Some (r', c') \<and> reg_ok (k + 1) r' \<and> grows r r' \<and> coll_ok r' c'
      \<and> length (co_sensors c') = Suc (length (co_sensors c))"
    using coll_ok_grows [OF a(2) r'(3)] a(3) sensor_key_in [of "guint_of64 (snd a)"] by (simp add: discover_sensor_def coll_defs)
qed simp

lemma discovers_reg_put:
  assumes "\<And>r c i. coll_ok r c \<Longrightarrow> idx_ok r i \<Longrightarrow> coll_ok r (put i c)"
  shows "discovers 1 (\<lambda>rc. case rc of (r, c) \<Rightarrow> do { (i, r) \<leftarrow> reg key label unit grp r; Some (r, put i c) })"
  unfolding discovers_def
proof (intro allI impI)
  fix k r c assume a: "reg_ok k r" "coll_ok r c" "k + 1 < (2 :: nat) ^ 28"
  obtain i r' where r': "reg key label unit grp r = Some (i, r')" "reg_ok (Suc k) r'" "grows r r'" "idx_ok r' i"
    using reg_step [OF a(1)] a(3) by (metis Suc_eq_plus1 Suc_lessD)
  then show "\<exists>r' c'. (case (r, c) of (r, c) \<Rightarrow> do { (i, r) \<leftarrow> reg key label unit grp r; Some (r, put i c) }) = Some (r', c')
      \<and> reg_ok (k + 1) r' \<and> grows r r' \<and> coll_ok r' c'"
    using assms [OF coll_ok_grows [OF a(2) r'(3)] r'(4)] by simp
qed

lemma discovers_poe_ports:
  assumes "length (co_poe c) + length ports \<le> MAX_POE_PORTS" "reg_ok k r" "coll_ok r c" "k + 4 * length ports < 2 ^ 28"
  shows "\<exists>r' c'. discover_poe_ports ports (r, c) = Some (r', c') \<and> reg_ok (k + 4 * length ports) r' \<and> grows r r' \<and> coll_ok r' c'"
  using assms
proof (induction ports arbitrary: k r c)
  case (Cons p ports)
  have len: "length (poe_metrics p) = 4" by (simp add: poe_metrics_def)
  have put: "coll_ok r' (c\<lparr>co_poe := co_poe c @ [new_poe_port p is]\<rparr>)"
    if "coll_ok r' c" "length is = length (poe_metrics p)" "\<forall>i \<in> set is. idx_ok r' i" for r' "is"
    using that Cons.prems(1) len by (simp add: coll_defs poe_indices_def new_poe_port_def nth_idx_ok)
  have "k + length (poe_metrics p) < 2 ^ 28" using Cons.prems(4) len by simp
  from device_step [of k r c "poe_metrics p" "\<lambda>is c. c\<lparr>co_poe := co_poe c @ [new_poe_port p is]\<rparr>",
      OF Cons.prems(2,3) this put]
  obtain r1 "is" where 1: "discover_poe_port p (r, c) = Some (r1, c\<lparr>co_poe := co_poe c @ [new_poe_port p is]\<rparr>)"
    "reg_ok (k + 4) r1" "grows r r1" "coll_ok r1 (c\<lparr>co_poe := co_poe c @ [new_poe_port p is]\<rparr>)"
    unfolding discover_poe_port_def len by blast
  have "\<exists>r' c'. discover_poe_ports ports (r1, c\<lparr>co_poe := co_poe c @ [new_poe_port p is]\<rparr>) = Some (r', c')
      \<and> reg_ok (k + 4 + 4 * length ports) r' \<and> grows r1 r' \<and> coll_ok r' c'"
    using Cons.prems by (intro Cons.IH [OF _ 1(2,4)]) simp_all
  then show ?case using 1(1) grows_trans [OF 1(3)] by (auto simp: add.assoc)
qed simp

lemma discovers_poe: "discovers 66 (discover_poe w)"
  unfolding discovers_def
proof (intro allI impI)
  fix k r c assume a: "reg_ok k r" "coll_ok r c" "k + 66 < (2 :: nat) ^ 28"
  show "\<exists>r' c'. discover_poe w (r, c) = Some (r', c') \<and> reg_ok (k + 66) r' \<and> grows r r' \<and> coll_ok r' c'"
  proof (cases "case w_vapix w poe_request of None \<Rightarrow> None | Some body \<Rightarrow> if strstr body ''<PortStatus>'' = None then None else Some body")
    case None
    then have "discover_poe w (r, c) = Some (r, c)" by (auto simp: discover_poe_def split: option.splits if_splits)
    then show ?thesis using a reg_ok_mono [OF a(1), of "k + 66"] by simp
  next
    case (Some body)
    define ports where "ports = poe_ports (MAX_POE_PORTS - length (co_poe c)) body"
    have len: "length (poe_ports n s) \<le> n" for n s by (induction n arbitrary: s) (auto split: option.splits)
    have "length (co_poe c) \<le> MAX_POE_PORTS" using a(2) by (simp add: coll_defs)
    then have room: "length (co_poe c) + length ports \<le> MAX_POE_PORTS" using len [of "MAX_POE_PORTS - length (co_poe c)" body]
      by (simp add: ports_def)
    then have sixteen: "length ports \<le> 16" by (simp add: MAX_POE_PORTS_def)
    then have "k + 4 * length ports < 2 ^ 28" using a(3) by simp
    from discovers_poe_ports [OF room a(1,2) this] obtain r1 c1 where
      1: "discover_poe_ports ports (r, c) = Some (r1, c1)" "reg_ok (k + 4 * length ports) r1" "grows r r1" "coll_ok r1 c1" by blast
    have body: "discover_poe w (r, c) = (if co_poe c1 \<noteq> [] then do {
             (i, r) \<leftarrow> reg ''poe.total'' ''PoE total draw'' ''W'' ''poe'' r1;
             (j, r) \<leftarrow> reg ''poe.budget'' ''PoE budget'' ''W'' ''poe'' r;
             Some (r, c1\<lparr>co_poe_total := i, co_poe_budget := j\<rparr>)
           } else Some (r1, c1))"
      using Some 1(1) by (auto simp: discover_poe_def ports_def split: option.splits if_splits)
    have k64: "reg_ok (k + 64) r1" using reg_ok_mono [OF 1(2)] sixteen by simp
    show ?thesis
    proof (cases "co_poe c1 = []")
      case True
      then show ?thesis using body 1 reg_ok_mono [OF k64, of "k + 66"] by simp
    next
      case False
      obtain i r2 where 2: "reg ''poe.total'' ''PoE total draw'' ''W'' ''poe'' r1 = Some (i, r2)" "reg_ok (Suc (k + 64)) r2"
        "grows r1 r2" "idx_ok r2 i" using reg_step [OF k64] a(3) by fastforce
      obtain j r3 where 3: "reg ''poe.budget'' ''PoE budget'' ''W'' ''poe'' r2 = Some (j, r3)" "reg_ok (Suc (Suc (k + 64))) r3"
        "grows r2 r3" "idx_ok r3 j" using reg_step [OF 2(2)] a(3) by fastforce
      have g: "grows r r3" using grows_trans 1(3) 2(3) 3(3) by blast
      have "coll_ok r3 c1" using coll_ok_grows [OF 1(4)] grows_trans [OF 2(3) 3(3)] by blast
      then have "coll_ok r3 (c1\<lparr>co_poe_total := i, co_poe_budget := j\<rparr>)"
        using idx_ok_grows [OF 2(4) 3(3)] 3(4) by (simp add: coll_defs)
      then show ?thesis using body False 2(1) 3(1,2) g by (simp add: numeral_eq_Suc)
    qed
  qed
qed

lemma discovers_cong: "discovers m f \<Longrightarrow> (\<And>rc. g rc = f rc) \<Longrightarrow> discovers m g"
  by (simp add: discovers_def)

lemma discovers_sensors: "discovers 18 (discover_sensors w)"
proof (cases "w_vapix w ''temperaturecontrol.cgi''")
  case None
  then show ?thesis by (intro discovers_cong [OF discovers_nothing]) (simp add: discover_sensors_def)
next
  case (Some body)
  define fan where "fan = (\<lambda>rc :: discovery. case rc of (r, c) \<Rightarrow> do {
    (i, r) \<leftarrow> reg ''sensor.fan_rpm'' ''Fan speed'' ''rpm'' ''temperature'' r; Some (r, c\<lparr>co_fan_rpm := i\<rparr>) })"
  define heater where "heater = (\<lambda>rc :: discovery. case rc of (r, c) \<Rightarrow> do {
    (i, r) \<leftarrow> reg ''sensor.heater'' ''Heater running'' '''' ''temperature'' r; Some (r, c\<lparr>co_heater := i\<rparr>) })"
  have fan: "discovers 1 fan" unfolding fan_def
    by (rule discovers_reg_put) (simp add: coll_defs)
  have heater: "discovers 1 heater" unfolding heater_def
    by (rule discovers_reg_put) (simp add: coll_defs)
  have "discovers (1 * MAX_SENSORS + (1 + 1)) (\<lambda>rc. do { rc \<leftarrow> discover_sensor_lines (strsplit CHR 0x0A body) rc;
      rc \<leftarrow> (if strstr body ''Fan.F0.'' \<noteq> None then fan else Some) rc;
      (if strstr body ''Heater.H0.'' \<noteq> None then heater else Some) rc })"
    by (intro discovers_then discovers_sensor_lines) (use fan heater discovers_nothing in auto)
  then have "discovers 18 (\<lambda>rc. do { rc \<leftarrow> discover_sensor_lines (strsplit CHR 0x0A body) rc;
      rc \<leftarrow> (if strstr body ''Fan.F0.'' \<noteq> None then fan else Some) rc;
      (if strstr body ''Heater.H0.'' \<noteq> None then heater else Some) rc })"
    by (simp add: MAX_SENSORS_def)
  then show ?thesis
    by (rule discovers_cong)
      (auto simp: discover_sensors_def Some fan_def heater_def intro!: Option.bind_cong split: prod.splits)
qed

lemma discovers_flash_wear: "discovers 2 (discover_flash_wear w)"
proof (cases "case w_dir w ''/sys/class/mmc_host'' of None \<Rightarrow> None | Some hosts \<Rightarrow> flash_host w hosts")
  case None
  then show ?thesis
    by (intro discovers_cong [OF discovers_nothing]) (auto simp: discover_flash_wear_def split: option.splits)
next
  case (Some paths)
  obtain life eol where paths: "paths = (life, eol)" by (cases paths)
  define wear where "wear = (\<lambda>rc :: discovery. case rc of (r, c) \<Rightarrow> do {
    (i, r) \<leftarrow> reg ''flash.life_used'' ''Flash life used'' ''%'' ''storage'' r;
    Some (r, c\<lparr>co_flash_life_path := strlcpy 160 life, co_flash_eol_path := strlcpy 160 eol, co_flash_life := i\<rparr>) })"
  define state where "state = (\<lambda>rc :: discovery. case rc of (r, c) \<Rightarrow> do {
    (j, r) \<leftarrow> reg ''flash.pre_eol'' ''Flash pre-EOL state'' '''' ''storage'' r; Some (r, c\<lparr>co_flash_eol := j\<rparr>) })"
  have "discovers 1 wear" unfolding wear_def by (rule discovers_reg_put) (simp add: coll_defs)
  moreover have "discovers 1 state" unfolding state_def by (rule discovers_reg_put) (simp add: coll_defs)
  ultimately have "discovers (1 + 1) (\<lambda>rc. do { rc \<leftarrow> wear rc; state rc })" by (rule discovers_then)
  then have "discovers 2 (\<lambda>rc. do { rc \<leftarrow> wear rc; state rc })" by (simp add: numeral_2_eq_2)
  then show ?thesis
    by (rule discovers_cong) (use Some paths in \<open>auto simp: discover_flash_wear_def wear_def state_def
      intro!: Option.bind_cong split: prod.splits option.splits\<close>)
qed

lemma discovers_zones_from: "length is + length (co_zones c) \<le> MAX_ZONES \<Longrightarrow> reg_ok k r \<Longrightarrow> coll_ok r c \<Longrightarrow>
    k + length is < 2 ^ 28 \<Longrightarrow>
    \<exists>r' c'. discover_zones_from w is (r, c) = Some (r', c') \<and> reg_ok (k + length is) r' \<and> grows r r' \<and> coll_ok r' c'"
proof (induction "is" arbitrary: k r c)
  case (Cons i "is")
  let ?path = "strlcpy 160 (''/sys/class/thermal/thermal_zone'' @ show_nat i @ ''/type'')"
  show ?case
  proof (cases "read_text w ?path 64")
    case None
    then show ?thesis using Cons.prems reg_ok_mono [OF Cons.prems(2)] by simp
  next
    case (Some buf)
    have "k < 2 ^ 28" using Cons.prems(4) by simp
    from reg_step [OF Cons.prems(2) this] obtain idx r1 where
      1: "reg (id_text (''temp.'' @ sanitize (strstrip buf) 64)) (label_text (strstrip buf @ '' temperature'')) ''C'' ''temperature'' r
        = Some (idx, r1)" "reg_ok (Suc k) r1" "grows r r1" "idx_ok r1 idx" by blast
    define c1 where "c1 = c\<lparr>co_zones := co_zones c @
      [\<lparr>zn_path = strlcpy 128 (''/sys/class/thermal/thermal_zone'' @ show_nat i @ ''/temp''), zn_idx = idx\<rparr>]\<rparr>"
    have "coll_ok r1 c1" using coll_ok_grows [OF Cons.prems(3) 1(3)] 1(4) Cons.prems(1) by (simp add: coll_defs c1_def)
    moreover have "length is + length (co_zones c1) \<le> MAX_ZONES" "Suc k + length is < 2 ^ 28"
      using Cons.prems(1,4) by (simp_all add: c1_def)
    ultimately obtain r2 c2 where 2: "discover_zones_from w is (r1, c1) = Some (r2, c2)" "reg_ok (Suc k + length is) r2"
      "grows r1 r2" "coll_ok r2 c2" using Cons.IH [OF _ 1(2)] by blast
    have "discover_zones_from w (i # is) (r, c) = Some (r2, c2)"
      using Some 1(1) 2(1) by (simp add: c1_def)
    then show ?thesis using 2 grows_trans [OF 1(3)] by auto
  qed
qed simp

lemma discovers_mounts_from:
  assumes "length seen = length (co_mounts c)" "reg_ok k r" "coll_ok r c" "k + 4 * (MAX_MOUNTS - length seen) < 2 ^ 28"
  shows "\<exists>r' c'. discover_mount_entries ms seen (r, c) = Some (r', c') \<and> reg_ok (k + 4 * (MAX_MOUNTS - length seen)) r'
    \<and> grows r r' \<and> coll_ok r' c' \<and> length (co_mounts c') = count_mounts ms seen"
  using assms
proof (induction ms arbitrary: seen k r c)
  case Nil
  then show ?case using reg_ok_mono [OF Nil(2)] by simp
next
  case (Cons m ms)
  show ?case
  proof (cases "length seen < MAX_MOUNTS \<and> mount_is_interesting m \<and> mnt_device m \<notin> set seen")
    case False
    then show ?thesis using Cons reg_ok_mono [OF Cons.prems(2)] by auto
  next
    case True
    let ?put = "\<lambda>is c. c\<lparr>co_mounts := co_mounts c @ [new_mount (mnt_point m) is]\<rparr>"
    have four: "length (fs_metrics (mnt_point m)) = 4" by (simp add: fs_metrics_def)
    have put: "coll_ok r' (?put is c)"
      if "coll_ok r' c" "length is = length (fs_metrics (mnt_point m))" "\<forall>i \<in> set is. idx_ok r' i" for r' "is"
      using that Cons.prems(1) True four by (simp add: coll_defs mount_indices_def new_mount_def nth_idx_ok)
    have split: "4 * (MAX_MOUNTS - length seen) = 4 + 4 * (MAX_MOUNTS - Suc (length seen))" using True by linarith
    have k: "k + length (fs_metrics (mnt_point m)) < 2 ^ 28" "k + 4 + 4 * (MAX_MOUNTS - Suc (length seen)) < 2 ^ 28"
      using Cons.prems(4) unfolding split four by linarith+
    from device_step [of k r c "fs_metrics (mnt_point m)" ?put, OF Cons.prems(2,3) k(1) put]
    obtain r1 "is" where 1: "discover_mount (mnt_point m) (r, c) = Some (r1, ?put is c)"
      "reg_ok (k + 4) r1" "grows r r1" "coll_ok r1 (?put is c)"
      unfolding discover_mount_def four by blast
    define seen1 where "seen1 = seen @ [strlcpy 128 (mnt_device m)]"
    have len1: "length seen1 = length (co_mounts (?put is c))" "length seen1 = Suc (length seen)"
      using Cons.prems(1) by (simp_all add: seen1_def)
    obtain r2 c2 where 2: "discover_mount_entries ms seen1 (r1, ?put is c) = Some (r2, c2)"
      "reg_ok (k + 4 + 4 * (MAX_MOUNTS - length seen1)) r2" "grows r1 r2" "coll_ok r2 c2"
      "length (co_mounts c2) = count_mounts ms seen1"
      using Cons.IH [OF len1(1) 1(2,4)] k(2) len1(2) by metis
    have "discover_mount_entries (m # ms) seen (r, c) = Some (r2, c2)"
      using True Cons.prems(1) 1(1) 2(1) by (simp add: seen1_def)
    moreover have "count_mounts (m # ms) seen = count_mounts ms seen1" using True by (simp add: seen1_def)
    moreover have "reg_ok (k + 4 * (MAX_MOUNTS - length seen)) r2" using 2(2) by (simp only: split len1(2) add.assoc)
    ultimately show ?thesis using 2 grows_trans [OF 1(3) 2(3)] by metis
  qed
qed


section \<open>Processors\<close>

text \<open>
  A registry whose ids are distinct and among \<open>keys\<close>: the lines of \<^verbatim>\<open>/proc/stat\<close> may repeat a
  processor as often as they like.
\<close>

definition reg_in :: "string list \<Rightarrow> metric_registry \<Rightarrow> bool" where
  "reg_in keys r \<longleftrightarrow> reg_inv r \<and> unat (reg_capacity r) \<le> max 64 (2 * unat (reg_count r)) \<and> distinct (reg_ids r)
   \<and> set (reg_ids r) \<subseteq> set keys"

lemma reg_in_ok:
  assumes "reg_in keys r"
  shows "reg_ok (length keys) r"
proof -
  have "unat (reg_count r) = card (set (reg_ids r))"
    using assms length_reg_ids [of r] by (simp add: reg_in_def distinct_card)
  also have "\<dots> \<le> card (set keys)" using assms by (intro card_mono) (simp_all add: reg_in_def)
  also have "\<dots> \<le> length keys" by (rule card_length)
  finally show ?thesis using assms by (simp add: reg_in_def reg_ok_def)
qed

lemma reg_in_step:
  assumes r: "reg_in keys r" and key: "key \<in> set keys" "length key < METRIC_ID_MAX" and small: "length keys < 2 ^ 28"
  shows "\<exists>i r'. reg key label unit grp r = Some (i, r') \<and> reg_in keys r' \<and> grows r r' \<and> idx_ok r' i"
proof -
  have inv: "reg_inv r" "unat (reg_capacity r) \<le> max 64 (2 * unat (reg_count r))" "distinct (reg_ids r)"
    "set (reg_ids r) \<subseteq> set keys" using r by (simp_all add: reg_in_def)
  have ok: "reg_ok (length keys) r" by (rule reg_in_ok [OF r])
  obtain i r' where step: "reg key label unit grp r = Some (i, r')" "reg_ok (Suc (length keys)) r'" "grows r r'" "idx_ok r' i"
    using reg_step [OF ok small] by blast
  have "reg_in keys r'"
  proof (cases "key \<in> set (reg_ids r)")
    case True
    then show ?thesis using step(1) register_existing [OF inv(1) True] r by (simp add: reg_def)
  next
    case False
    have cap: "unat (reg_capacity r) < 2 ^ 31" using inv(2) ok small by (auto simp: reg_ok_def)
    obtain s where s: "metrics_register r key (Some label) (Some unit) (Some grp) = Some (reg_count r, s)"
      "reg_ids s = reg_ids r @ [strlcpy METRIC_ID_MAX key]"
      using register_new [OF inv(1) cap False] by metis
    have "s = r'" using s(1) step(1) by (simp add: reg_def)
    then have "reg_ids r' = reg_ids r @ [key]" using s(2) key(2) by (simp add: strlcpy_id)
    then show ?thesis using step(2) inv(3,4) False key(1) by (simp add: reg_in_def reg_ok_def)
  qed
  with step show ?thesis by blast
qed

lemma reg_in_list:
  assumes "reg_in keys r" "\<forall>m \<in> set ms. fst m \<in> set keys \<and> length (fst m) < METRIC_ID_MAX" "length keys < 2 ^ 28"
  shows "\<exists>is r'. reg_list ms r = Some (is, r') \<and> length is = length ms \<and> reg_in keys r' \<and> grows r r'
    \<and> (\<forall>i \<in> set is. idx_ok r' i)"
  using assms
proof (induction ms arbitrary: r)
  case (Cons m ms)
  obtain key label unit grp where m: "m = (key, label, unit, grp)" by (metis surj_pair)
  have key: "key \<in> set keys" "length key < METRIC_ID_MAX" using Cons.prems(2) by (simp_all add: m)
  obtain i r1 where r1: "reg key label unit grp r = Some (i, r1)" "reg_in keys r1" "grows r r1" "idx_ok r1 i"
    using reg_in_step [OF Cons.prems(1) key Cons.prems(3)] by blast
  obtain "is" r2 where r2: "reg_list ms r1 = Some (is, r2)" "length is = length ms" "reg_in keys r2" "grows r1 r2"
    "\<forall>i \<in> set is. idx_ok r2 i"
    using Cons.IH [OF r1(2)] Cons.prems(2,3) by auto
  show ?case using r1 r2 grows_trans [OF r1(3) r2(4)] idx_ok_grows [OF r1(4) r2(4)] by (auto simp: m)
qed simp

definition core_keys :: "nat \<Rightarrow> string list" where
  "core_keys n = [id_text (''cpu.core'' @ show_nat n @ ''.usage''), id_text (''cpu.core'' @ show_nat n @ ''.freq'')]"

definition cpu_keys :: "string list" where
  "cpu_keys = map fst cpu_metrics @ concat (map core_keys [0..<MAX_CORES])"

lemma length_cpu_keys: "length cpu_keys = 71"
proof -
  have "length (concat (map core_keys ns)) = 2 * length ns" for ns
    by (induction ns) (simp_all add: core_keys_def)
  then show ?thesis by (simp add: cpu_keys_def cpu_metrics_def MAX_CORES_def)
qed

lemma length_id_text: "length (id_text s) < METRIC_ID_MAX"
  by (simp add: id_text_def METRIC_ID_MAX_def strlcpy_def)

lemma discover_core_ok:
  assumes r: "reg_in cpu_keys r" and c: "coll_ok r c" and core: "unat core < MAX_CORES"
  shows "\<exists>r' c'. discover_core core (r, c) = Some (r', c') \<and> reg_in cpu_keys r' \<and> grows r r' \<and> coll_ok r' c'"
proof -
  let ?usage = "id_text (''cpu.core'' @ show_guint core @ ''.usage'')" and ?freq = "id_text (''cpu.core'' @ show_guint core @ ''.freq'')"
  have keys: "?usage \<in> set cpu_keys" "?freq \<in> set cpu_keys"
    using core by (auto simp: cpu_keys_def core_keys_def show_guint_def)
  have small: "length cpu_keys < 2 ^ 28" by (simp add: length_cpu_keys)
  obtain i r1 where 1: "reg ?usage (label_text (''Core '' @ show_guint core @ '' usage'')) ''%'' ''cpu'' r = Some (i, r1)"
    "reg_in cpu_keys r1" "grows r r1" "idx_ok r1 i"
    using reg_in_step [OF r keys(1) length_id_text small] by blast
  obtain j r2 where 2: "reg ?freq (label_text (''Core '' @ show_guint core @ '' frequency'')) ''MHz'' ''cpu'' r1 = Some (j, r2)"
    "reg_in cpu_keys r2" "grows r1 r2" "idx_ok r2 j"
    using reg_in_step [OF 1(2) keys(2) length_id_text small] by blast
  have c2: "coll_ok r2 c" using coll_ok_grows [OF c] grows_trans [OF 1(3) 2(3)] by blast
  have len: "unat core < length (cg_core_usage (co_cpu c))" "unat core < length (cg_core_freq (co_cpu c))"
    using c core by (simp_all add: coll_defs)
  let ?c = "c\<lparr>co_cpu := (co_cpu c)\<lparr>cg_core_usage := (cg_core_usage (co_cpu c))[unat core := i],
    cg_core_freq := (cg_core_freq (co_cpu c))[unat core := j], cg_n_cores := max (cg_n_cores (co_cpu c)) (unat core + 1)\<rparr>\<rparr>"
  have "discover_core core (r, c) = Some (r2, ?c)"
    using 1(1) 2(1) len by (simp add: discover_core_def arr_simps)
  moreover have "coll_ok r2 ?c"
    using c2 idx_ok_grows [OF 1(4) 2(3)] 2(4) core
    by (auto simp: coll_defs cpu_indices_def list_all_iff dest!: set_update_subset_insert [THEN subsetD])
  ultimately show ?thesis using 2 grows_trans [OF 1(3) 2(3)] by blast
qed

lemma discover_core_lines_ok:
  assumes "reg_in cpu_keys r" "coll_ok r c"
  shows "\<exists>r' c'. discover_core_lines lines (r, c) = Some (r', c') \<and> reg_in cpu_keys r' \<and> grows r r' \<and> coll_ok r' c'"
  using assms
proof (induction lines arbitrary: r c)
  case (Cons line lines)
  show ?case
  proof (cases "\<exists>core. core_of_line line = Some core \<and> unat core < MAX_CORES")
    case True
    then obtain core where core: "core_of_line line = Some core" "unat core < MAX_CORES" by blast
    obtain r1 c1 where 1: "discover_core core (r, c) = Some (r1, c1)" "reg_in cpu_keys r1" "grows r r1" "coll_ok r1 c1"
      using discover_core_ok [OF Cons.prems core(2)] by blast
    show ?thesis using Cons.IH [OF 1(2,4)] core 1(1) grows_trans [OF 1(3)] by auto
  next
    case False
    then show ?thesis using Cons.IH [OF Cons.prems] by (auto split: option.splits)
  qed
qed simp


lemma reg_in_init: "reg_in keys metrics_registry_init"
  using reg_inv_init by (simp add: reg_in_def metrics_registry_init_def reg_ids_def)

lemma zero_collector_cpu [simp]: "co_cpu zero_collector = zero_cpu"
  by (simp add: zero_collector_def)

lemma discover_cpu_ok:
  "\<exists>r c. discover_cpu w (metrics_registry_init, zero_collector) = Some (r, c) \<and> reg_ok 71 r \<and> coll_ok r c"
proof -
  have "\<forall>m \<in> set cpu_metrics. fst m \<in> set cpu_keys \<and> length (fst m) < METRIC_ID_MAX"
    by (simp add: cpu_keys_def cpu_metrics_def METRIC_ID_MAX_def)
  from reg_in_list [OF reg_in_init this] obtain "is" r1 where
    1: "reg_list cpu_metrics metrics_registry_init = Some (is, r1)" "length is = length cpu_metrics" "reg_in cpu_keys r1"
      "\<forall>i \<in> set is. idx_ok r1 i" by (auto simp: length_cpu_keys)
  have seven: "length is = 7" using 1(2) by (simp add: cpu_metrics_def)
  then have "idx_ok r1 (is ! 0)" using 1(4) by simp
  then have pos: "0 < unat (reg_count r1)" by (simp add: idx_ok_def)
  let ?c = "zero_collector\<lparr>co_cpu := zero_cpu\<lparr>cg_usage := is ! 0, cg_user := is ! 1, cg_system := is ! 2, cg_iowait := is ! 3,
       cg_irq := is ! 4, cg_steal := is ! 5, cg_freq := is ! 6\<rparr>\<rparr>"
  have c: "coll_ok r1 ?c"
    using 1(4) seven pos by (simp add: coll_defs zero_collector_def zero_cpu_def zero_system_def cpu_indices_def
        system_indices_def nth_idx_ok list_all_iff idx_ok_def)
  have step: "discover_cpu w (metrics_registry_init, zero_collector) = (case w_file w ''/proc/stat'' of None \<Rightarrow> Some (r1, ?c)
      | Some t \<Rightarrow> discover_core_lines (fgets_lines 512 t) (r1, ?c))"
    using 1(1) by (simp add: discover_cpu_def Let_def split: option.split)
  show ?thesis
  proof (cases "w_file w ''/proc/stat''")
    case None
    then show ?thesis using step reg_in_ok [OF 1(3)] c by (simp add: length_cpu_keys)
  next
    case (Some t)
    obtain r c where "discover_core_lines (fgets_lines 512 t) (r1, ?c) = Some (r, c)" "reg_in cpu_keys r" "coll_ok r c"
      using discover_core_lines_ok [OF 1(3) c] by blast
    then show ?thesis using step Some reg_in_ok [of cpu_keys r] by (simp add: length_cpu_keys)
  qed
qed

section \<open>The mount table\<close>

text \<open>A part of the discovery that leaves a part of the collector alone.\<close>

definition keeps :: "(collector \<Rightarrow> 'a) \<Rightarrow> (discovery \<Rightarrow> discovery option) \<Rightarrow> bool" where
  "keeps p f \<longleftrightarrow> (\<forall>rc rc'. f rc = Some rc' \<longrightarrow> p (snd rc') = p (snd rc))"

lemma keepsD: "keeps p f \<Longrightarrow> f rc = Some rc' \<Longrightarrow> p (snd rc') = p (snd rc)"
  unfolding keeps_def by blast

lemma keeps_cpu: "keeps (\<lambda>c. (co_mounts c, co_zones c)) (discover_cpu w)"
proof -
  have "co_mounts (snd rc') = co_mounts (snd rc) \<and> co_zones (snd rc') = co_zones (snd rc)" if "discover_core_lines ls rc = Some rc'" for ls rc rc'
    using that by (induction ls rc rule: discover_core_lines.induct)
      (auto simp: discover_core_def split: option.splits if_splits bind_splits prod.splits)
  then show ?thesis
    by (fastforce simp: keeps_def discover_cpu_def Let_def split: option.splits bind_splits)
qed

lemma keeps_system: "keeps (\<lambda>c. (co_mounts c, co_zones c)) discover_system"
  by (auto simp: keeps_def discover_system_def split: bind_splits)

lemma keeps_zones: "keeps co_mounts (discover_zones w)"
proof -
  have "co_mounts (snd rc') = co_mounts (snd rc)" if "discover_zones_from w is rc = Some rc'" for "is" rc rc'
    using that by (induction w "is" rc rule: discover_zones_from.induct)
      (auto simp: Let_def split: option.splits bind_splits prod.splits)
  then show ?thesis by (simp add: keeps_def discover_zones_def)
qed

lemma keeps_ifaces: "keeps co_mounts (discover_ifaces w)"
proof -
  have "co_mounts (snd rc') = co_mounts (snd rc)" if "discover_iface_lines ls rc = Some rc'" for ls rc rc'
    using that by (induction ls rc rule: discover_iface_lines.induct)
      (auto simp: discover_iface_def split: option.splits if_splits bind_splits prod.splits)
  then show ?thesis by (fastforce simp: keeps_def discover_ifaces_def split: option.splits)
qed

lemma keeps_disks: "keeps co_mounts (discover_disks w)"
proof -
  have "co_mounts (snd rc') = co_mounts (snd rc)" if "discover_disk_lines w ls rc = Some rc'" for ls rc rc'
    using that by (induction w ls rc rule: discover_disk_lines.induct)
      (auto simp: discover_disk_def split: option.splits if_splits bind_splits prod.splits)
  then show ?thesis by (fastforce simp: keeps_def discover_disks_def split: option.splits)
qed

lemma keeps_sensors: "keeps co_mounts (discover_sensors w)"
proof -
  have "co_mounts (snd rc') = co_mounts (snd rc)" if "discover_sensor_lines ls rc = Some rc'" for ls rc rc'
    using that by (induction ls rc rule: discover_sensor_lines.induct)
      (auto simp: discover_sensor_def split: option.splits if_splits bind_splits prod.splits)
  then show ?thesis
    by (fastforce simp: keeps_def discover_sensors_def split: option.splits bind_splits if_splits)
qed

lemma keeps_poe: "keeps co_mounts (discover_poe w)"
proof -
  have "co_mounts (snd rc') = co_mounts (snd rc)" if "discover_poe_ports ps rc = Some rc'" for ps rc rc'
    using that by (induction ps rc rule: discover_poe_ports.induct)
      (auto simp: discover_poe_port_def split: option.splits bind_splits prod.splits)
  then show ?thesis
    by (fastforce simp: keeps_def discover_poe_def split: option.splits bind_splits if_splits)
qed

lemma keeps_flash_wear: "keeps co_mounts (discover_flash_wear w)"
  by (auto simp: keeps_def discover_flash_wear_def split: option.splits bind_splits prod.splits)


section \<open>A new collector\<close>

lemma discovers_zones:
  assumes "reg_ok k r" "coll_ok r c" "co_zones c = []" "k + MAX_ZONES < 2 ^ 28"
  obtains r' c' where "discover_zones w (r, c) = Some (r', c')" "reg_ok (k + MAX_ZONES) r'" "coll_ok r' c'"
  using discovers_zones_from [of "[0..<MAX_ZONES]" c k r w] assms by (auto simp: discover_zones_def)

text \<open>A table that is read when its file is there.\<close>

lemma discovers_file:
  assumes "\<And>t. discovers m (f t)"
  shows "discovers m (\<lambda>rc. case w_file w path of None \<Rightarrow> Some rc | Some t \<Rightarrow> f t rc)"
  using assms discovers_nothing by (cases "w_file w path") (simp_all add: discovers_def)

lemma discovers_ifaces: "discovers 320 (discover_ifaces w)"
proof -
  have "discovers 320 (discover_iface_lines ls)" for ls
    using discovers_iface_lines [of ls] by (simp add: MAX_IFACES_def)
  from discovers_file [where f = "\<lambda>t. discover_iface_lines (drop 2 (fgets_lines 512 t))", OF this]
  show ?thesis by (rule discovers_cong) (simp add: discover_ifaces_def)
qed

lemma discovers_disks: "discovers 120 (discover_disks w)"
proof -
  have "discovers 120 (discover_disk_lines w ls)" for ls
    using discovers_disk_lines [of w ls] by (simp add: MAX_DISKS_def)
  from discovers_file [where f = "\<lambda>t. discover_disk_lines w (fgets_lines 512 t)", OF this]
  show ?thesis by (rule discovers_cong) (simp add: discover_disks_def)
qed

lemma discovers_mounts:
  assumes "reg_ok k r" "coll_ok r c" "co_mounts c = []" "k + 64 < 2 ^ 28"
  obtains r' c' where "discover_mounts w (r, c) = Some (r', c')" "reg_ok (k + 64) r'" "coll_ok r' c'"
    "\<not> collector_mounts_changed w c'"
proof (cases "w_file w ''/proc/mounts''")
  case None
  then show ?thesis using that [of r c] assms reg_ok_mono [OF assms(1), of "k + 64"]
    by (simp add: discover_mounts_def collector_mounts_changed_def)
next
  case (Some t)
  have "k + 4 * (MAX_MOUNTS - length ([] :: string list)) < 2 ^ 28" using assms(4) by (simp add: MAX_MOUNTS_def)
  with discovers_mounts_from [of "[]" c k r "mounts_entries t"] assms(1-3) obtain r' c' where
    "discover_mount_entries (mounts_entries t) [] (r, c) = Some (r', c')" "reg_ok (k + 4 * MAX_MOUNTS) r'" "coll_ok r' c'"
    "length (co_mounts c') = count_mounts (mounts_entries t) []" by auto
  then show ?thesis using that [of r' c'] Some
    by (simp add: discover_mounts_def collector_mounts_changed_def MAX_MOUNTS_def)
qed

lemma mounts_changed_cong: "co_mounts c' = co_mounts c \<Longrightarrow> collector_mounts_changed w c' = collector_mounts_changed w c"
  by (simp add: collector_mounts_changed_def split: option.split)

lemma discover_all_ok:
  obtains r c where "discover_all w (metrics_registry_init, zero_collector) = Some (r, c)" "reg_ok 697 r" "coll_ok r c"
    "\<not> collector_mounts_changed w c"
proof -
  obtain r1 c1 where 1: "discover_cpu w (metrics_registry_init, zero_collector) = Some (r1, c1)" "reg_ok 71 r1" "coll_ok r1 c1"
    using discover_cpu_ok by blast
  obtain r2 c2 where 2: "discover_system (r1, c1) = Some (r2, c2)" "reg_ok (71 + 20) r2" "coll_ok r2 c2"
    by (rule discoversD [OF discovers_system 1(2,3)]) (simp add: MAX_ZONES_def, blast)
  have z2: "co_zones c2 = []" "co_mounts c2 = []"
    using keepsD [OF keeps_cpu 1(1)] keepsD [OF keeps_system 2(1)] by (simp_all add: zero_collector_def)
  obtain r3 c3 where 3: "discover_zones w (r2, c2) = Some (r3, c3)" "reg_ok (71 + 20 + MAX_ZONES) r3" "coll_ok r3 c3"
    by (rule discovers_zones [OF 2(2,3) z2(1)]) (simp add: MAX_ZONES_def, blast)
  obtain r4 c4 where 4: "discover_ifaces w (r3, c3) = Some (r4, c4)" "reg_ok (71 + 20 + MAX_ZONES + 320) r4" "coll_ok r4 c4"
    by (rule discoversD [OF discovers_ifaces 3(2,3)]) (simp add: MAX_ZONES_def, blast)
  obtain r5 c5 where 5: "discover_disks w (r4, c4) = Some (r5, c5)" "reg_ok (71 + 20 + MAX_ZONES + 320 + 120) r5" "coll_ok r5 c5"
    by (rule discoversD [OF discovers_disks 4(2,3)]) (simp add: MAX_ZONES_def, blast)
  have z5: "co_mounts c5 = []"
    using z2(2) keepsD [OF keeps_zones 3(1)] keepsD [OF keeps_ifaces 4(1)] keepsD [OF keeps_disks 5(1)] by simp
  obtain r6 c6 where 6: "discover_mounts w (r5, c5) = Some (r6, c6)" "reg_ok (71 + 20 + MAX_ZONES + 320 + 120 + 64) r6"
    "coll_ok r6 c6" "\<not> collector_mounts_changed w c6"
    by (rule discovers_mounts [OF 5(2,3) z5]) (simp add: MAX_ZONES_def, blast)
  obtain r7 c7 where 7: "discover_sensors w (r6, c6) = Some (r7, c7)"
    "reg_ok (71 + 20 + MAX_ZONES + 320 + 120 + 64 + 18) r7" "coll_ok r7 c7"
    by (rule discoversD [OF discovers_sensors 6(2,3)]) (simp add: MAX_ZONES_def, blast)
  obtain r8 c8 where 8: "discover_poe w (r7, c7) = Some (r8, c8)"
    "reg_ok (71 + 20 + MAX_ZONES + 320 + 120 + 64 + 18 + 66) r8" "coll_ok r8 c8"
    by (rule discoversD [OF discovers_poe 7(2,3)]) (simp add: MAX_ZONES_def, blast)
  obtain r9 c9 where 9: "discover_flash_wear w (r8, c8) = Some (r9, c9)"
    "reg_ok (71 + 20 + MAX_ZONES + 320 + 120 + 64 + 18 + 66 + 2) r9" "coll_ok r9 c9"
    by (rule discoversD [OF discovers_flash_wear 8(2,3)]) (simp add: MAX_ZONES_def, blast)
  have "discover_all w (metrics_registry_init, zero_collector) = Some (r9, c9)"
    using 1(1) 2(1) 3(1) 4(1) 5(1) 6(1) 7(1) 8(1) 9(1) by (simp add: discover_all_def)
  moreover have "co_mounts c9 = co_mounts c6"
    using keepsD [OF keeps_sensors 7(1)] keepsD [OF keeps_poe 8(1)] keepsD [OF keeps_flash_wear 9(1)] by simp
  then have "\<not> collector_mounts_changed w c9" using 6(4) mounts_changed_cong by blast
  moreover have "reg_ok 697 r9" using 9(2) by (simp add: MAX_ZONES_def)
  ultimately show ?thesis using that 9(3) by blast
qed


lemma mark_all_ok: "\<forall>i \<in> set is. unat i < length bs \<Longrightarrow> \<exists>bs'. mark_all is bs = Some bs' \<and> length bs' = length bs"
proof (induction "is" arbitrary: bs)
  case (Cons i "is")
  from Cons.IH [of "bs[unat i := True]"] Cons.prems show ?case by (simp add: arr_simps)
qed simp

lemma slow_indices_among: "set (slow_indices c) \<subseteq> set (all_indices c)"
proof
  fix i assume "i \<in> set (slow_indices c)"
  then have "i \<in> set (map sn_idx (co_sensors c)) \<or> i \<in> set (concat (map poe_indices (co_poe c)))
      \<or> i \<in> set [co_fan_rpm c, co_heater c, co_poe_total c, co_poe_budget c, co_flash_life c, co_flash_eol c]"
    by (simp add: slow_indices_def poe_indices_def del: filter.simps) blast
  then show "i \<in> set (all_indices c)" unfolding all_indices_def set_append by blast
qed

text \<open>The registry and the collector of a running program.\<close>

definition collector_inv :: "metric_registry \<Rightarrow> collector \<Rightarrow> bool" where
  "collector_inv r c \<longleftrightarrow> coll_ok r c \<and> length (co_slow_cache c) = unat (reg_count r) \<and> length (co_is_slow c) = unat (reg_count r)"

lemma coll_ok_indices: "coll_ok r c \<Longrightarrow> i \<in> set (all_indices c) \<Longrightarrow> unat i < unat (reg_count r)"
  by (simp add: coll_ok_def list_all_iff idx_ok_def)

lemma collector_new_ok:
  obtains r c where "collector_new w metrics_registry_init = Some (r, c)" "reg_ok 697 r" "collector_inv r c"
    "\<not> collector_mounts_changed w c"
proof -
  obtain r c where 1: "discover_all w (metrics_registry_init, zero_collector) = Some (r, c)" "reg_ok 697 r" "coll_ok r c"
    "\<not> collector_mounts_changed w c" using discover_all_ok by blast
  let ?n = "unat (reg_count r)"
  let ?c = "c\<lparr>co_slow_cache := replicate ?n f32_nan, co_is_slow := replicate ?n False\<rparr>"
  have eq: "slow_indices ?c = slow_indices c" by (simp add: slow_indices_def)
  have "\<forall>i \<in> set (slow_indices ?c). unat i < length (replicate ?n False)"
    unfolding eq length_replicate using coll_ok_indices [OF 1(3)] slow_indices_among [of c] by blast
  from mark_all_ok [OF this] obtain bs where bs: "mark_all (slow_indices ?c) (replicate ?n False) = Some bs" "length bs = ?n"
    by auto
  let ?d = "?c\<lparr>co_is_slow := bs\<rparr>"
  have "collector_new w metrics_registry_init = Some (r, ?d)"
    using 1(1) bs(1) by (simp add: collector_new_def mark_slow_def)
  moreover have "collector_inv r ?d" using 1(3) bs(2) by (simp add: collector_inv_def coll_defs)
  moreover have "\<not> collector_mounts_changed w ?d" using 1(4) mounts_changed_cong [of ?d c] by simp
  ultimately show ?thesis using that 1(2) by blast
qed

section \<open>Sampling\<close>

lemma set_values_ok:
  "\<forall>iv \<in> set ivs. unat (fst iv) < length vs \<Longrightarrow> \<exists>vs'. set_values ivs vs = Some vs' \<and> length vs' = length vs"
proof (induction ivs arbitrary: vs)
  case (Cons iv ivs)
  from Cons.IH [of "vs[unat (fst iv) := double_to_f32 (snd iv)]"] Cons.prems show ?case
    by (simp add: set_value_def arr_simps)
qed simp

text \<open>What sampling leaves alone.\<close>

definition fixed_part :: "collector \<Rightarrow> gfloat list \<times> bool list \<times> sensor list" where
  "fixed_part c = (co_slow_cache c, co_is_slow c, co_sensors c)"

definition samples :: "metric_registry \<Rightarrow> (sampling \<Rightarrow> sampling option) \<Rightarrow> bool" where
  "samples r f \<longleftrightarrow> (\<forall>c vs. coll_ok r c \<longrightarrow> unat (reg_count r) \<le> length vs \<longrightarrow>
     (\<exists>c' vs'. f (c, vs) = Some (c', vs') \<and> coll_ok r c' \<and> length vs' = length vs \<and> fixed_part c' = fixed_part c))"

lemma samplesD:
  assumes "samples r f" "coll_ok r c" "unat (reg_count r) \<le> length vs"
  obtains c' vs' where "f (c, vs) = Some (c', vs')" "coll_ok r c'" "length vs' = length vs" "fixed_part c' = fixed_part c"
  using assms unfolding samples_def by blast

lemma samples_nothing: "samples r Some"
  by (simp add: samples_def)

lemma samples_then:
  assumes f: "samples r f" and g: "samples r g"
  shows "samples r (\<lambda>cv. do { cv1 \<leftarrow> f cv; g cv1 })"
  unfolding samples_def
proof (intro allI impI)
  fix c and vs :: "gfloat list" assume a: "coll_ok r c" "unat (reg_count r) \<le> length vs"
  from samplesD [OF f a] obtain c1 vs1 where 1: "f (c, vs) = Some (c1, vs1)" "coll_ok r c1" "length vs1 = length vs"
    "fixed_part c1 = fixed_part c" .
  have "unat (reg_count r) \<le> length vs1" using a(2) 1(3) by simp
  from samplesD [OF g 1(2) this] obtain c2 vs2 where 2: "g (c1, vs1) = Some (c2, vs2)" "coll_ok r c2" "length vs2 = length vs1"
    "fixed_part c2 = fixed_part c1" .
  show "\<exists>c' vs'. (do { cv1 \<leftarrow> f (c, vs); g cv1 }) = Some (c', vs') \<and> coll_ok r c' \<and> length vs' = length vs \<and> fixed_part c' = fixed_part c"
    using 1 2 by simp
qed

lemma samples_lines:
  assumes "\<And>line. samples r (f line)" "\<And>cv. g [] cv = Some cv" "\<And>line ls cv. g (line # ls) cv = (do { cv1 \<leftarrow> f line cv; g ls cv1 })"
  shows "samples r (g ls)"
proof (induction ls)
  case Nil
  then show ?case using samples_nothing [of r] assms(2) by (simp add: samples_def)
next
  case (Cons line ls)
  have "g (line # ls) = (\<lambda>cv. do { cv1 \<leftarrow> f line cv; g ls cv1 })" by (rule ext) (rule assms(3))
  then show ?case using samples_then [OF assms(1) Cons.IH] by simp
qed

text \<open>Readings for the collector's own metrics.\<close>

definition own :: "collector \<Rightarrow> (guint \<times> double) list \<Rightarrow> bool" where
  "own c ivs \<longleftrightarrow> (\<forall>iv \<in> set ivs. fst iv \<in> set (all_indices c))"

lemma set_values_own:
  assumes "own c ivs" "coll_ok r c" "unat (reg_count r) \<le> length vs"
  obtains vs' where "set_values ivs vs = Some vs'" "length vs' = length vs"
proof -
  have "unat (fst iv) < length vs" if "iv \<in> set ivs" for iv
    using coll_ok_indices [OF assms(2)] assms(1,3) that by (fastforce simp: own_def)
  then show ?thesis using set_values_ok [of ivs vs] that by blast
qed

text \<open>Readings of one device and what it remembers.\<close>

lemma samples_step:
  assumes "own c (ivs)" "coll_ok r c" "unat (reg_count r) \<le> length vs" "coll_ok r c'" "fixed_part c' = fixed_part c"
  shows "\<exists>c2 vs'. (do { vs1 \<leftarrow> set_values ivs vs; Some (c', vs1) }) = Some (c2, vs') \<and> coll_ok r c2 \<and> length vs' = length vs
    \<and> fixed_part c2 = fixed_part c"
  using set_values_own [OF assms(1-3)] assms(4,5) by (metis bind.bind_lunit)


lemma set_value_as_values: "set_value i v vs = set_values [(i, v)] vs"
  by (cases "set_value i v vs") simp_all

lemmas own_defs = own_def all_indices_def

subsection \<open>Processors\<close>

lemma coll_ok_cong: "coll_ok r c \<Longrightarrow> all_indices c' = all_indices c \<Longrightarrow> coll_shape c' = coll_shape c \<Longrightarrow> coll_ok r c'"
  by (simp add: coll_ok_def)

lemma own_Cons: "own c (iv # ivs) \<longleftrightarrow> fst iv \<in> set (all_indices c) \<and> own c ivs"
  by (simp add: own_def)

lemma own_Nil [simp]: "own c []"
  by (simp add: own_def)

lemma own_append: "own c (xs @ ys) \<longleftrightarrow> own c xs \<and> own c ys"
  by (auto simp: own_def)

lemma own_cpu: "i \<in> set (cpu_indices (co_cpu c)) \<Longrightarrow> i \<in> set (all_indices c)"
  by (simp add: all_indices_def)

lemma own_system: "i \<in> set (system_indices (co_sys c)) \<Longrightarrow> i \<in> set (all_indices c)"
  by (simp add: all_indices_def)

lemma length_cpu_fields: "length (cpu_fields rest) = 8"
  by (simp add: cpu_fields_def Let_def)

lemma sample_all_cpus_ok:
  assumes "coll_ok r c" "unat (reg_count r) \<le> length vs" "length v = 8"
  shows "\<exists>c' vs'. sample_all_cpus first v (c, vs) = Some (c', vs') \<and> coll_ok r c' \<and> length vs' = length vs
    \<and> fixed_part c' = fixed_part c"
proof -
  let ?ivs = "(cg_usage (co_cpu c), cpu_usage first (cg_prev_total (co_cpu c)) (cpu_total v)) # cpu_shares first (co_cpu c) v"
  have "own c ?ivs" by (auto simp: own_Cons cpu_shares_def Let_def cpu_indices_def intro!: own_cpu)
  moreover have "coll_ok r (c\<lparr>co_cpu := (co_cpu c)\<lparr>cg_prev_field := v, cg_prev_total := cpu_total v\<rparr>\<rparr>)"
    using assms(1,3) by (simp add: coll_defs cpu_indices_def)
  ultimately show ?thesis using samples_step [of c ?ivs r vs] assms(1,2)
    by (simp add: sample_all_cpus_def Let_def fixed_part_def del: set_values.simps)
qed

lemma sample_core_ok:
  assumes c: "coll_ok r c" "unat (reg_count r) \<le> length vs" and core: "unat core < cg_n_cores (co_cpu c)"
  shows "\<exists>c' vs'. sample_core first core v (c, vs) = Some (c', vs') \<and> coll_ok r c' \<and> length vs' = length vs
    \<and> fixed_part c' = fixed_part c"
proof -
  have len: "unat core < length (cg_prev_core (co_cpu c))" "unat core < length (cg_core_usage (co_cpu c))"
    using c(1) core by (simp_all add: coll_defs)
  let ?idx = "cg_core_usage (co_cpu c) ! unat core"
  let ?ivs = "[(?idx, cpu_usage first (cg_prev_core (co_cpu c) ! unat core) (cpu_total v))]"
  have "?idx \<in> set (cpu_indices (co_cpu c))" using len(2) by (simp add: cpu_indices_def)
  then have "own c ?ivs" by (simp add: own_Cons own_cpu)
  moreover have "coll_ok r (c\<lparr>co_cpu := (co_cpu c)\<lparr>cg_prev_core := (cg_prev_core (co_cpu c))[unat core := cpu_total v]\<rparr>\<rparr>)"
    using c(1) by (simp add: coll_defs cpu_indices_def)
  ultimately show ?thesis using samples_step [of c ?ivs r vs] c len
    by (simp add: sample_core_def Let_def fixed_part_def arr_simps set_value_as_values del: set_values.simps)
qed

lemma samples_cpu_line: "samples r (sample_cpu_line seconds first line)"
  unfolding samples_def
proof (intro allI impI)
  fix c and vs :: "gfloat list" assume a: "coll_ok r c" "unat (reg_count r) \<le> length vs"
  let ?goal = "\<lambda>res. \<exists>c' vs'. res = Some (c', vs') \<and> coll_ok r c' \<and> length vs' = length vs \<and> fixed_part c' = fixed_part c"
  have ctxt: "coll_ok r (c\<lparr>co_sys := (co_sys c)\<lparr>sg_prev_ctxt := n\<rparr>\<rparr>)" for n
    using a(1) by (simp add: coll_defs system_indices_def)
  have here: "own c [(sg_ctxt (co_sys c), x)]" "own c [(sg_procs_running (co_sys c), x)]" for x
    by (auto simp: own_Cons system_indices_def intro!: own_system)
  consider "has_prefix line ''ctxt ''" | "\<not> has_prefix line ''ctxt ''" "has_prefix line ''procs_running ''"
    | "\<not> has_prefix line ''ctxt ''" "\<not> has_prefix line ''procs_running ''" by blast
  then show "?goal (sample_cpu_line seconds first line (c, vs))"
  proof cases
    case 1
    then show ?thesis
      using samples_step [OF here(1) a ctxt] ctxt by (cases first) (simp_all add: sample_cpu_line_def Let_def set_value_as_values fixed_part_def del: set_values.simps)
  next
    case 2
    then show ?thesis using samples_step [OF here(2) a a(1)]
      by (simp add: sample_cpu_line_def set_value_as_values del: set_values.simps)
  next
    case 3
    then show ?thesis
      using a sample_all_cpus_ok [OF a length_cpu_fields] sample_core_ok [OF a]
      by (auto simp: sample_cpu_line_def split: option.splits)
  qed
qed


lemma sample_freqs_ok:
  assumes "coll_ok r c" "unat (reg_count r) \<le> length vs" "\<forall>core \<in> set cores. core < MAX_CORES"
  shows "\<exists>vs'. sample_freqs w (co_cpu c) cores acc n vs = Some vs' \<and> length vs' = length vs"
  using assms
proof (induction cores arbitrary: acc n vs)
  case Nil
  have "own c [(cg_freq (co_cpu c), x)]" for x by (simp add: own_Cons own_cpu cpu_indices_def)
  from set_values_own [OF this Nil(1,2)] show ?case
    by (simp only: sample_freqs.simps set_value_as_values) metis
next
  case (Cons core cores)
  show ?case
  proof (cases "isnan (read_double w (freq_path core) DNaN)")
    case True
    then show ?thesis using Cons by (simp add: Let_def)
  next
    case False
    have len: "core < length (cg_core_freq (co_cpu c))" using Cons.prems(1,3) by (simp add: coll_defs)
    let ?v = "ddiv (read_double w (freq_path core) DNaN) (num 1000)"
    have "cg_core_freq (co_cpu c) ! core \<in> set (cpu_indices (co_cpu c))" using len by (simp add: cpu_indices_def)
    then have "own c [(cg_core_freq (co_cpu c) ! core, ?v)]" by (simp add: own_Cons own_cpu)
    then obtain vs1 where 1: "set_value (cg_core_freq (co_cpu c) ! core) ?v vs = Some vs1" "length vs1 = length vs"
      using set_values_own [of c "[(cg_core_freq (co_cpu c) ! core, ?v)]" r vs] Cons.prems(1,2)
      unfolding set_value_as_values by blast
    then show ?thesis using False len Cons.IH [of vs1] Cons.prems by (simp add: Let_def arr_simps)
  qed
qed

lemma samples_file:
  assumes "\<And>t. samples r (f t)"
  shows "samples r (\<lambda>cv. case w_file w path of None \<Rightarrow> Some cv | Some t \<Rightarrow> f t cv)"
  using assms samples_nothing by (cases "w_file w path") (simp_all add: samples_def)

lemma samples_cong: "samples r f \<Longrightarrow> (\<And>c vs. g (c, vs) = f (c, vs)) \<Longrightarrow> samples r g"
  by (simp add: samples_def)

text \<open>A part that only writes readings.\<close>

lemma samples_readings:
  assumes "\<And>c vs. coll_ok r c \<Longrightarrow> unat (reg_count r) \<le> length vs \<Longrightarrow> \<exists>vs'. f c vs = Some vs' \<and> length vs' = length vs"
  shows "samples r (\<lambda>(c, vs). do { vs \<leftarrow> f c vs; Some (c, vs) })"
  unfolding samples_def using assms by fastforce

lemma samples_cpu: "samples r (sample_cpu w seconds first)"
proof -
  have lines: "samples r (sample_cpu_lines seconds first ls)" for ls
    by (rule samples_lines [where f = "sample_cpu_line seconds first"]) (simp_all add: samples_cpu_line)
  have freqs: "samples r (\<lambda>(c, vs). do { vs1 \<leftarrow> sample_freqs w (co_cpu c) [0..<cg_n_cores (co_cpu c)] (DFin 0) 0 vs; Some (c, vs1) })"
    by (rule samples_readings, rule sample_freqs_ok) (auto simp: coll_defs)
  have "samples r (\<lambda>cv. case w_file w ''/proc/stat'' of None \<Rightarrow> Some cv | Some t \<Rightarrow> do {
      cv1 \<leftarrow> sample_cpu_lines seconds first (fgets_lines 512 t) cv;
      case cv1 of (c, vs) \<Rightarrow> do { vs1 \<leftarrow> sample_freqs w (co_cpu c) [0..<cg_n_cores (co_cpu c)] (DFin 0) 0 vs; Some (c, vs1) } })"
    by (rule samples_file, rule samples_then [OF lines freqs])
  then show ?thesis by (rule samples_cong) (simp add: sample_cpu_def)
qed

subsection \<open>Memory, system, zones, mounts\<close>

lemma samples_own:
  assumes "\<And>c. own c (ivs c)"
  shows "samples r (\<lambda>(c, vs). do { vs \<leftarrow> set_values (ivs c) vs; Some (c, vs) })"
proof (rule samples_readings)
  fix c and vs :: "gfloat list" assume a: "coll_ok r c" "unat (reg_count r) \<le> length vs"
  from set_values_own [OF assms a] show "\<exists>vs'. set_values (ivs c) vs = Some vs' \<and> length vs' = length vs" by blast
qed

lemma samples_memory: "samples r (\<lambda>(c, vs). do { vs \<leftarrow> sample_memory w c vs; Some (c, vs) })"
proof (cases "w_file w ''/proc/meminfo''")
  case None
  then show ?thesis by (intro samples_cong [OF samples_nothing]) (simp add: sample_memory_def)
next
  case (Some t)
  have "own c (memory_readings (co_sys c) m)" for c m
    by (simp add: own_Cons memory_readings_def own_system system_indices_def)
  from samples_own [OF this] show ?thesis
    by (rule samples_cong) (simp add: sample_memory_def Some)
qed

lemma samples_system: "samples r (\<lambda>(c, vs). do { vs \<leftarrow> sample_system w c vs; Some (c, vs) })"
proof -
  have "own c (load_readings w (co_sys c))" for c
    by (simp add: load_readings_def Let_def own_Cons own_system system_indices_def split: option.split)
  moreover have "sg_uptime (co_sys c) \<in> set (all_indices c)" for c
    by (simp add: own_system system_indices_def)
  moreover have line: "own c (socket_reading (co_sys c) line)" for c line
    by (simp add: socket_reading_def own_Cons own_system system_indices_def split: option.split)
  then have "own c (concat (map (socket_reading (co_sys c)) ls))" for c ls
    by (induction ls) (simp_all add: own_append)
  ultimately show ?thesis
    unfolding sample_system_def by (intro samples_own) (simp add: own_append own_Cons split: option.split)
qed

lemma samples_zones: "samples r (\<lambda>(c, vs). do { vs \<leftarrow> sample_zones w c vs; Some (c, vs) })"
  unfolding sample_zones_def by (rule samples_own) (auto simp: own_def all_indices_def)

lemma samples_mounts: "samples r (\<lambda>(c, vs). do { vs \<leftarrow> sample_mounts w c vs; Some (c, vs) })"
proof -
  have "fst ` set (mount_readings w m) \<subseteq> set (mount_indices m)" for m
    by (simp add: mount_readings_def mount_indices_def Let_def split: option.split)
  then show ?thesis unfolding sample_mounts_def
    by (intro samples_own) (fastforce simp: own_def all_indices_def)
qed


subsection \<open>Interfaces and disks\<close>

lemma last_index_less: "last_index i ns name = Some j \<Longrightarrow> i \<le> j \<and> j < i + length ns"
  by (induction ns arbitrary: i j) (fastforce split: option.splits if_splits)+

text \<open>A device that remembers its counters keeps its indices.\<close>

lemma indices_update:
  assumes "i < length xs" "f y = f (xs ! i)"
  shows "concat (map f (xs[i := y])) = concat (map f xs)"
proof -
  have "map f (xs[i := y]) = (map f xs)[i := f (xs ! i)]" by (simp add: map_update assms)
  also have "\<dots> = map f xs" using assms(1) by (simp flip: nth_map)
  finally show ?thesis by simp
qed

lemma device_own:
  assumes "i < length xs" "list_all (\<lambda>iv. fst iv \<in> set (f (xs ! i))) ivs" "set (concat (map f xs)) \<subseteq> set (all_indices c)"
  shows "own c ivs"
  using assms nth_mem [OF assms(1)] by (fastforce simp: own_def list_all_iff)

lemma iface_readings_own: "list_all (\<lambda>iv. fst iv \<in> set (iface_indices f)) (iface_readings w seconds first f v)"
  by (simp add: iface_readings_def iface_indices_def Let_def split: option.split)

lemma disk_readings_own: "list_all (\<lambda>iv. fst iv \<in> set (disk_indices d)) (disk_readings seconds first d v)"
  by (simp add: disk_readings_def disk_indices_def)

lemma samples_iface_line: "samples r (sample_iface_line w seconds first line)"
  unfolding samples_def
proof (intro allI impI)
  fix c and vs :: "gfloat list" assume a: "coll_ok r c" "unat (reg_count r) \<le> length vs"
  let ?goal = "\<lambda>res. \<exists>c' vs'. res = Some (c', vs') \<and> coll_ok r c' \<and> length vs' = length vs \<and> fixed_part c' = fixed_part c"
  show "?goal (sample_iface_line w seconds first line (c, vs))"
  proof (cases "\<exists>name counters i. iface_line line = Some (name, counters) \<and> last_index 0 (map if_name (co_ifaces c)) name = Some i")
    case False
    then show ?thesis using a by (auto simp: sample_iface_line_def split: option.split prod.split)
  next
    case True
    then obtain name counters i where line: "iface_line line = Some (name, counters)"
      "last_index 0 (map if_name (co_ifaces c)) name = Some i" by blast
    have i: "i < length (co_ifaces c)" using last_index_less [OF line(2)] by simp
    define v where "v = map (\<lambda>k. uval (sscanf (\<lambda>_. None) iface_format counters) k 0) [0..<8]"
    let ?f = "co_ifaces c ! i"
    have own: "own c (iface_readings w seconds first ?f v)"
      by (rule device_own [OF i iface_readings_own]) (auto simp: all_indices_def)
    have "concat (map iface_indices ((co_ifaces c)[i := iface_remember v ?f])) = concat (map iface_indices (co_ifaces c))"
      by (rule indices_update [OF i]) (simp add: iface_indices_def iface_remember_def)
    then have "coll_ok r (c\<lparr>co_ifaces := (co_ifaces c)[i := iface_remember v ?f]\<rparr>)"
      using a(1) unfolding coll_ok_def by (simp add: all_indices_def coll_shape_def)
    from samples_step [OF own a this] show ?thesis
      by (simp add: sample_iface_line_def line Let_def v_def fixed_part_def)
  qed
qed

lemma samples_ifaces: "samples r (sample_ifaces w seconds first)"
proof -
  have "samples r (sample_iface_lines w seconds first ls)" for ls
    by (rule samples_lines [where f = "sample_iface_line w seconds first"]) (simp_all add: samples_iface_line)
  from samples_file [where f = "\<lambda>t. sample_iface_lines w seconds first (drop 2 (fgets_lines 512 t))", OF this]
  show ?thesis by (rule samples_cong) (simp add: sample_ifaces_def)
qed

lemma samples_disk_line: "samples r (sample_disk_line seconds first line)"
  unfolding samples_def
proof (intro allI impI)
  fix c and vs :: "gfloat list" assume a: "coll_ok r c" "unat (reg_count r) \<le> length vs"
  let ?goal = "\<lambda>res. \<exists>c' vs'. res = Some (c', vs') \<and> coll_ok r c' \<and> length vs' = length vs \<and> fixed_part c' = fixed_part c"
  let ?vals = "sscanf (\<lambda>_. None) disk_format line"
  show "?goal (sample_disk_line seconds first line (c, vs))"
  proof (cases "length ?vals = 6 \<and> last_index 0 (map bd_name (co_disks c)) (strval ?vals 0 []) \<noteq> None")
    case False
    then show ?thesis using a by (auto simp: sample_disk_line_def Let_def split: option.split)
  next
    case True
    then obtain i where line: "length ?vals = 6" "last_index 0 (map bd_name (co_disks c)) (strval ?vals 0 []) = Some i" by blast
    have i: "i < length (co_disks c)" using last_index_less [OF line(2)] by simp
    define v where "v = map (\<lambda>k. uval ?vals k 0) [1..<6]"
    let ?d = "co_disks c ! i"
    have own: "own c (disk_readings seconds first ?d v)"
      by (rule device_own [OF i disk_readings_own]) (auto simp: all_indices_def)
    have "concat (map disk_indices ((co_disks c)[i := disk_remember v ?d])) = concat (map disk_indices (co_disks c))"
      by (rule indices_update [OF i]) (simp add: disk_indices_def disk_remember_def)
    then have "coll_ok r (c\<lparr>co_disks := (co_disks c)[i := disk_remember v ?d]\<rparr>)"
      using a(1) unfolding coll_ok_def by (simp add: all_indices_def coll_shape_def)
    from samples_step [OF own a this] show ?thesis
      by (simp add: sample_disk_line_def line Let_def v_def fixed_part_def)
  qed
qed

lemma samples_disks: "samples r (sample_disks w seconds first)"
proof -
  have "samples r (sample_disk_lines seconds first ls)" for ls
    by (rule samples_lines [where f = "sample_disk_line seconds first"]) (simp_all add: samples_disk_line)
  from samples_file [where f = "\<lambda>t. sample_disk_lines seconds first (fgets_lines 512 t)", OF this]
  show ?thesis by (rule samples_cong) (simp add: sample_disks_def)
qed

lemma samples_fast: "samples r (sample_fast w seconds first)"
proof -
  note parts = samples_cpu [of r w seconds first] samples_memory [of r w] samples_system [of r w] samples_zones [of r w]
    samples_ifaces [of r w seconds first] samples_disks [of r w seconds first] samples_mounts [of r w]
  show ?thesis
    by (rule samples_cong [OF samples_then [OF parts(1) samples_then [OF parts(2) samples_then [OF parts(3)
      samples_then [OF parts(4) samples_then [OF parts(5) samples_then [OF parts(6) parts(7)]]]]]]])
      (simp add: sample_fast_def case_prod_unfold)
qed


subsection \<open>Slow sources\<close>

text \<open>The collector reads the place after the name of a sensor, so no answer may end with one.\<close>

definition answers_whole :: "world \<Rightarrow> bool" where
  "answers_whole w \<longleftrightarrow> (\<forall>body n. w_vapix w ''temperaturecontrol.cgi'' = Some body \<longrightarrow> \<not> has_suffix body (sensor_key n))"

lemma strstr_suffix: "strstr s p = Some t \<Longrightarrow> has_prefix t p \<and> has_suffix s t"
proof (induction s)
  case Nil
  then show ?case by (auto simp: has_prefix_def has_suffix_def split: if_splits)
next
  case (Cons c s)
  show ?case
  proof (cases "has_prefix (c # s) p")
    case True
    then show ?thesis using Cons.prems by (auto simp: has_suffix_def)
  next
    case False
    then have "has_prefix t p \<and> has_suffix s t" using Cons by simp
    then show ?thesis by (auto simp: has_suffix_def Suc_diff_le)
  qed
qed

lemma strstr_not_last:
  assumes "strstr body p = Some found" "\<not> has_suffix body p"
  shows "length p < length found"
proof (rule ccontr)
  assume "\<not> length p < length found"
  moreover have "take (length p) found = p" using strstr_suffix [OF assms(1)] by (simp add: has_prefix_def)
  ultimately have "found = p" by simp
  then show False using strstr_suffix [OF assms(1)] assms(2) by simp
qed

lemma sensor_readings_ok:
  assumes "\<forall>s \<in> set ss. \<not> has_suffix body (sn_name s)"
  shows "\<exists>ivs. sensor_readings w body ss = Some ivs \<and> list_all (\<lambda>iv. fst iv \<in> sn_idx ` set ss) ivs"
  using assms
proof (induction ss)
  case (Cons s ss)
  then obtain ivs where ivs: "sensor_readings w body ss = Some ivs" "list_all (\<lambda>iv. fst iv \<in> sn_idx ` set ss) ivs" by auto
  then have "list_all (\<lambda>iv. fst iv \<in> sn_idx ` set (s # ss)) ivs" by (auto simp: list_all_iff)
  moreover have "length (sn_name s) < length found" if "strstr body (sn_name s) = Some found" for found
    using strstr_not_last [OF that] Cons.prems by simp
  ultimately show ?case using ivs(1) by (auto simp: sensor_reading_def not_le split: option.split)
qed simp

lemma sample_sensors_ok:
  assumes "coll_ok r c" "unat (reg_count r) \<le> length vs" "answers_whole w"
  shows "\<exists>vs'. sample_sensors w c vs = Some vs' \<and> length vs' = length vs"
proof (cases "w_vapix w ''temperaturecontrol.cgi''")
  case None
  then show ?thesis by (simp add: sample_sensors_def)
next
  case (Some body)
  have "\<forall>s \<in> set (co_sensors c). \<not> has_suffix body (sn_name s)"
    using assms(1,3) Some by (auto simp: answers_whole_def coll_defs list_all_iff)
  from sensor_readings_ok [OF this] obtain ivs where ivs: "sensor_readings w body (co_sensors c) = Some ivs"
    "list_all (\<lambda>iv. fst iv \<in> sn_idx ` set (co_sensors c)) ivs" by blast
  have "own c ivs" using ivs(2) by (auto simp: own_def list_all_iff all_indices_def)
  moreover have "own c (fan_reading w body (co_fan_rpm c))" "own c (heater_reading body (co_heater c))"
    by (simp_all add: fan_reading_def heater_reading_def own_Cons all_indices_def split: option.split)
  ultimately have "own c (ivs @ fan_reading w body (co_fan_rpm c) @ heater_reading body (co_heater c))"
    by (simp add: own_append)
  from set_values_own [OF this assms(1,2)] show ?thesis
    using ivs(1) Some by (auto simp: sample_sensors_def)
qed

lemma poe_readings_own: "list_all (\<lambda>iv. fst iv \<in> set (concat (map poe_indices ps))) (fst (poe_readings w ps cursor watts))"
proof (induction w ps cursor watts rule: poe_readings.induct)
  case (2 w p ps cursor watts)
  then show ?case
    by (auto simp: Let_def poe_indices_def list_all_iff split: option.split prod.splits)
qed simp

lemma sample_poe_ok:
  assumes "coll_ok r c" "unat (reg_count r) \<le> length vs"
  shows "\<exists>vs'. sample_poe w c vs = Some vs' \<and> length vs' = length vs"
proof (cases "co_poe c = [] \<or> w_vapix w poe_request = None")
  case True
  then show ?thesis by (auto simp: sample_poe_def)
next
  case False
  then obtain body where body: "w_vapix w poe_request = Some body" by auto
  obtain ports total where ports: "poe_readings w (co_poe c) body (DFin 0) = (ports, total)" by (meson surj_pair)
  have "own c ports" using poe_readings_own [of "co_poe c" w body "DFin 0"] ports
    by (auto simp: own_def list_all_iff all_indices_def)
  then have "own c (ports @ [(co_poe_total c, total)] @ (case w_vapix w ''nvr/poe/gettotalpowerlimit.cgi'' of None \<Rightarrow> []
      | Some limit \<Rightarrow> [(co_poe_budget c, xml_value w limit ''Limit'')]))"
    by (simp add: own_append own_Cons all_indices_def split: option.split)
  from set_values_own [OF this assms] show ?thesis
    using False body ports by (auto simp: sample_poe_def)
qed

lemma sample_flash_wear_ok:
  assumes "coll_ok r c" "unat (reg_count r) \<le> length vs"
  shows "\<exists>vs'. sample_flash_wear w c vs = Some vs' \<and> length vs' = length vs"
proof -
  have "own c (wear_readings w c)"
    by (simp add: wear_readings_def Let_def own_append own_Cons all_indices_def split: option.split)
  from set_values_own [OF this assms] show ?thesis by (auto simp: sample_flash_wear_def)
qed

lemma sample_slow_ok:
  assumes "collector_inv r c" "answers_whole w"
  shows "\<exists>c'. sample_slow w now c = Some c' \<and> collector_inv r c' \<and> co_sensors c' = co_sensors c"
proof (cases "co_slow_deadline c \<le> now")
  case True
  have a: "coll_ok r c" "length (co_slow_cache c) = unat (reg_count r)" using assms(1) by (simp_all add: collector_inv_def)
  obtain v1 where 1: "sample_sensors w c (co_slow_cache c) = Some v1" "length v1 = unat (reg_count r)"
    using sample_sensors_ok [OF a(1) _ assms(2), of "co_slow_cache c"] a(2) by auto
  obtain v2 where 2: "sample_poe w c v1 = Some v2" "length v2 = unat (reg_count r)"
    using sample_poe_ok [OF a(1), of v1 w] 1(2) by auto
  obtain v3 where 3: "sample_flash_wear w c v2 = Some v3" "length v3 = unat (reg_count r)"
    using sample_flash_wear_ok [OF a(1), of v2 w] 2(2) by auto
  show ?thesis using True assms(1) 1(1) 2(1) 3
    by (simp add: sample_slow_def collector_inv_def coll_ok_def all_indices_def coll_shape_def)
qed (use assms in \<open>simp add: sample_slow_def\<close>)

subsection \<open>One sample\<close>

lemma collector_sample_ok:
  assumes inv: "collector_inv r c" and len: "unat (reg_count r) \<le> length vs" and whole: "answers_whole w"
  shows "\<exists>c' vs'. collector_sample w now r c vs = Some (c', vs') \<and> collector_inv r c' \<and> length vs' = length vs"
proof -
  let ?n = "unat (reg_count r)" and ?first = "co_prev_us c = 0"
  let ?seconds = "if ?first then DFin 0 else ddiv (to_double (of_int (now - co_prev_us c))) (num 1000000)"
  have c: "coll_ok r c" using inv by (simp add: collector_inv_def)
  have "?n \<le> length (replicate ?n f32_nan @ drop ?n vs)" by simp
  from samplesD [OF samples_fast c this] obtain c1 vs1 where
    1: "sample_fast w ?seconds ?first (c, replicate ?n f32_nan @ drop ?n vs) = Some (c1, vs1)" "coll_ok r c1"
      "length vs1 = length (replicate ?n f32_nan @ drop ?n vs)" "fixed_part c1 = fixed_part c" .
  have inv1: "collector_inv r c1" "co_sensors c1 = co_sensors c"
    using inv 1(2,4) by (simp_all add: collector_inv_def fixed_part_def)
  obtain c2 where 2: "sample_slow w now c1 = Some c2" "collector_inv r c2" "co_sensors c2 = co_sensors c1"
    using sample_slow_ok [OF inv1(1) whole] by blast
  have "length vs1 = length vs" using 1(3) len by simp
  then obtain vs2 where 3: "merge_slow ?n c2 vs1 = Some vs2" "length vs2 = length vs"
    using 2(2) len by (simp add: merge_slow_def collector_inv_def)
  have "collector_inv r (c2\<lparr>co_prev_us := now\<rparr>)"
    using 2(2) by (simp add: collector_inv_def coll_ok_def all_indices_def coll_shape_def)
  moreover have "collector_sample w now r c vs = Some (c2\<lparr>co_prev_us := now\<rparr>, vs2)"
    using 1(1) 2(1) 3(1) len by (simp add: collector_sample_def Let_def)
  ultimately show ?thesis using 3(2) 2(3) inv1(2) by auto
qed


text \<open>A run of the program: samples of a device that changes, at the times of the clock.\<close>

fun collector_runs :: "metric_registry \<Rightarrow> (world \<times> gint64) list \<Rightarrow> sampling \<Rightarrow> sampling option" where
  "collector_runs r [] cv = Some cv"
| "collector_runs r (wn # wns) cv = do {
     cv1 \<leftarrow> collector_sample (fst wn) (snd wn) r (fst cv) (snd cv); collector_runs r wns cv1 }"

lemma collector_runs_ok:
  assumes "collector_inv r c" "unat (reg_count r) \<le> length vs" "list_all (\<lambda>wn. answers_whole (fst wn)) wns"
  shows "\<exists>c' vs'. collector_runs r wns (c, vs) = Some (c', vs') \<and> collector_inv r c' \<and> length vs' = length vs"
  using assms
proof (induction wns arbitrary: c vs)
  case (Cons wn wns)
  obtain c1 vs1 where 1: "collector_sample (fst wn) (snd wn) r c vs = Some (c1, vs1)" "collector_inv r c1"
    "length vs1 = length vs" using collector_sample_ok [OF Cons.prems(1,2)] Cons.prems(3) by fastforce
  then obtain c' vs' where "collector_runs r wns (c1, vs1) = Some (c', vs')" "collector_inv r c'" "length vs' = length vs1"
    using Cons.IH [OF 1(2), of vs1] 1(3) Cons.prems(2,3) by auto
  then show ?case using 1(1,3) by simp
qed simp

section \<open>Properties\<close>

text \<open>C12: Discovery succeeds on every device, whatever its files and answers hold: it registers at
  most 697 metrics, stays inside every fixed array, gives every metric of the collector an index below
  the number of metrics, and the mount table does not count as changed right afterwards.\<close>

theorem collector_new_safe:
  "\<exists>r c. collector_new w metrics_registry_init = Some (r, c) \<and> unat (reg_count r) \<le> 697
    \<and> list_all (\<lambda>i. unat i < unat (reg_count r)) (all_indices c) \<and> coll_shape c
    \<and> \<not> collector_mounts_changed w c"
proof -
  obtain r c where 1: "collector_new w metrics_registry_init = Some (r, c)" "reg_ok 697 r" "collector_inv r c"
    "\<not> collector_mounts_changed w c" using collector_new_ok by blast
  have "list_all (\<lambda>i. unat i < unat (reg_count r)) (all_indices c)" "coll_shape c"
    using 1(3) by (simp_all add: collector_inv_def coll_ok_def idx_ok_def [abs_def])
  with 1 show ?thesis by (auto simp: reg_ok_def)
qed

text \<open>C11: A new collector can be sampled any number of times on a device that changes in between:
  no write leaves the array of values, no read leaves a fixed array or the caches, and the invariant
  holds again after each sample, provided no answer about the temperatures ends with a sensor's name.\<close>

theorem collector_samples_safe:
  assumes "list_all (\<lambda>wn. answers_whole (fst wn)) wns"
  shows "\<exists>r c c' vs'. collector_new w metrics_registry_init = Some (r, c)
    \<and> collector_runs r wns (c, replicate (unat (reg_count r)) 0) = Some (c', vs')
    \<and> collector_inv r c' \<and> length vs' = unat (reg_count r)"
proof -
  obtain r c where 1: "collector_new w metrics_registry_init = Some (r, c)" "collector_inv r c"
    using collector_new_ok by blast
  with collector_runs_ok [OF 1(2) _ assms, of "replicate (unat (reg_count r)) 0"] show ?thesis by auto
qed

definition plain_world :: "string \<Rightarrow> world" where
  "plain_world stat = \<lparr>w_file = (\<lambda>p. if p = ''/proc/stat'' then Some stat else None), w_dir = (\<lambda>_. None),
    w_is_dir = (\<lambda>_. False), w_exists = (\<lambda>_. False), w_vapix = (\<lambda>p. None), w_statvfs = (\<lambda>_. None), w_strtod = (\<lambda>_. DNaN),
    w_scan_lf = (\<lambda>_. None)\<rparr>"

theorem collector_samples_safe_witness:
  "\<exists>r c c' vs'. collector_new (plain_world ''cpu  9 0 1 7'') metrics_registry_init = Some (r, c)
    \<and> collector_runs r [(plain_world ''cpu  9 0 1 7'', 1000000), (plain_world ''cpu  19 0 1 8'', 2000000)]
        (c, replicate (unat (reg_count r)) 0) = Some (c', vs')
    \<and> length vs' = unat (reg_count r)"
proof -
  have "list_all (\<lambda>wn. answers_whole (fst wn)) [(plain_world ''cpu  9 0 1 7'', 1000000), (plain_world ''cpu  19 0 1 8'', 2000000)]"
    by (simp add: answers_whole_def plain_world_def)
  from collector_samples_safe [OF this, of "plain_world ''cpu  9 0 1 7''"] show ?thesis by blast
qed

lemma u64_double_exact: "unat n < 2 ^ 53 \<Longrightarrow> u64_double n = DFin (of_nat (unat n))"
  unfolding u64_double_def by (rule to_double_of_nat)

lemma num_of_nat: "n < 2 ^ 53 \<Longrightarrow> num (of_nat n) = DFin (of_nat n)"
  by (simp add: num_def to_double_of_nat)

lemma num_100: "num 100 = DFin 100"
  using num_of_nat [of 100] by simp

text \<open>C13: The share of a processor is a percentage: with the total counter ahead of the previous one
  by less than 2^46 ticks and the idle part not above it, the reading is a finite number between 0 and
  100, and 100 when no tick was idle.\<close>

theorem cpu_usage_between:
  assumes "ct_total prev < ct_total now" "ct_idle now - ct_idle prev \<le> ct_total now - ct_total prev"
    "unat (ct_total now - ct_total prev) < 2 ^ 46"
  shows "\<exists>q. cpu_usage False prev now = DFin q \<and> 0 \<le> q \<and> q \<le> 100 \<and> (ct_idle now = ct_idle prev \<longrightarrow> q = 100)"
proof -
  define dt where "dt = ct_total now - ct_total prev"
  define busy where "busy = dt - (ct_idle now - ct_idle prev)"
  define t b where "t = unat dt" and "b = unat busy"
  have t: "t < 2 ^ 46" "0 < t" using assms(1,3) by (simp_all add: t_def dt_def unat_gt_0)
  have b: "b \<le> t" using assms(2) by (simp add: b_def busy_def dt_def t_def unat_sub)
  have exact: "u64_double dt = DFin (of_nat t)" "u64_double busy = DFin (of_nat b)"
    using t(1) b by (simp_all add: u64_double_exact flip: t_def b_def)
  have "(100 :: rat) * of_nat b = of_nat (100 * b)" by simp
  moreover have "100 * b < 2 ^ 53" using t(1) b by simp
  ultimately have mul: "dmul (num 100) (u64_double busy) = DFin (100 * of_nat b)"
    using to_double_of_nat [of "100 * b"] by (simp add: num_100 exact)
  have use_eq: "cpu_usage False prev now = to_double (100 * of_nat b / of_nat t)"
    using assms(1,2) t(2) mul exact(1) by (simp add: cpu_usage_def Let_def dt_def busy_def)
  have range: "0 \<le> 100 * of_nat b / (of_nat t :: rat)" "100 * of_nat b / (of_nat t :: rat) \<le> 100"
    using b t(2) by (simp_all add: divide_le_eq)
  have ends: "to_double 0 = DFin 0" "to_double 100 = DFin 100" using num_of_nat [of 0] num_100 by (simp_all add: num_def)
  obtain q where q: "to_double (100 * of_nat b / of_nat t) = DFin q" "0 \<le> q" "q \<le> 100"
    using to_double_bounded [OF ends range] by blast
  have "q = 100" if "ct_idle now = ct_idle prev"
  proof -
    have "b = t" using that by (simp add: b_def busy_def t_def)
    then show ?thesis using q(1) t(2) ends(2) by simp
  qed
  with q use_eq show ?thesis by auto
qed

theorem cpu_usage_between_witness:
  "\<exists>q. cpu_usage False \<lparr>ct_total = 100, ct_idle = 40\<rparr> \<lparr>ct_total = 300, ct_idle = 90\<rparr> = DFin q \<and> 0 \<le> q \<and> q \<le> 100"
  using cpu_usage_between [of "\<lparr>ct_total = 100, ct_idle = 40\<rparr>" "\<lparr>ct_total = 300, ct_idle = 90\<rparr>"] by auto

text \<open>The iowait counter of the kernel may go back, which the difference of unsigned numbers turns
  into a reading far above 100%: at least ten million percent when it goes back by at most 2^40 ticks
  while fewer than 2^40 ticks pass.\<close>

theorem iowait_back_spikes:
  assumes less: "v ! 4 < p ! 4" "unat (p ! 4 - v ! 4) \<le> 2 ^ 40" and dt: "0 < dt" "unat dt < 2 ^ 40"
    and g: "cg_prev_field g = p" "sum_list v - ct_total (cg_prev_total g) = dt"
  shows "\<exists>x. (cg_iowait g, x) \<in> set (cpu_shares False g v) \<and> dlt (num 10000000) x"
proof -
  define n where "n = unat (v ! 4 - p ! 4)"
  let ?scale = "ddiv (num 100) (u64_double dt)"
  define t where "t = unat dt"
  have t: "t < 2 ^ 40" "0 < t" using dt by (simp_all add: t_def unat_gt_0)
  have "unat (v ! 4) < unat (p ! 4)" using less(1) by (simp add: word_less_nat_alt)
  moreover have "unat (p ! 4) < 2 ^ 64" using unsigned_less [of "p ! 4", where ?'a = nat] by simp
  moreover have "unat (p ! 4 - v ! 4) = unat (p ! 4) - unat (v ! 4)"
    using less(1) by (simp add: unat_sub less_imp_le)
  moreover have "n = unat (v ! 4) + 2 ^ 64 - unat (p ! 4)"
    using less(1) unfolding n_def by (simp add: unat_sub_if_size word_less_nat_alt word_size)
  ultimately have n: "2 ^ 63 \<le> n" "n < 2 ^ 64" using less(2) by simp_all
  have t_rat: "0 < (of_nat t :: rat)" "(of_nat t :: rat) \<le> 2 ^ 40"
    using t by (simp_all del: of_nat_power add: of_nat_le_iff [where 'a = rat, of t "2 ^ 40", simplified])
  have n_rat: "(2 :: rat) ^ 63 \<le> of_nat n" "(of_nat n :: rat) \<le> 2 ^ 64"
    using n of_nat_le_iff [where 'a = rat, of "2 ^ 63" n] of_nat_le_iff [where 'a = rat, of n "2 ^ 64"] by simp_all
  have pow: "to_double (2 ^ k) = DFin (2 ^ k)" if "k < 1024" for k :: nat
  proof -
    have "(2 :: rat) ^ k < 2 ^ 1024" using that by (rule power_strict_increasing) simp
    then show ?thesis using to_double_exact [of "2 ^ k" 1 "int k"] by (simp add: power_int_def del: power_numeral)
  qed
  obtain N where N: "u64_double (v ! 4 - p ! 4) = DFin N" "2 ^ 63 \<le> N" "N \<le> 2 ^ 64"
    using to_double_bounded [OF pow pow n_rat] by (auto simp: u64_double_def n_def)
  have "u64_double dt = DFin (of_nat t)" using t(1) by (simp add: u64_double_exact t_def)
  then have scale: "?scale = to_double (100 / of_nat t)" using t(2) by (simp add: num_100)
  have inv: "to_double (1 / 2 ^ 34) = DFin (1 / 2 ^ 34)"
    using to_double_exact [of "1 / 2 ^ 34" 1 "- 34"] by (simp add: power_int_def field_simps)
  have "1 / 2 ^ 34 \<le> 100 / (of_nat t :: rat)" "100 / (of_nat t :: rat) \<le> 2 ^ 7"
    using t_rat t(2) by (simp_all add: divide_le_eq le_divide_eq)
  from to_double_bounded [OF inv pow this] obtain S where S: "?scale = DFin S" "1 / 2 ^ 34 \<le> S" "S \<le> 2 ^ 7"
    using scale by auto
  have prod: "2 ^ 29 \<le> N * S" "N * S \<le> 2 ^ 71"
    using mult_mono [OF N(2) S(2)] mult_mono [OF N(3) S(3)] N(2) S(2) by simp_all
  obtain x where x: "to_double (N * S) = DFin x" "2 ^ 29 \<le> x"
    using to_double_bounded [OF pow pow prod] by auto
  have "num 10000000 = DFin 10000000" using num_of_nat [of 10000000] by simp
  with x have "dlt (num 10000000) (dmul (u64_double (v ! 4 - p ! 4)) ?scale)" using N(1) S(1) by simp
  moreover have "(cg_iowait g, dmul (u64_double (v ! 4 - p ! 4)) ?scale) \<in> set (cpu_shares False g v)"
    using dt(1) g by (simp add: cpu_shares_def Let_def)
  ultimately show ?thesis by blast
qed


theorem iowait_back_spikes_witness:
  "\<exists>x. (3, x) \<in> set (cpu_shares False (zero_cpu\<lparr>cg_iowait := 3, cg_prev_total := \<lparr>ct_total = 100, ct_idle = 60\<rparr>,
      cg_prev_field := [30, 0, 10, 50, 10, 0, 0, 0]\<rparr>) [40, 0, 10, 141, 9, 0, 0, 0]) \<and> dlt (num 10000000) x"
  using iowait_back_spikes [of "[40, 0, 10, 141, 9, 0, 0, 0]" "[30, 0, 10, 50, 10, 0, 0, 0]" 100
    "zero_cpu\<lparr>cg_iowait := 3, cg_prev_total := \<lparr>ct_total = 100, ct_idle = 60\<rparr>, cg_prev_field := [30, 0, 10, 50, 10, 0, 0, 0]\<rparr>"]
  by simp

section \<open>A processor that was offline\<close>

lemma core_lines_untouched:
  assumes "discover_core_lines ls (r, c) = Some (r', c')" "\<forall>line \<in> set ls. core_of_line line \<noteq> Some core"
  shows "cg_core_usage (co_cpu c') ! unat core = cg_core_usage (co_cpu c) ! unat core
    \<and> cg_usage (co_cpu c') = cg_usage (co_cpu c)"
  using assms
proof (induction ls arbitrary: r c)
  case (Cons line ls)
  show ?case
  proof (cases "\<exists>n. core_of_line line = Some n \<and> unat n < MAX_CORES")
    case True
    then obtain n where n: "core_of_line line = Some n" "unat n < MAX_CORES" by blast
    then obtain r1 c1 where 1: "discover_core n (r, c) = Some (r1, c1)" "discover_core_lines ls (r1, c1) = Some (r', c')"
      using Cons.prems(1) by (auto split: bind_splits)
    have "n \<noteq> core" using n(1) Cons.prems(2) by auto
    then have "unat n \<noteq> unat core" by (simp add: unat_inject)
    then have "cg_core_usage (co_cpu c1) ! unat core = cg_core_usage (co_cpu c) ! unat core \<and> cg_usage (co_cpu c1) = cg_usage (co_cpu c)"
      using 1(1) by (auto simp: discover_core_def arr_set_def split: bind_splits if_splits)
    then show ?thesis using Cons.IH [OF 1(2)] Cons.prems(2) by simp
  next
    case False
    then show ?thesis using Cons by (auto split: option.splits)
  qed
qed simp

lemma first_registration: "reg_list (m # ms) metrics_registry_init = Some (is, r) \<Longrightarrow> is ! 0 = 0"
proof -
  assume a: "reg_list (m # ms) metrics_registry_init = Some (is, r)"
  obtain key label unit grp where m: "m = (key, label, unit, grp)" by (metis surj_pair)
  obtain s where "metrics_register metrics_registry_init key (Some label) (Some unit) (Some grp)
      = Some (reg_count metrics_registry_init, s)"
    using register_new [OF reg_inv_init, of key "Some label" "Some unit" "Some grp"]
    by (auto simp: metrics_registry_init_def reg_ids_def)
  then have "reg key label unit grp metrics_registry_init = Some (0, s)" by (simp add: reg_def metrics_registry_init_def)
  with a show ?thesis by (auto simp: m split: bind_splits)
qed


lemma core_lines_grow: "discover_core_lines ls rc = Some rc' \<Longrightarrow> cg_n_cores (co_cpu (snd rc)) \<le> cg_n_cores (co_cpu (snd rc'))"
proof (induction ls rc rule: discover_core_lines.induct)
  case (2 line ls rc)
  have "cg_n_cores (co_cpu (snd rc)) \<le> cg_n_cores (co_cpu (snd rc1))" if "discover_core n rc = Some rc1" for n rc1
    using that by (auto simp: discover_core_def split: bind_splits prod.splits)
  with 2 show ?case by (fastforce split: option.splits if_splits bind_splits intro: order_trans)
qed simp

lemma core_lines_count:
  assumes "discover_core_lines ls rc = Some rc'" "line \<in> set ls" "core_of_line line = Some n" "unat n < MAX_CORES"
  shows "unat n < cg_n_cores (co_cpu (snd rc'))"
  using assms(1,2)
proof (induction ls arbitrary: rc)
  case (Cons l ls)
  show ?case
  proof (cases "l = line")
    case True
    obtain rc1 where 1: "discover_core n rc = Some rc1" "discover_core_lines ls rc1 = Some rc'"
      using Cons.prems(1) True assms(3,4) by (auto split: bind_splits)
    have "unat n < cg_n_cores (co_cpu (snd rc1))" using 1(1)
      by (auto simp: discover_core_def split: bind_splits prod.splits)
    with core_lines_grow [OF 1(2)] show ?thesis by simp
  next
    case False
    then show ?thesis using Cons by (auto split: option.splits if_splits bind_splits)
  qed
qed simp

text \<open>A processor that is offline at start-up while one of a higher number is online has no metric
  of its own, and its index is the one of the usage of all processors: once it comes online, its
  reading replaces that of all processors in every sample.\<close>

theorem offline_core_overwrites_usage:
  assumes stat: "w_file w ''/proc/stat'' = Some t" and offline: "\<forall>line \<in> set (fgets_lines 512 t). core_of_line line \<noteq> Some core"
    and other: "line \<in> set (fgets_lines 512 t)" "core_of_line line = Some other" "unat core < unat other" "unat other < MAX_CORES"
  shows "\<exists>r c. discover_cpu w (metrics_registry_init, zero_collector) = Some (r, c)
    \<and> cg_core_usage (co_cpu c) ! unat core = cg_usage (co_cpu c) \<and> unat core < cg_n_cores (co_cpu c)
    \<and> (\<forall>first v vs. length vs = unat (reg_count r) \<longrightarrow>
        (\<exists>c' vs'. sample_core first core v (c, vs) = Some (c', vs')
          \<and> vs' ! unat (cg_usage (co_cpu c)) = double_to_f32 (cpu_usage first (cg_prev_core (co_cpu c) ! unat core) (cpu_total v))))"
proof -
  obtain r c where rc: "discover_cpu w (metrics_registry_init, zero_collector) = Some (r, c)" "reg_ok 71 r" "coll_ok r c"
    using discover_cpu_ok by blast
  obtain "is" r1 where 1: "reg_list cpu_metrics metrics_registry_init = Some (is, r1)"
    "discover_core_lines (fgets_lines 512 t) (r1, zero_collector\<lparr>co_cpu := zero_cpu\<lparr>cg_usage := is ! 0, cg_user := is ! 1,
       cg_system := is ! 2, cg_iowait := is ! 3, cg_irq := is ! 4, cg_steal := is ! 5, cg_freq := is ! 6\<rparr>\<rparr>) = Some (r, c)"
    using rc(1) stat by (auto simp: discover_cpu_def Let_def split: bind_splits)
  have "is ! 0 = 0" using 1(1) unfolding cpu_metrics_def by (rule first_registration)
  moreover have "unat core < MAX_CORES" using other(3,4) by simp
  ultimately have zero: "cg_core_usage (co_cpu c) ! unat core = 0" "cg_usage (co_cpu c) = 0"
    using core_lines_untouched [OF 1(2) offline] by (simp_all add: zero_cpu_def)
  have n: "unat core < cg_n_cores (co_cpu c)" using core_lines_count [OF 1(2) other(1,2,4)] other(3) by simp
  have "\<exists>c' vs'. sample_core first core v (c, vs) = Some (c', vs')
      \<and> vs' ! unat (cg_usage (co_cpu c)) = double_to_f32 (cpu_usage first (cg_prev_core (co_cpu c) ! unat core) (cpu_total v))"
    if vs: "length vs = unat (reg_count r)" for first v and vs :: "gfloat list"
  proof -
    have "0 < length vs" using rc(3) vs by (simp add: coll_ok_def)
    moreover have "unat core < length (cg_prev_core (co_cpu c))" "unat core < length (cg_core_usage (co_cpu c))"
      using rc(3) \<open>unat core < MAX_CORES\<close> by (simp_all add: coll_defs)
    ultimately show ?thesis by (simp add: sample_core_def Let_def arr_simps set_value_def zero)
  qed
  with rc(1) zero n show ?thesis by auto
qed

lemma core_line_format_list: "core_line_format = [Lit CHR ''c'', Lit CHR ''p'', Lit CHR ''u'', Uns, Ws]"
  by code_simp

theorem offline_core_overwrites_usage_witness:
  "\<exists>r c. discover_cpu (plain_world (''cpu0 7 0 0 9'' @ [CHR 0x0A] @ ''cpu2 5 0 0 3'' @ [CHR 0x0A])) (metrics_registry_init, zero_collector) = Some (r, c)
    \<and> cg_core_usage (co_cpu c) ! 1 = cg_usage (co_cpu c) \<and> 1 < cg_n_cores (co_cpu c)"
proof -
  let ?w = "plain_world (''cpu0 7 0 0 9'' @ [CHR 0x0A] @ ''cpu2 5 0 0 3'' @ [CHR 0x0A])"
  let ?t = "''cpu0 7 0 0 9'' @ [CHR 0x0A] @ ''cpu2 5 0 0 3'' @ [CHR 0x0A]"
  have lines: "fgets_lines 512 ?t = [''cpu0 7 0 0 9'' @ [CHR 0x0A], ''cpu2 5 0 0 3'' @ [CHR 0x0A]]"
    by (simp add: fgets_lines.simps fgets_chunk_def)
  have cores: "core_of_line (''cpu0 7 0 0 9'' @ [CHR 0x0A]) = Some 0" "core_of_line (''cpu2 5 0 0 3'' @ [CHR 0x0A]) = Some 2"
    unfolding core_of_line_def core_line_format_list
    by (simp_all add: scan_uns_def Let_def is_cspace_def is_space_def ch_code_def split_sign_def is_digit_def strtoull10_def
        dec_value_def uval_def guint_of64_def)
  have "w_file ?w ''/proc/stat'' = Some ?t" by (simp add: plain_world_def)
  moreover have "\<forall>line \<in> set (fgets_lines 512 ?t). core_of_line line \<noteq> Some 1" unfolding lines using cores by simp
  moreover have "''cpu2 5 0 0 3'' @ [CHR 0x0A] \<in> set (fgets_lines 512 ?t)" unfolding lines by simp
  ultimately have "\<exists>r c. discover_cpu ?w (metrics_registry_init, zero_collector) = Some (r, c)
      \<and> cg_core_usage (co_cpu c) ! unat (1 :: guint) = cg_usage (co_cpu c) \<and> unat (1 :: guint) < cg_n_cores (co_cpu c)"
    using offline_core_overwrites_usage [OF _ _ _ cores(2), of ?w ?t 1] by (simp add: MAX_CORES_def) blast
  then show ?thesis by simp
qed

end
