(* ===== verification/App.thy ===== *)
theory App
  imports Sample Persist Alerts Prometheus Device Settings Http Sse Mqtt Influx Procs
begin

text \<open>
  \<^verbatim>\<open>app/main.c\<close>, the program around the components: the settings they are given, the life of the
  history files, the sampling tick, the requests and the shutdown. The event loop is the sequence of
  these operations. What the outside world answers during one of them is an \<open>env\<close>; \<open>None\<close> is an
  access outside an array or through a null pointer.
\<close>

section \<open>State\<close>

record env =
  ev_world :: world
  ev_time :: gint64
  ev_mono :: gint64
  ev_statvfs :: statvfs
  ev_mkdir :: "string \<Rightarrow> bool"
  ev_open :: "string \<Rightarrow> int"
  ev_sized :: bool
  ev_rules :: "key_group list option"
  ev_events :: bool
  ev_declare :: declare_event
  ev_mqtt_create :: bool
  ev_proc_dir :: "string list option"
  ev_proc_stat :: "string \<Rightarrow> string option"
  ev_send :: "nat \<Rightarrow> write_result"
  ev_put :: "string \<Rightarrow> string \<Rightarrow> bool"

text \<open>
  Formats and orders of the libraries: \<open>%.7g\<close> of a float and of a double, \<open>g_ascii_strtod\<close>,
  \<open>qsort\<close> and the walk through a hash table.
\<close>

record library =
  lib_fmt :: formatter
  lib_fmt_g :: "double \<Rightarrow> string"
  lib_strtod :: "string \<Rightarrow> double"
  lib_qsort :: "(proc \<Rightarrow> proc \<Rightarrow> int) \<Rightarrow> proc list \<Rightarrow> proc list"
  lib_order :: "string set \<Rightarrow> string list"

datatype app_output = OfAlert alert_output | OfMqtt mqtt_output | OfSelection selection_file

text \<open>
  The static variables. \<open>ap_api\<close> holds the fields of \<open>api\<close> that are values; its pointers to the registry
  and the store are followed by \<open>the_api\<close>. \<open>ap_retry\<close> is \<open>persist_retry_timer \<noteq> 0\<close>, \<open>ap_retry_sources\<close>
  the number of sources of that timer the loop holds, \<open>ap_sampling\<close> is \<open>sample_timer \<noteq> 0\<close>. A history
  file is found on \<open>ap_disks\<close> by its path.
\<close>

record app =
  ap_params :: "parameter list"
  ap_registry :: metric_registry
  ap_collector :: collector
  ap_store :: store
  ap_persists :: "persist option list"
  ap_disks :: "string \<Rightarrow> disk"
  ap_mqtt :: mqtt
  ap_influx :: influx
  ap_procs :: "procs option"
  ap_alerts :: alerts
  ap_api :: api
  ap_buffer :: "gfloat list"
  ap_sampling :: bool
  ap_interval :: guint
  ap_retry :: bool
  ap_retry_sources :: nat
  ap_absence_logged :: bool
  ap_clients :: "sse_client list"
  ap_outputs :: "app_output list"

definition the_api :: "app \<Rightarrow> api" where
  "the_api a = (ap_api a)\<lparr>api_registry := ap_registry a, api_store := ap_store a\<rparr>"

definition emit :: "app_output list \<Rightarrow> app \<Rightarrow> app" where
  "emit outs a = a\<lparr>ap_outputs := ap_outputs a @ outs\<rparr>"

definition set_persist_path :: "string option \<Rightarrow> app \<Rightarrow> app" where
  "set_persist_path path a = a\<lparr>ap_api := (ap_api a)\<lparr>api_persist_path := path\<rparr>\<rparr>"

section \<open>Memory of the device\<close>

fun mem_total_kb :: "string list \<Rightarrow> guint64" where
  "mem_total_kb [] = 0"
| "mem_total_kb (line # lines) = (case meminfo_value ''MemTotal'' line of Some kb \<Rightarrow> kb | None \<Rightarrow> mem_total_kb lines)"

definition total_memory_bytes :: "world \<Rightarrow> guint64" where
  "total_memory_bytes w = (case w_file w ''/proc/meminfo'' of None \<Rightarrow> 0
     | Some t \<Rightarrow> mem_total_kb (fgets_lines 128 t) * 1024)"

section \<open>History files\<close>

definition PERSIST_FILES :: "string list" where
  "PERSIST_FILES = [''history-fine.bin'', ''history-medium.bin'', ''history.bin'']"

text \<open>The callback of a tier.\<close>

definition on_tier_sample :: "pending_call \<Rightarrow> app \<Rightarrow> app option" where
  "on_tier_sample call a = (case call of (i, values, timestamp) \<Rightarrow> do {
     p \<leftarrow> arr_get (ap_persists a) i;
     case p of None \<Rightarrow> Some a
     | Some q \<Rightarrow> do {
         (p', d') \<leftarrow> persist_append (Some q) (ap_disks a (pr_path q)) values timestamp;
         Some (a\<lparr>ap_persists := (ap_persists a)[i := p'], ap_disks := (ap_disks a)(pr_path q := d')\<rparr>)
       }
   })"

fun on_tier_samples :: "pending_call list \<Rightarrow> app \<Rightarrow> app option" where
  "on_tier_samples [] a = Some a"
| "on_tier_samples (call # calls) a = do { a1 \<leftarrow> on_tier_sample call a; on_tier_samples calls a1 }"

definition close_tier :: "nat \<Rightarrow> app \<Rightarrow> app" where
  "close_tier i a = (case ap_persists a ! i of None \<Rightarrow> a
     | Some q \<Rightarrow> a\<lparr>ap_store := store_set_tier_callback (ap_store a) i None,
         ap_disks := (ap_disks a)(pr_path q := persist_close (Some q) (ap_disks a (pr_path q))),
         ap_persists := (ap_persists a)[i := None]\<rparr>)"

definition close_persistence :: "app \<Rightarrow> app" where
  "close_persistence a = set_persist_path None (fold close_tier [0..<STORE_TIERS] a)"

text \<open>Opening the files of the tiers \<open>is\<close>; the first result is whether the timer continues.\<close>

definition open_tier :: "env \<Rightarrow> nat \<Rightarrow> persist \<Rightarrow> app \<Rightarrow> app option" where
  "open_tier e i q a = do {
     (_, s1, d1) \<leftarrow> (if store_tier_count (ap_store a) i = 0
        then persist_load (Some q) (ap_disks a (pr_path q)) (ap_store a) i
        else Some (0, ap_store a, ap_disks a (pr_path q)));
     (p, d2) \<leftarrow> persist_sync (Some q) (ev_sized e) d1 s1 i;
     Some (a\<lparr>ap_store := store_set_tier_callback s1 i (Some i), ap_persists := (ap_persists a)[i := p],
       ap_disks := (ap_disks a)(pr_path q := d2)\<rparr>)
   }"

fun open_tiers :: "env \<Rightarrow> nat list \<Rightarrow> app \<Rightarrow> (bool \<times> app) option" where
  "open_tiers e [] a = Some (False, set_persist_path (persist_path (ap_persists a ! (STORE_TIERS - 1))) (a\<lparr>ap_retry := False\<rparr>))"
| "open_tiers e (i # is) a = (let
     (p, logged) = persist_open (ev_statvfs e) (w_file (ev_world e) ''/proc/mounts'') (ev_mkdir e) (ev_open e)
       (ap_registry a) (st_tiers (ap_store a) ! i) (PERSIST_FILES ! i) (ap_absence_logged a);
     a1 = a\<lparr>ap_absence_logged := logged, ap_persists := (ap_persists a)[i := p]\<rparr> in
     case p of None \<Rightarrow> Some (True, close_persistence a1)
     | Some q \<Rightarrow> do { a2 \<leftarrow> open_tier e i q a1; open_tiers e is a2 })"

text \<open>The rebuild up to its attempt to open the history.\<close>

definition rebuild_start :: "env \<Rightarrow> app \<Rightarrow> app option" where
  "rebuild_start e a = (let a1 = close_persistence a in do {
     (r, c) \<leftarrow> collector_new (ev_world e) metrics_registry_init;
     s \<leftarrow> store_new r (ap_interval a1) (total_memory_bytes (ev_world e));
     let (al, outs) = alerts_new r (ev_events e) (ev_declare e) (ev_rules e);
     Some (emit (map OfAlert outs) (set_persist_path None (a1\<lparr>ap_registry := r, ap_collector := c,
       ap_buffer := replicate (unat (reg_count r)) 0, ap_store := s, ap_alerts := alerts_set_notify al True\<rparr>)))
   })"

text \<open>
  \<open>try_open_persistence\<close> and \<open>rebuild_for_new_storage\<close> call each other. The world may change between
  two readings of the mount table: the \<open>n\<close>-th check sees \<open>es (2 * n)\<close>, the rebuild after it
  \<open>es (2 * n + 1)\<close>. The first result is whether the timer that called it continues.
\<close>

definition arm_retry :: "bool \<Rightarrow> app \<Rightarrow> app" where
  "arm_retry again a = (if again \<and> \<not> ap_retry a
     then a\<lparr>ap_retry := True, ap_retry_sources := ap_retry_sources a + 1\<rparr> else a)"

partial_function (option) try_open_persistence :: "(nat \<Rightarrow> env) \<Rightarrow> nat \<Rightarrow> app \<Rightarrow> (bool \<times> app) option" where
  "try_open_persistence es n a = (if ap_persists a ! (STORE_TIERS - 1) \<noteq> None then Some (False, a)
     else if collector_mounts_changed (ev_world (es (2 * n))) (ap_collector a)
     then do {
       a1 \<leftarrow> rebuild_start (es (2 * n + 1)) (a\<lparr>ap_retry := False\<rparr>);
       (again, a2) \<leftarrow> try_open_persistence es (n + 1) a1;
       Some (False, arm_retry again a2)
     }
     else open_tiers (es (2 * n)) [0..<STORE_TIERS] a)"

text \<open>The timer fires: its source stays where the function says so.\<close>

definition on_retry_timer :: "(nat \<Rightarrow> env) \<Rightarrow> app \<Rightarrow> app option" where
  "on_retry_timer es a = do {
     (again, a1) \<leftarrow> try_open_persistence es 0 a;
     Some (if again then a1 else a1\<lparr>ap_retry_sources := ap_retry_sources a1 - 1\<rparr>)
   }"

section \<open>Settings\<close>

definition clamp :: "guint \<Rightarrow> guint \<Rightarrow> guint \<Rightarrow> guint" where
  "clamp x lo hi = (if hi < x then hi else if x < lo then lo else x)"

definition guint_param :: "parameter list \<Rightarrow> string \<Rightarrow> guint" where
  "guint_param ps name = guint_of64 (strtoull10 (parameter_value ps name))"

definition mqtt_settings :: "parameter list \<Rightarrow> device_info \<Rightarrow> mqtt_config" where
  "mqtt_settings ps dev = (let tls = parameter_is_yes ps ''MqttTls''; port = guint_param ps ''MqttPort'';
     prefix = parameter_value ps ''MqttTopicPrefix'' in
     \<lparr>mc_enabled = parameter_is_yes ps ''MqttEnabled'', mc_host = strlcpy 128 (parameter_value ps ''MqttHost''),
      mc_port = (if port = 0 \<or> 65535 < port then (if tls then 8883 else 1883) else port), mc_tls = tls,
      mc_username = strlcpy 64 (parameter_value ps ''MqttUsername''),
      mc_password = strlcpy 128 (parameter_value ps ''MqttPassword''),
      mc_topic_prefix = (if prefix \<noteq> [] then strlcpy 128 prefix
        else strlcpy 128 (''axis/'' @ (if dev_serial dev \<noteq> [] then dev_serial dev else ''device'') @ ''/metrics'')),
      mc_interval_s = clamp (guint_param ps ''MqttInterval'') 1 3600,
      mc_discovery = parameter_is_yes ps ''MqttDiscovery'',
      mc_discovery_all = parameter_is_yes ps ''MqttDiscoveryAll''\<rparr>)"

definition apply_mqtt_settings :: "env \<Rightarrow> app \<Rightarrow> app" where
  "apply_mqtt_settings e a = (let (m, outs) = mqtt_apply (the_api a) (ev_mqtt_create e)
       (mqtt_settings (ap_params a) (api_device (ap_api a))) (ap_mqtt a)
     in emit (map OfMqtt outs) (a\<lparr>ap_mqtt := m\<rparr>))"

definition influx_settings :: "parameter list \<Rightarrow> influx_config" where
  "influx_settings ps = (let measurement = parameter_value ps ''InfluxMeasurement'' in
     \<lparr>ic_enabled = parameter_is_yes ps ''InfluxEnabled'',
      ic_version = (if parameter_value ps ''InfluxVersion'' = ''v1'' then INFLUX_V1 else INFLUX_V2),
      ic_url = strlcpy 256 (parameter_value ps ''InfluxUrl''), ic_database = strlcpy 96 (parameter_value ps ''InfluxDatabase''),
      ic_org = strlcpy 96 (parameter_value ps ''InfluxOrg''), ic_token = strlcpy 256 (parameter_value ps ''InfluxToken''),
      ic_username = strlcpy 64 (parameter_value ps ''InfluxUsername''),
      ic_password = strlcpy 128 (parameter_value ps ''InfluxPassword''),
      ic_measurement = strlcpy 64 (if measurement \<noteq> [] then measurement else ''axis_metrics''),
      ic_interval_s = clamp (guint_param ps ''InfluxInterval'') 1 3600\<rparr>)"

definition apply_influx_settings :: "app \<Rightarrow> app" where
  "apply_influx_settings a = a\<lparr>ap_influx := influx_apply (influx_settings (ap_params a)) (ap_influx a)\<rparr>"

definition restart_sampler :: "app \<Rightarrow> app" where
  "restart_sampler a = (let interval = clamp (guint_param (ap_params a) ''SampleInterval'') 1 10 in
     if interval = ap_interval a \<and> ap_sampling a then a
     else a\<lparr>ap_interval := interval, ap_sampling := True\<rparr>)"

definition apply_all_settings :: "env \<Rightarrow> app \<Rightarrow> app" where
  "apply_all_settings e a = apply_influx_settings (apply_mqtt_settings e (restart_sampler a))"

text \<open>A null value is one that is not given.\<close>

definition on_parameter_changed :: "env \<Rightarrow> string \<Rightarrow> string option \<Rightarrow> app \<Rightarrow> app" where
  "on_parameter_changed e name val a = (case find_parameter_suffix (ap_params a) name of None \<Rightarrow> a
     | Some i \<Rightarrow> if par_value (ap_params a ! i) = val then a
         else apply_all_settings e (a\<lparr>ap_params := (ap_params a)[i := (ap_params a ! i)
           \<lparr>par_value := Some (case val of Some v \<Rightarrow> v | None \<Rightarrow> [])\<rparr>]\<rparr>))"


section \<open>One tick\<close>

text \<open>Alerts go to the event system and to the broker.\<close>

definition on_alert_changed :: "library \<Rightarrow> mqtt \<Rightarrow> alert_rule \<Rightarrow> bool \<Rightarrow> app_output list" where
  "on_alert_changed lib m rule firing = map OfMqtt
     (mqtt_publish_alert (lib_fmt_g lib) (Some m) (ar_id rule) (ar_name rule) (ar_metric rule) (ar_last_value rule) firing)"

definition alert_outputs :: "library \<Rightarrow> mqtt \<Rightarrow> alert_output list \<Rightarrow> app_output list" where
  "alert_outputs lib m outs = concat (map (\<lambda>out. case out of Notified rule firing \<Rightarrow> OfAlert out # on_alert_changed lib m rule firing
     | _ \<Rightarrow> [OfAlert out]) outs)"

text \<open>Every call of the tick reads the clocks once; the two clocks do not move during a tick.\<close>

definition broadcast_current :: "library \<Rightarrow> env \<Rightarrow> app \<Rightarrow> app option" where
  "broadcast_current lib e a = (if ap_clients a = [] then Some a
     else do {
       json \<leftarrow> api_current_json (lib_fmt lib) (the_api a);
       Some (a\<lparr>ap_clients := sse_broadcast (sse_frame json) (ev_send e) (ap_clients a)\<rparr>)
     })"

definition publish_tick :: "library \<Rightarrow> env \<Rightarrow> app \<Rightarrow> app option" where
  "publish_tick lib e a = do {
     (m, outs) \<leftarrow> mqtt_tick (lib_fmt lib) (the_api a) (ev_mono e div 1000000) (ap_mqtt a);
     x \<leftarrow> influx_tick (lib_fmt lib) (the_api a) (ev_mono e div 1000000) (ap_influx a);
     ps \<leftarrow> procs_tick (ev_proc_dir e) (ev_proc_stat e) (ev_mono e) (ap_procs a);
     Some (emit (map OfMqtt outs) (a\<lparr>ap_mqtt := m, ap_influx := x, ap_procs := ps,
       ap_api := (ap_api a)\<lparr>api_mqtt_status := strlcpy 16 (mqtt_state m), api_influx_status := strlcpy 16 (influx_state (Some x))\<rparr>\<rparr>))
   }"

definition on_sample_tick :: "library \<Rightarrow> env \<Rightarrow> app \<Rightarrow> app option" where
  "on_sample_tick lib e a = do {
     (c, buffer) \<leftarrow> collector_sample (ev_world e) (ev_mono e) (ap_registry a) (ap_collector a) (ap_buffer a);
     (s, calls) \<leftarrow> store_push (ap_store a) buffer (ev_time e);
     a1 \<leftarrow> on_tier_samples calls (a\<lparr>ap_collector := c, ap_buffer := buffer, ap_store := s\<rparr>);
     (al, outs) \<leftarrow> alerts_evaluate (ap_registry a1) (ap_alerts a1) (ev_time e) buffer;
     a2 \<leftarrow> broadcast_current lib e (emit (alert_outputs lib (ap_mqtt a1) outs) (a1\<lparr>ap_alerts := al\<rparr>));
     publish_tick lib e a2
   }"

section \<open>Requests\<close>

datatype reply = Reply string string string | Stream

definition json_reply :: "string \<Rightarrow> reply" where
  "json_reply json = Reply ''200 OK'' ''application/json'' json"

definition status_ok :: string where
  "status_ok = CHR ''{'' # quoted ''status'' @ CHR '':'' # quoted ''ok'' @ ''}''"

definition error_reply :: "string \<Rightarrow> string \<Rightarrow> reply" where
  "error_reply status words = Reply status ''application/json'' (CHR ''{'' # quoted ''error'' @ CHR '':'' # quoted words @ ''}'')"

definition forbidden :: reply where "forbidden = error_reply ''403 Forbidden'' ''forbidden''"
definition not_found :: reply where "not_found = error_reply ''404 Not Found'' ''not found''"
definition bad_request :: reply where "bad_request = error_reply ''400 Bad Request'' ''bad request''"

definition processes_limit :: "string \<Rightarrow> guint" where
  "processes_limit path = clamp (case api_query_param (Some path) ''limit'' of Some t \<Rightarrow> guint_of64 (strtoull10 t) | None \<Rightarrow> 12) 1 100"

definition post_settings :: "env \<Rightarrow> string \<Rightarrow> app \<Rightarrow> app" where
  "post_settings e body a = (let (ps, changed) = apply_settings_body (ev_put e) body (ap_params a); a1 = a\<lparr>ap_params := ps\<rparr>
     in if changed then apply_all_settings e a1 else a1)"

definition post_rules :: "library \<Rightarrow> env \<Rightarrow> string \<Rightarrow> app \<Rightarrow> app option" where
  "post_rules lib e body a = do {
     (_, al, outs) \<leftarrow> alerts_apply (lib_strtod lib) (ev_declare e) (ap_alerts a) body;
     Some (emit (map OfAlert outs) (a\<lparr>ap_alerts := al\<rparr>))
   }"

definition post_metrics :: "library \<Rightarrow> string \<Rightarrow> app \<Rightarrow> app" where
  "post_metrics lib body a = (case (api_query_param (Some body) ''scope'', api_query_param (Some body) ''disabled'', api_selection (ap_api a)) of
       (Some scope, Some disabled, Some sel) \<Rightarrow>
         (let (sel1, file) = selection_set_disabled (lib_order lib) sel
              (if scope = ''transmit'' then SELECT_TRANSMIT else SELECT_DISPLAY) (Some disabled)
          in emit (case file of Some f \<Rightarrow> [OfSelection f] | None \<Rightarrow> []) (a\<lparr>ap_api := (ap_api a)\<lparr>api_selection := Some sel1\<rparr>\<rparr>))
     | _ \<Rightarrow> a)"

text \<open>
  The reply and the state after it. A stream is joined when its headers were written
  (\<open>headers_written\<close>).
\<close>

definition handle_request :: "library \<Rightarrow> env \<Rightarrow> nat \<Rightarrow> bool \<Rightarrow> string \<Rightarrow> string \<Rightarrow> string \<Rightarrow> bool \<Rightarrow> app \<Rightarrow> (reply \<times> app) option" where
  "handle_request lib e connection headers_written method path body read_only a = (let is_get = (method = ''GET''); is_post = (method = ''POST'');
       answer = (\<lambda>json. map_option (\<lambda>j. (json_reply j, a)) json) in
     if read_only \<and> (\<not> is_get \<or> route_is path ''settings'') then Some (forbidden, a)
     else if is_get \<and> route_is path ''settings'' then answer (Some (settings_json (ap_params a)))
     else if is_post \<and> route_is path ''settings'' then Some (json_reply status_ok, post_settings e body a)
     else if is_get \<and> route_is path ''meta'' then answer (api_meta_json (the_api a))
     else if is_get \<and> route_is path ''current'' then answer (api_current_json (lib_fmt lib) (the_api a))
     else if is_get \<and> route_is path ''series'' then answer (api_series_json (lib_fmt lib) (ev_time e) (the_api a) (Some path))
     else if is_get \<and> route_is path ''health'' then answer (api_health_json (ev_time e) (the_api a))
     else if is_get \<and> route_is path ''prometheus'' then map_option (\<lambda>text.
         (Reply ''200 OK'' ''text/plain; version=0.0.4; charset=utf-8'' text, a)) (api_prometheus_text (lib_fmt lib) (the_api a))
     else if is_get \<and> route_is path ''processes'' then (case ap_procs a of None \<Rightarrow> None
         | Some ps \<Rightarrow> answer (Some (procs_json (lib_qsort lib) (lib_fmt_g lib) ps (unat (processes_limit path)))))
     else if is_get \<and> route_is path ''alerts'' then answer (Some (alerts_json (lib_fmt_g lib) (ap_alerts a)))
     else if is_post \<and> route_is path ''rules'' then do {
         a1 \<leftarrow> post_rules lib e body a;
         Some (json_reply (alerts_json (lib_fmt_g lib) (ap_alerts a1)), a1) }
     else if is_post \<and> route_is path ''metrics'' then Some (json_reply status_ok, post_metrics lib body a)
     else if is_get \<and> route_is path ''stream'' then Some (Stream, a\<lparr>ap_clients := sse_add headers_written connection (ap_clients a)\<rparr>)
     else Some (not_found, a))"

text \<open>A connection whose reads return \<open>chunks\<close>, on the port of the settings or the read-only one.\<close>

definition on_http_request :: "library \<Rightarrow> env \<Rightarrow> nat \<Rightarrow> bool \<Rightarrow> string list \<Rightarrow> bool \<Rightarrow> app \<Rightarrow> (reply \<times> app) option" where
  "on_http_request lib e connection headers_written chunks read_only a = (case receive_request chunks of
       BadRequest \<Rightarrow> Some (bad_request, a)
     | Request method path body \<Rightarrow> handle_request lib e connection headers_written method path body read_only a)"

definition reply_bytes :: "reply \<Rightarrow> string" where
  "reply_bytes r = (case r of Reply status content_type body \<Rightarrow> send_response status content_type body | Stream \<Rightarrow> sse_headers)"

section \<open>Start and stop\<close>

text \<open>The state before the first timer: \<open>get\<close> reads a parameter, \<open>selected\<close> is the file of the selection.\<close>

definition app_new :: "env \<Rightarrow> (string \<Rightarrow> string option option) \<Rightarrow> selection_file option \<Rightarrow> device_info \<Rightarrow> procs \<Rightarrow> string \<Rightarrow> (string \<Rightarrow> disk) \<Rightarrow> app option" where
  "app_new e get selected device procs version disks = (let ps = load_parameters get in do {
     (r, c) \<leftarrow> collector_new (ev_world e) metrics_registry_init;
     s \<leftarrow> store_new r (clamp (guint_param ps ''SampleInterval'') 1 10) (total_memory_bytes (ev_world e));
     let (al, outs) = alerts_new r (ev_events e) (ev_declare e) (ev_rules e);
     Some \<lparr>ap_params = ps, ap_registry = r, ap_collector = c, ap_store = s, ap_persists = replicate STORE_TIERS None,
       ap_disks = disks, ap_mqtt = mqtt_new, ap_influx = influx_new, ap_procs = Some procs,
       ap_alerts = alerts_set_notify al True,
       ap_api = \<lparr>api_registry = r, api_store = s, api_selection = Some (selection_new selected), api_device = device,
         api_app_version = version, api_persist_path = None, api_mqtt_status = [], api_influx_status = [], api_started = ev_time e\<rparr>,
       ap_buffer = replicate (unat (reg_count r)) 0, ap_sampling = False, ap_interval = 0, ap_retry = False,
       ap_retry_sources = 0, ap_absence_logged = False, ap_clients = [], ap_outputs = map OfAlert outs\<rparr>
   })"

definition app_start :: "library \<Rightarrow> env \<Rightarrow> (nat \<Rightarrow> env) \<Rightarrow> app \<Rightarrow> app option" where
  "app_start lib e es a = do {
     (again, a1) \<leftarrow> try_open_persistence es 0 (apply_all_settings e a);
     on_sample_tick lib e (if again then a1\<lparr>ap_retry := True, ap_retry_sources := ap_retry_sources a1 + 1\<rparr> else a1)
   }"

text \<open>After the loop has ended; \<open>influx_free\<close> waits for the worker (\<open>influx_join\<close>).\<close>

definition app_stop :: "app \<Rightarrow> app" where
  "app_stop a = close_persistence (emit (map OfMqtt (mqtt_free (ap_mqtt a)))
     (a\<lparr>ap_retry_sources := (if ap_retry a then ap_retry_sources a - 1 else ap_retry_sources a),
        ap_influx := influx_stop (ap_influx a)\<rparr>))"

end
