(* ===== verification/AppHistory.thy ===== *)
theory AppHistory
  imports App CollectProps PersistProps AlertsProps ApiProps
begin

text \<open>
  The history files of \<^verbatim>\<open>app/main.c\<close>: what the program keeps true of the three files, the callbacks of
  the tiers and the path it reports, on any disk; opening them ends when the mount table settles.
\<close>

section \<open>One file on any disk\<close>

definition usable :: "metric_registry \<Rightarrow> persist \<Rightarrow> bool" where
  "usable r q \<longleftrightarrow> pr_n_metrics q = reg_count r \<and> 0 < unat (pr_capacity q)"

lemma usable_append:
  assumes "usable r q" "unat (reg_count r) \<le> length vs"
  shows "\<exists>q' d'. persist_append (Some q) d vs ts = Some (Some q', d') \<and> usable r q' \<and> pr_path q' = pr_path q"
proof (cases "pr_fd q < 0")
  case True
  with assms show ?thesis by (simp add: persist_append_def)
next
  case False
  obtain ok d1 where w: "write_at d (record_bytes ts (take (unat (reg_count r)) vs))
      (pr_records_offset q + unat (pr_head q) * pr_record_bytes q) = (ok, d1)" by force
  with False assms show ?thesis
    by (auto simp: persist_append_def usable_def arr_simps Let_def write_header_def split: prod.split)
qed

lemma usable_append_all:
  assumes "usable r q" "list_all (\<lambda>x. unat (reg_count r) \<le> length (snd x)) rows"
  shows "\<exists>q' d'. persist_append_all rows (Some q) d = Some (Some q', d') \<and> usable r q' \<and> pr_path q' = pr_path q"
  using assms
proof (induction rows arbitrary: q d)
  case (Cons x rows)
  then obtain q1 d1 where 1: "persist_append (Some q) d (snd x) (fst x) = Some (Some q1, d1)" "usable r q1" "pr_path q1 = pr_path q"
    using usable_append [of r q "snd x" d "fst x"] by auto
  from Cons.prems(2) have "list_all (\<lambda>x. unat (reg_count r) \<le> length (snd x)) rows" by simp
  from Cons.IH [OF 1(2) this] 1(1,3) show ?case by simp
qed simp

lemma usable_initialise: "usable r q \<Longrightarrow> usable r (fst (initialise_file q r' sized d))"
    "pr_path (fst (initialise_file q r' sized d)) = pr_path q"
  by (simp_all add: initialise_file_def usable_def write_header_def Let_def split: prod.split)

lemma tier_row_length: "tier_inv n t \<Longrightarrow> list_all (\<lambda>x. length (snd x) = n) (tier_rows n t)"
proof -
  assume inv: "tier_inv n t"
  have "length (row_at n (tier_data t) (j mod unat (tier_capacity t))) = n" for j
    using inv row_offset [of "j mod unat (tier_capacity t)" "unat (tier_capacity t)" n] by (simp add: tier_inv_def)
  then show ?thesis by (simp add: tier_rows_def ring_list_def list_all_iff)
qed

lemma usable_sync:
  assumes "usable (st_registry s) q" "store_inv s" "i < STORE_TIERS" "st_n_metrics s = reg_count (st_registry s)"
  shows "\<exists>q' d'. persist_sync (Some q) sized d s i = Some (Some q', d') \<and> usable (st_registry s) q' \<and> pr_path q' = pr_path q"
proof -
  obtain q1 d1 where 1: "initialise_file q (st_registry s) sized d = (q1, d1)" by force
  have u: "usable (st_registry s) q1" "pr_path q1 = pr_path q"
    using usable_initialise(1) [OF assms(1), of "st_registry s" sized d] usable_initialise(2) [of q "st_registry s" sized d] 1 by simp_all
  have "list_all (\<lambda>x. unat (reg_count (st_registry s)) \<le> length (snd x)) (store_rows s i)"
    using tier_row_length [OF store_inv_tier [OF assms(2,3)]] assms(4) by (simp add: list_all_iff)
  from usable_append_all [OF u(1) this, of d1] obtain q2 d2 where
    2: "persist_append_all (store_rows s i) (Some q1) d1 = Some (Some q2, d2)" "usable (st_registry s) q2" "pr_path q2 = pr_path q1"
    by blast
  have "sync_loop (unat (store_tier_count s i) + 1) s i 0 (Some q1) d1 = Some (Some q2, d2)"
    using sync_loop_append_all [OF assms(2,3), of 0 _ "Some q1" d1] 2(1) assms(3)
    by (simp add: store_tier_count_def del: sync_loop.simps)
  with 1 2 u show ?thesis by (simp add: persist_sync_def del: sync_loop.simps)
qed

section \<open>Callbacks of the tiers\<close>

definition callbacks :: "store \<Rightarrow> nat option list" where
  "callbacks s = map tier_callback (st_tiers s)"

lemma tier_append_callback: "tier_append n vs ts t = Some t' \<Longrightarrow> tier_callback t' = tier_callback t"
  by (auto simp: tier_append_def split: bind_splits)

lemma restore_callbacks: "store_restore s i vs ts = Some s' \<Longrightarrow> callbacks s' = callbacks s"
  by (auto simp: store_restore_def callbacks_def arr_get_def arr_set_def map_update list_update_same_conv
      dest: tier_append_callback split: bind_splits if_splits)

lemma load_loop_callbacks: "load_loop h mapping start is d s i k = Some (k', s', d') \<Longrightarrow> callbacks s' = callbacks s"
proof (induction "is" arbitrary: d s k)
  case (Cons j "is")
  then show ?case
    by (auto simp: Let_def dest: restore_callbacks split: bind_splits option.splits prod.splits if_splits)
qed simp

lemma load_callbacks: "persist_load p d s i = Some (k, s', d') \<Longrightarrow> callbacks s' = callbacks s"
  by (auto simp: persist_load_def Let_def dest: load_loop_callbacks split: option.splits prod.splits if_splits bind_splits)

lemma push_coarse_callback: "push_coarse n vs ts scratch t = Some (t', scratch', ps) \<Longrightarrow> tier_callback t' = tier_callback t"
  by (auto simp: push_coarse_def tier_accumulate_def Let_def dest!: tier_append_callback split: bind_splits if_splits)

lemma push_coarse_tiers_callbacks:
  "push_coarse_tiers n vs ts scratch xs = Some (xs', scratch', ps) \<Longrightarrow> map tier_callback xs' = map tier_callback xs"
  by (induction xs arbitrary: scratch xs' scratch' ps) (auto split: bind_splits, use push_coarse_callback in blast)

lemma push_callbacks: "store_push s vs ts = Some (s', calls) \<Longrightarrow> callbacks s' = callbacks s"
  by (cases "st_tiers s") (auto simp: store_push_def Let_def callbacks_def arr_get_def
      dest: tier_append_callback push_coarse_tiers_callbacks split: bind_splits if_splits)

definition call_ok :: "nat option list \<Rightarrow> nat \<Rightarrow> pending_call \<Rightarrow> bool" where
  "call_ok cbs n call \<longleftrightarrow> Some (fst call) \<in> set cbs \<and> length (fst (snd call)) = n"

lemma callback_call_ok: "tier_callback t \<in> set cbs \<Longrightarrow> length row = n \<Longrightarrow> list_all (call_ok cbs n) (callback_of t row ts)"
  by (auto simp: callback_of_def call_ok_def split: option.split)

lemma coarse_post_calls:
  assumes "coarse_post n vs ts t t' ps" "tier_callback t \<in> set cbs"
  shows "list_all (call_ok cbs n) ps"
  using assms callback_call_ok [OF assms(2)] by (auto simp: coarse_post_def Let_def split: if_splits)

lemma push_calls:
  assumes "store_inv s" "unat (st_n_metrics s) \<le> length vs"
  obtains s' calls where "store_push s vs ts = Some (s', calls)" "store_inv s'" "st_registry s' = st_registry s"
    "st_n_metrics s' = st_n_metrics s" "callbacks s' = callbacks s" "list_all (call_ok (callbacks s) (unat (st_n_metrics s))) calls"
proof -
  let ?n = "unat (st_n_metrics s)"
  obtain s' t0 t1 t2 t0' t1' t2' ps1 ps2 where
    1: "store_push s vs ts = Some (s', callback_of t0 (take ?n vs) ts @ ps1 @ ps2)" "store_inv s'"
      "st_registry s' = st_registry s" "st_n_metrics s' = st_n_metrics s"
    and t: "st_tiers s = [t0, t1, t2]" "coarse_post ?n vs ts t1 t1' ps1" "coarse_post ?n vs ts t2 t2' ps2"
    by (rule store_push_ok [OF assms])
  have "list_all (call_ok (callbacks s) ?n) (callback_of t0 (take ?n vs) ts)"
    by (rule callback_call_ok) (use t assms(2) in \<open>simp_all add: callbacks_def\<close>)
  moreover have "list_all (call_ok (callbacks s) ?n) ps1"
    by (rule coarse_post_calls [OF t(2)]) (simp add: t(1) callbacks_def)
  moreover have "list_all (call_ok (callbacks s) ?n) ps2"
    by (rule coarse_post_calls [OF t(3)]) (simp add: t(1) callbacks_def)
  ultimately show thesis using that [OF 1] push_callbacks [OF 1(1)] by simp
qed

lemma set_callback_ok:
  assumes "store_inv s" "i < STORE_TIERS"
  shows "store_inv (store_set_tier_callback s i cb)" "same_store s (store_set_tier_callback s i cb)"
    "callbacks (store_set_tier_callback s i cb) = (callbacks s)[i := cb]"
proof -
  obtain t0 t1 t2 where t: "st_tiers s = [t0, t1, t2]" "tier_inv (unat (st_n_metrics s)) t0"
    "coarse_inv (unat (st_n_metrics s)) t1" "coarse_inv (unat (st_n_metrics s)) t2"
    "0 < unat (tier_interval_s t0)" "0 < unat (tier_interval_s t1)" "0 < unat (tier_interval_s t2)"
    by (rule store_tiers_cases [OF assms(1)])
  have "i = 0 \<or> i = 1 \<or> i = 2" using assms(2) by (auto simp: STORE_TIERS_def)
  then show "store_inv (store_set_tier_callback s i cb)"
    using t assms(1) by (elim disjE) (auto simp: store_set_tier_callback_def store_inv_def coarse_inv_def tier_inv_def STORE_TIERS_def)
  show "same_store s (store_set_tier_callback s i cb)" by (simp add: store_set_tier_callback_def same_store_def)
  show "callbacks (store_set_tier_callback s i cb) = (callbacks s)[i := cb]"
    using assms(2) by (simp add: store_set_tier_callback_def callbacks_def map_update)
qed

section \<open>What the program keeps\<close>

text \<open>A tier writes to its file exactly while the file is open.\<close>

definition slot_ok :: "metric_registry \<Rightarrow> nat \<Rightarrow> persist option \<Rightarrow> nat option \<Rightarrow> bool" where
  "slot_ok r i p cb \<longleftrightarrow> (case p of None \<Rightarrow> cb = None | Some q \<Rightarrow> cb = Some i \<and> usable r q)"

definition files_inv :: "metric_registry \<Rightarrow> store \<Rightarrow> persist option list \<Rightarrow> bool" where
  "files_inv r s ps \<longleftrightarrow> length ps = STORE_TIERS \<and> (\<forall>i < STORE_TIERS. slot_ok r i (ps ! i) (callbacks s ! i))"

definition base_inv :: "app \<Rightarrow> bool" where
  [inv_defs]: "base_inv a \<longleftrightarrow> collector_inv (ap_registry a) (ap_collector a) \<and> reg_inv (ap_registry a)
     \<and> store_inv (ap_store a) \<and> st_registry (ap_store a) = ap_registry a \<and> st_n_metrics (ap_store a) = reg_count (ap_registry a)
     \<and> length (ap_buffer a) = unat (reg_count (ap_registry a)) \<and> rules_inv (al_rules (ap_alerts a))
     \<and> files_inv (ap_registry a) (ap_store a) (ap_persists a) \<and> QUIT \<notin> set (ix_queue (ap_influx a)) \<and> ap_procs a \<noteq> None"

definition open_upto :: "nat \<Rightarrow> app \<Rightarrow> bool" where
  "open_upto k a \<longleftrightarrow> (\<forall>i < STORE_TIERS. (ap_persists a ! i \<noteq> None) = (i < k))"

definition path_inv :: "app \<Rightarrow> bool" where
  "path_inv a \<longleftrightarrow> api_persist_path (ap_api a) = persist_path (ap_persists a ! (STORE_TIERS - 1))"

definition core_inv :: "app \<Rightarrow> bool" where
  "core_inv a \<longleftrightarrow> base_inv a \<and> (open_upto 0 a \<or> open_upto STORE_TIERS a) \<and> path_inv a"

text \<open>What the history files leave alone.\<close>

definition kept :: "app \<Rightarrow> parameter list \<times> mqtt \<times> influx \<times> procs option \<times> bool \<times> guint \<times> sse_client list" where
  "kept a = (ap_params a, ap_mqtt a, ap_influx a, ap_procs a, ap_sampling a, ap_interval a, ap_clients a)"

lemma base_api_inv: "base_inv a \<Longrightarrow> api_inv (the_api a)"
  by (simp add: base_inv_def api_inv_def the_api_def)

lemma base_inv_files:
  assumes "base_inv a" "store_inv s" "same_store (ap_store a) s" "files_inv (ap_registry a) s ps"
  shows "base_inv (a\<lparr>ap_store := s, ap_persists := ps, ap_disks := ds\<rparr>)"
    "base_inv (a\<lparr>ap_store := s, ap_disks := ds, ap_persists := ps\<rparr>)"
  using assms by (simp_all add: base_inv_def same_store_def)

lemma base_inv_more [simp]: "base_inv (a\<lparr>ap_api := x\<rparr>) = base_inv a" "base_inv (a\<lparr>ap_retry := b\<rparr>) = base_inv a"
    "base_inv (a\<lparr>ap_retry_sources := n\<rparr>) = base_inv a" "base_inv (a\<lparr>ap_absence_logged := l\<rparr>) = base_inv a"
    "base_inv (a\<lparr>ap_outputs := outs\<rparr>) = base_inv a" "base_inv (a\<lparr>ap_clients := cl\<rparr>) = base_inv a"
    "base_inv (a\<lparr>ap_mqtt := m\<rparr>) = base_inv a" "base_inv (a\<lparr>ap_params := prs\<rparr>) = base_inv a"
    "base_inv (a\<lparr>ap_interval := v\<rparr>) = base_inv a" "base_inv (a\<lparr>ap_sampling := g\<rparr>) = base_inv a"
    "base_inv (emit os a) = base_inv a" "base_inv (set_persist_path p a) = base_inv a"
  by (simp_all add: base_inv_def emit_def set_persist_path_def)

lemma files_inv_update:
  assumes "files_inv r s ps" "callbacks s' = (callbacks s)[i := cb]" "slot_ok r i p cb" "length (callbacks s) = STORE_TIERS"
  shows "files_inv r s' (ps[i := p])"
proof -
  have "slot_ok r j (ps[i := p] ! j) (callbacks s' ! j)" if "j < STORE_TIERS" for j
    using assms that by (cases "j = i") (simp_all add: files_inv_def)
  then show ?thesis using assms(1) by (simp add: files_inv_def)
qed

lemma length_callbacks: "store_inv s \<Longrightarrow> length (callbacks s) = STORE_TIERS"
  by (simp add: callbacks_def store_inv_def)

section \<open>Closing\<close>

lemma close_tier_ok:
  assumes "base_inv a" "i < STORE_TIERS"
  shows "base_inv (close_tier i a)" "ap_persists (close_tier i a) = (ap_persists a)[i := None]" "kept (close_tier i a) = kept a"
    "ap_retry (close_tier i a) = ap_retry a" "ap_retry_sources (close_tier i a) = ap_retry_sources a" "ap_api (close_tier i a) = ap_api a"
proof -
  have base: "base_inv (close_tier i a)" if "ap_persists a ! i = Some q" for q
  proof -
    have s: "store_inv (ap_store a)" and f: "files_inv (ap_registry a) (ap_store a) (ap_persists a)" using assms(1) by (simp_all add: base_inv_def)
    note cb = set_callback_ok [OF s assms(2), of None]
    have "files_inv (ap_registry a) (store_set_tier_callback (ap_store a) i None) ((ap_persists a)[i := None])"
      by (rule files_inv_update [OF f cb(3) _ length_callbacks [OF s]]) (simp add: slot_ok_def)
    from base_inv_files(2) [OF assms(1) cb(1,2) this] that show ?thesis by (simp add: close_tier_def)
  qed
  show "base_inv (close_tier i a)" using assms(1) base by (cases "ap_persists a ! i") (simp_all add: close_tier_def)
  show "ap_persists (close_tier i a) = (ap_persists a)[i := None]"
    by (cases "ap_persists a ! i") (simp_all add: close_tier_def list_update_same_conv, metis list_update_id)
  show "kept (close_tier i a) = kept a" "ap_retry (close_tier i a) = ap_retry a"
    "ap_retry_sources (close_tier i a) = ap_retry_sources a" "ap_api (close_tier i a) = ap_api a"
    by (simp_all add: close_tier_def kept_def split: option.split)
qed

lemma close_persistence_ok:
  assumes "base_inv a"
  shows "base_inv (close_persistence a)" "open_upto 0 (close_persistence a)" "path_inv (close_persistence a)"
    "kept (close_persistence a) = kept a" "ap_retry (close_persistence a) = ap_retry a"
    "ap_retry_sources (close_persistence a) = ap_retry_sources a"
proof -
  have T: "0 < STORE_TIERS" "1 < STORE_TIERS" "2 < STORE_TIERS" by (simp_all add: STORE_TIERS_def)
  note c0 = close_tier_ok [OF assms T(1)]
  note c1 = close_tier_ok [OF c0(1) T(2)]
  note c2 = close_tier_ok [OF c1(1) T(3)]
  have eq: "close_persistence a = set_persist_path None (close_tier 2 (close_tier 1 (close_tier 0 a)))"
    by (simp add: close_persistence_def STORE_TIERS_def upt_rec eval_nat_numeral)
  have len: "length (ap_persists a) = 3" using assms by (simp add: base_inv_def files_inv_def STORE_TIERS_def)
  show "base_inv (close_persistence a)" unfolding eq base_inv_more by (rule c2(1))
  show "open_upto 0 (close_persistence a)" "path_inv (close_persistence a)" unfolding eq open_upto_def path_inv_def
    using c0 c1 c2 len by (auto simp: set_persist_path_def STORE_TIERS_def persist_path_def nth_list_update)
  show "kept (close_persistence a) = kept a" "ap_retry (close_persistence a) = ap_retry a"
    "ap_retry_sources (close_persistence a) = ap_retry_sources a" unfolding eq using c0 c1 c2 by (simp_all add: set_persist_path_def kept_def)
qed

section \<open>Opening\<close>

lemma open_usable:
  assumes "persist_open statvfs mounts mk fd r t name logged = (Some q, logged')" "tier_inv n t"
  shows "usable r q"
  using assms by (auto simp: persist_open_def usable_def tier_inv_def Let_def split: option.splits if_splits)

lemma open_tier_ok:
  assumes a: "base_inv (a\<lparr>ap_persists := ps\<rparr>)" and i: "i < STORE_TIERS" and q: "usable (ap_registry a) q"
  shows "\<exists>a'. open_tier e i q (a\<lparr>ap_persists := ps[i := Some q]\<rparr>) = Some a' \<and> base_inv a' \<and> kept a' = kept a
    \<and> (\<exists>q'. ap_persists a' = ps[i := Some q']) \<and> ap_retry a' = ap_retry a \<and> ap_retry_sources a' = ap_retry_sources a"
proof -
  let ?s = "ap_store a" and ?r = "ap_registry a"
  have s: "store_inv ?s" "st_registry ?s = ?r" "reg_count (st_registry ?s) = st_n_metrics ?s" "reg_inv (st_registry ?s)"
    and f: "files_inv ?r ?s ps" using a by (simp_all add: base_inv_def)
  obtain k s1 d1 where 1: "(if store_tier_count ?s i = 0 then persist_load (Some q) (ap_disks a (pr_path q)) ?s i
      else Some (0, ?s, ap_disks a (pr_path q))) = Some (k, s1, d1)" "store_inv s1" "same_store ?s s1" "callbacks s1 = callbacks ?s"
    using persist_load_safe [OF s(1) i s(4,3), of "Some q" "ap_disks a (pr_path q)"] s(1) load_callbacks
    by (cases "store_tier_count ?s i = 0") (auto simp: same_store_def)
  have s1: "st_registry s1 = ?r" "st_n_metrics s1 = reg_count (st_registry s1)" using 1(3) s by (simp_all add: same_store_def)
  obtain q' d2 where 2: "persist_sync (Some q) (ev_sized e) d1 s1 i = Some (Some q', d2)" "usable ?r q'"
    using usable_sync [OF _ 1(2) i s1(2), of q "ev_sized e" d1] q s1(1) by auto
  let ?s2 = "store_set_tier_callback s1 i (Some i)"
  note cb = set_callback_ok [OF 1(2) i, of "Some i"]
  have same: "same_store ?s ?s2" using 1(3) cb(2) by (simp add: same_store_def)
  have f2: "files_inv ?r ?s2 (ps[i := Some q'])"
    by (rule files_inv_update [OF f, of _ _ "Some i"]) (use cb(3) 1(4) 2(2) length_callbacks [OF s(1)] in \<open>simp_all add: slot_ok_def\<close>)
  have "base_inv (a\<lparr>ap_store := ?s2, ap_persists := ps[i := Some q'], ap_disks := ds\<rparr>)" for ds
    using base_inv_files(1) [OF a cb(1)] same f2 by simp
  moreover have "open_tier e i q (a\<lparr>ap_persists := ps[i := Some q]\<rparr>)
      = Some (a\<lparr>ap_store := ?s2, ap_persists := ps[i := Some q'], ap_disks := (ap_disks a)(pr_path q := d2)\<rparr>)"
    using 1(1) 2(1) by (cases "store_tier_count ?s i = 0") (simp_all add: open_tier_def)
  ultimately show ?thesis by (intro exI conjI) (assumption, simp_all add: kept_def)
qed

definition opened_to :: "bool \<Rightarrow> app \<Rightarrow> app \<Rightarrow> bool" where
  "opened_to again a a' \<longleftrightarrow> core_inv a' \<and> kept a' = kept a
     \<and> (if again then open_upto 0 a' \<and> ap_retry a' = ap_retry a \<and> ap_retry_sources a' = ap_retry_sources a
        else open_upto STORE_TIERS a' \<and> \<not> ap_retry a' \<and> ap_retry_sources a' = ap_retry_sources a)"

lemma open_tiers_ok:
  assumes "base_inv a" "open_upto k a" "k \<le> STORE_TIERS"
  shows "\<exists>again a'. open_tiers e [k..<STORE_TIERS] a = Some (again, a') \<and> opened_to again a a'"
  using assms
proof (induction "STORE_TIERS - k" arbitrary: k a)
  case 0
  then have k: "k = STORE_TIERS" by simp
  let ?b = "set_persist_path (persist_path (ap_persists a ! (STORE_TIERS - 1))) (a\<lparr>ap_retry := False\<rparr>)"
  have "open_upto STORE_TIERS ?b" "path_inv ?b" "kept ?b = kept a"
    using 0 k by (simp_all add: open_upto_def path_inv_def set_persist_path_def kept_def)
  moreover have "\<not> ap_retry ?b" "ap_retry_sources ?b = ap_retry_sources a" "base_inv ?b"
    using 0 by (simp_all add: set_persist_path_def)
  ultimately have "opened_to False a ?b" unfolding opened_to_def core_inv_def by simp
  then show ?case using k by simp blast
next
  case (Suc n)
  then have k: "k < STORE_TIERS" "n = STORE_TIERS - Suc k" by simp_all
  obtain p logged where p: "persist_open (ev_statvfs e) (w_file (ev_world e) ''/proc/mounts'') (ev_mkdir e) (ev_open e)
      (ap_registry a) (st_tiers (ap_store a) ! k) (PERSIST_FILES ! k) (ap_absence_logged a) = (p, logged)" by force
  let ?a = "a\<lparr>ap_absence_logged := logged\<rparr>"
  have up: "[k..<STORE_TIERS] = k # [Suc k..<STORE_TIERS]" using k by (simp add: upt_conv_Cons)
  have none: "ap_persists a ! k = None" using Suc.prems(2) k(1) unfolding open_upto_def by blast
  then have same: "(ap_persists a)[k := None] = ap_persists a" by (metis list_update_id)
  show ?case
  proof (cases p)
    case None
    have "base_inv ?a" using Suc.prems(1) by simp
    note c = close_persistence_ok [OF this]
    have "opened_to True a (close_persistence ?a)"
      using c by (simp add: opened_to_def core_inv_def) (simp add: kept_def)
    then show ?thesis using p None same by (simp add: up) blast
  next
    case (Some q)
    have b: "base_inv (?a\<lparr>ap_persists := ap_persists a\<rparr>)" using Suc.prems(1) by simp
    have "tier_inv (unat (st_n_metrics (ap_store a))) (st_tiers (ap_store a) ! k)"
      by (rule store_inv_tier [OF _ k(1)]) (use Suc.prems(1) in \<open>simp add: base_inv_def\<close>)
    then have "usable (ap_registry ?a) q" using p Some open_usable by simp
    from open_tier_ok [OF b k(1) this, of e] obtain a' q' where
      1: "open_tier e k q (?a\<lparr>ap_persists := (ap_persists a)[k := Some q]\<rparr>) = Some a'" "base_inv a'" "kept a' = kept ?a"
        "ap_persists a' = (ap_persists a)[k := Some q']" "ap_retry a' = ap_retry a" "ap_retry_sources a' = ap_retry_sources a" by auto
    have "length (ap_persists a) = STORE_TIERS" using Suc.prems(1) by (simp add: base_inv_def files_inv_def)
    then have "open_upto (Suc k) a'" using Suc.prems(2) 1(4) by (auto simp: open_upto_def nth_list_update less_Suc_eq)
    from Suc.hyps(1) [OF k(2) 1(2) this] k(1) obtain again a2 where
      2: "open_tiers e [Suc k..<STORE_TIERS] a' = Some (again, a2)" "opened_to again a' a2" by auto
    have "opened_to again a a2" using 2(2) 1 by (simp add: opened_to_def kept_def)
    then show ?thesis using p Some 1(1) 2(1) by (simp add: up)
  qed
qed

section \<open>New storage\<close>

lemma rebuild_start_ok:
  assumes "base_inv a"
  shows "\<exists>a'. rebuild_start e a = Some a' \<and> core_inv a' \<and> open_upto 0 a' \<and> kept a' = kept a \<and> ap_retry a' = ap_retry a
    \<and> ap_retry_sources a' = ap_retry_sources a \<and> \<not> collector_mounts_changed (ev_world e) (ap_collector a')"
proof -
  note cl = close_persistence_ok [OF assms]
  let ?a1 = "close_persistence a"
  obtain r c where 1: "collector_new (ev_world e) metrics_registry_init = Some (r, c)" "reg_ok 697 r" "collector_inv r c"
    "\<not> collector_mounts_changed (ev_world e) c" by (rule collector_new_ok)
  obtain s c0 c1 c2 where 2: "store_new r (ap_interval ?a1) (total_memory_bytes (ev_world e)) = Some s" "store_inv s"
    "st_registry s = r" "st_n_metrics s = reg_count r"
    "st_tiers s = [new_tier (reg_count r) 0 (max 1 (ap_interval ?a1)) c0, new_tier (reg_count r) 1 15 c1, new_tier (reg_count r) 2 300 c2]"
    by (rule store_new_ok)
  obtain al outs where 3: "alerts_new r (ev_events e) (ev_declare e) (ev_rules e) = (al, outs)" by force
  have al: "rules_inv (al_rules al)" using alerts_new_inv [of r "ev_events e" "ev_declare e" "ev_rules e"] 3 by simp
  let ?a' = "emit (map OfAlert outs) (set_persist_path None (?a1\<lparr>ap_registry := r, ap_collector := c,
       ap_buffer := replicate (unat (reg_count r)) 0, ap_store := s, ap_alerts := alerts_set_notify al True\<rparr>))"
  have cb: "callbacks s = [None, None, None]" by (simp add: callbacks_def 2(5) new_tier_def)
  have closed: "ap_persists ?a1 ! i = None" if "i < STORE_TIERS" for i using cl(2) that by (simp add: open_upto_def)
  have "files_inv r s (ap_persists ?a1)"
    using cl(1) closed cb by (auto simp: files_inv_def base_inv_def slot_ok_def STORE_TIERS_def less_Suc_eq eval_nat_numeral)
  then have "base_inv ?a'" using cl(1) 1 2 al unfolding base_inv_more by (simp add: base_inv_def reg_ok_def alerts_set_notify_def)
  moreover have "open_upto 0 ?a'" using cl(2) by (simp add: open_upto_def emit_def set_persist_path_def)
  moreover have "path_inv ?a'" using closed [of "STORE_TIERS - 1"]
    by (simp add: path_inv_def emit_def set_persist_path_def persist_path_def STORE_TIERS_def)
  moreover have "rebuild_start e a = Some ?a'" by (simp add: rebuild_start_def 1(1) 2(1) 3)
  ultimately show ?thesis using cl(4-6) 1(4)
    by (auto simp: core_inv_def kept_def emit_def set_persist_path_def)
qed

text \<open>What \<open>try_open_persistence\<close> leaves: its timer stays, or the timer is pending exactly while the history is closed.\<close>

definition tried :: "bool \<Rightarrow> app \<Rightarrow> app \<Rightarrow> bool" where
  "tried again a a' \<longleftrightarrow> core_inv a' \<and> kept a' = kept a
     \<and> (if again then open_upto 0 a' \<and> ap_retry a' = ap_retry a \<and> ap_retry_sources a' = ap_retry_sources a
        else ap_retry a' = open_upto 0 a' \<and> ap_retry_sources a' = ap_retry_sources a + (if ap_retry a' then 1 else 0))"

lemma open_upto_last: "open_upto k a \<Longrightarrow> (ap_persists a ! (STORE_TIERS - 1) \<noteq> None) = (STORE_TIERS - 1 < k)"
  by (simp add: open_upto_def STORE_TIERS_def)

lemma try_open_already:
  assumes "core_inv a" "open_upto STORE_TIERS a" "\<not> ap_retry a"
  shows "\<exists>again a'. try_open_persistence es n a = Some (again, a') \<and> tried again a a'"
proof -
  have "ap_persists a ! (STORE_TIERS - 1) \<noteq> None" "\<not> open_upto 0 a"
    using open_upto_last [OF assms(2)] open_upto_last [of 0 a] by (auto simp: STORE_TIERS_def)
  then have "try_open_persistence es n a = Some (False, a)" "tried False a a"
    using assms by (subst try_open_persistence.simps, simp_all add: tried_def)
  then show ?thesis by blast
qed

lemma try_open_same_mounts:
  assumes a: "core_inv a" "open_upto STORE_TIERS a \<longrightarrow> \<not> ap_retry a"
    and same: "\<not> collector_mounts_changed (ev_world (es (2 * n))) (ap_collector a)"
  shows "\<exists>again a'. try_open_persistence es n a = Some (again, a') \<and> tried again a a'"
proof (cases "open_upto STORE_TIERS a")
  case True
  with a show ?thesis by (blast intro: try_open_already)
next
  case False
  then have z: "open_upto 0 a" using a(1) by (simp add: core_inv_def)
  then have "ap_persists a ! (STORE_TIERS - 1) = None" using open_upto_last by fastforce
  then have eq: "try_open_persistence es n a = open_tiers (es (2 * n)) [0..<STORE_TIERS] a"
    using same by (subst try_open_persistence.simps) simp
  have "base_inv a" using a(1) by (simp add: core_inv_def)
  from open_tiers_ok [OF this z, of "es (2 * n)"] obtain again a' where
    1: "open_tiers (es (2 * n)) [0..<STORE_TIERS] a = Some (again, a')" "opened_to again a a'" by auto
  have "\<not> open_upto 0 a'" if "open_upto STORE_TIERS a'"
    using open_upto_last [OF that] open_upto_last [of 0 a'] by (auto simp: STORE_TIERS_def)
  then have "tried again a a'" using 1(2) by (auto simp: tried_def opened_to_def split: if_splits)
  with 1(1) eq show ?thesis by simp
qed

text \<open>The check that follows a rebuild sees as many storage mounts as the rebuild.\<close>

definition storage_count :: "env \<Rightarrow> nat option" where
  "storage_count e = map_option (\<lambda>t. count_mounts (mounts_entries t) []) (w_file (ev_world e) ''/proc/mounts'')"

definition settled :: "(nat \<Rightarrow> env) \<Rightarrow> nat \<Rightarrow> bool" where
  "settled es k \<longleftrightarrow> storage_count (es (2 * k + 2)) = storage_count (es (2 * k + 1))"

lemma mounts_changed_count: "collector_mounts_changed (ev_world e) c
    = (case storage_count e of None \<Rightarrow> False | Some k \<Rightarrow> k \<noteq> length (co_mounts c))"
  by (simp add: collector_mounts_changed_def storage_count_def split: option.split)

lemma tried_arm:
  assumes "tried again a1 a2" "\<not> ap_retry a1" "kept a1 = kept a" "ap_retry_sources a1 = ap_retry_sources a"
  shows "tried False a (arm_retry again a2)"
proof -
  have "core_inv (a2\<lparr>ap_retry := True, ap_retry_sources := ap_retry_sources a2 + 1\<rparr>) = core_inv a2"
    by (simp add: core_inv_def open_upto_def path_inv_def)
  with assms show ?thesis
    by (cases again) (auto simp: tried_def arm_retry_def kept_def open_upto_def)
qed

lemma try_open_rebuild:
  assumes a: "core_inv a" "open_upto STORE_TIERS a \<longrightarrow> \<not> ap_retry a"
    and next_ok: "\<And>a1. core_inv a1 \<Longrightarrow> \<not> ap_retry a1 \<Longrightarrow> \<not> collector_mounts_changed (ev_world (es (2 * n + 1))) (ap_collector a1)
      \<Longrightarrow> \<exists>again a2. try_open_persistence es (n + 1) a1 = Some (again, a2) \<and> tried again a1 a2"
  shows "\<exists>again a'. try_open_persistence es n a = Some (again, a') \<and> tried again a a'"
proof (cases "ap_persists a ! (STORE_TIERS - 1) = None \<and> collector_mounts_changed (ev_world (es (2 * n))) (ap_collector a)")
  case False
  show ?thesis
  proof (cases "open_upto STORE_TIERS a")
    case True
    with a show ?thesis by (blast intro: try_open_already)
  next
    case closed: False
    then have "open_upto 0 a" using a(1) by (simp add: core_inv_def)
    then have "ap_persists a ! (STORE_TIERS - 1) = None" using open_upto_last by fastforce
    then show ?thesis using False try_open_same_mounts [OF a] by blast
  qed
next
  case True
  have "base_inv (a\<lparr>ap_retry := False\<rparr>)" using a(1) by (simp add: core_inv_def)
  from rebuild_start_ok [OF this, of "es (2 * n + 1)"] obtain a1 where
    1: "rebuild_start (es (2 * n + 1)) (a\<lparr>ap_retry := False\<rparr>) = Some a1" "core_inv a1" "\<not> ap_retry a1" "kept a1 = kept a"
      "ap_retry_sources a1 = ap_retry_sources a" "\<not> collector_mounts_changed (ev_world (es (2 * n + 1))) (ap_collector a1)"
    by (auto simp: kept_def)
  from next_ok [OF 1(2,3,6)] obtain again a2 where
    2: "try_open_persistence es (n + 1) a1 = Some (again, a2)" "tried again a1 a2" by blast
  have "try_open_persistence es n a = Some (False, arm_retry again a2)"
    using True 1(1) 2(1) by (subst try_open_persistence.simps) simp
  with tried_arm [OF 2(2) 1(3,4,5)] show ?thesis by blast
qed

lemma try_open_ok:
  assumes "core_inv a" "open_upto STORE_TIERS a \<longrightarrow> \<not> ap_retry a" "n \<le> k" "settled es k"
  shows "\<exists>again a'. try_open_persistence es n a = Some (again, a') \<and> tried again a a'"
  using assms
proof (induction "k - n" arbitrary: n a)
  case (0 n a)
  then have k: "k = n" by simp
  show ?case
  proof (rule try_open_rebuild [OF 0(2,3)])
    fix a1 assume a1: "core_inv a1" "\<not> ap_retry a1" "\<not> collector_mounts_changed (ev_world (es (2 * n + 1))) (ap_collector a1)"
    have "\<not> collector_mounts_changed (ev_world (es (2 * (n + 1)))) (ap_collector a1)"
      using a1(3) 0(5) k by (simp add: settled_def mounts_changed_count)
    with try_open_same_mounts [OF a1(1)] a1(2)
    show "\<exists>again a2. try_open_persistence es (n + 1) a1 = Some (again, a2) \<and> tried again a1 a2" by blast
  qed
next
  case (Suc m n a)
  then have "m = k - (n + 1)" "n + 1 \<le> k" by simp_all
  with Suc.hyps(1) [of "n + 1"] Suc.prems(4)
  show ?case by (intro try_open_rebuild [OF Suc.prems(1,2)]) blast
qed

text \<open>Conversely it only returns when some check sees the storage of the rebuild before it.\<close>

lemma try_open_settles:
  assumes "try_open_persistence es n a = Some y" "ap_persists a ! (STORE_TIERS - 1) = None"
    "collector_mounts_changed (ev_world (es (2 * n))) (ap_collector a)" "base_inv a" "\<forall>i. storage_count (es i) \<noteq> None"
  shows "\<exists>k \<ge> n. settled es k"
  using assms
proof (induction rule: try_open_persistence.raw_induct [rotated 1, consumes 1, case_names Call])
  case (Call f es n a y)
  have "base_inv (a\<lparr>ap_retry := False\<rparr>)" using Call.prems(3) by simp
  from rebuild_start_ok [OF this, of "es (2 * n + 1)"] obtain a1 where
    a1: "rebuild_start (es (2 * n + 1)) (a\<lparr>ap_retry := False\<rparr>) = Some a1" "core_inv a1" "open_upto 0 a1"
      "\<not> collector_mounts_changed (ev_world (es (2 * n + 1))) (ap_collector a1)" by auto
  obtain z where z: "f es (n + 1) a1 = Some z" using Call.hyps Call.prems(1,2) a1(1) by (auto split: bind_splits)
  show ?case
  proof (cases "collector_mounts_changed (ev_world (es (2 * (n + 1)))) (ap_collector a1)")
    case True
    have "ap_persists a1 ! (STORE_TIERS - 1) = None" using open_upto_last [OF a1(3)] by simp
    from Call.IH [OF z this True] a1(2) Call.prems(4) have "\<exists>k \<ge> n + 1. settled es k" by (simp add: core_inv_def)
    then show ?thesis by (meson add_leD1)
  next
    case False
    obtain i j where "storage_count (es (2 * n + 1)) = Some i" "storage_count (es (2 * (n + 1))) = Some j"
      using Call.prems(4) by (meson not_None_eq)
    with False a1(4) have "settled es n" by (simp add: settled_def mounts_changed_count)
    then show ?thesis by blast
  qed
qed

end
