(* ===== verification/AppProps.thy ===== *)
theory AppProps
  imports AppHistory MqttProps SettingsProps ProcsProps InfluxProps Prometheus
begin

text \<open>
  The whole program: it starts, ticks, answers requests, follows its settings and the storage, as a
  sequence of the operations of \<open>App\<close>. Its invariant joins those of the components.
\<close>

section \<open>The invariant of the running program\<close>

text \<open>What the libraries promise: no answer of the camera ends in a sensor key, and every
  \<^verbatim>\<open>/proc/<pid>/stat\<close> has text behind its last parenthesis.\<close>

definition tame :: "env \<Rightarrow> bool" where
  "tame e \<longleftrightarrow> answers_whole (ev_world e) \<and> (\<forall>path. read_stat (ev_proc_stat e path) \<noteq> None)"

definition config_inv :: "mqtt_config \<Rightarrow> influx_config \<Rightarrow> bool" where
  "config_inv mc ic \<longleftrightarrow> 1 \<le> mc_interval_s mc \<and> mc_interval_s mc \<le> 3600 \<and> 1 \<le> mc_port mc \<and> mc_port mc \<le> 65535
     \<and> 1 \<le> ic_interval_s ic \<and> ic_interval_s ic \<le> 3600"

definition settings_inv :: "app \<Rightarrow> bool" where
  "settings_inv a \<longleftrightarrow> ap_sampling a \<and> 1 \<le> ap_interval a \<and> ap_interval a \<le> 10
     \<and> config_inv (mq_config (ap_mqtt a)) (ix_config (ap_influx a))"

definition timer_inv :: "app \<Rightarrow> bool" where
  "timer_inv a \<longleftrightarrow> ap_retry a = open_upto 0 a \<and> ap_retry_sources a = (if ap_retry a then 1 else 0)"

definition running_inv :: "app \<Rightarrow> bool" where
  "running_inv a \<longleftrightarrow> core_inv a \<and> timer_inv a \<and> settings_inv a"

text \<open>The invariant reads of the files only which are open, and where.\<close>

definition places :: "app \<Rightarrow> string option list" where
  "places a = map (map_option pr_path) (ap_persists a)"

lemma core_inv_cong:
  assumes "core_inv a" "base_inv a'" "places a' = places a" "api_persist_path (ap_api a') = api_persist_path (ap_api a)"
  shows "core_inv a'" "open_upto k a' = open_upto k a"
proof -
  have len: "length (ap_persists a) = STORE_TIERS" "length (ap_persists a') = STORE_TIERS"
    using assms(1,2) by (simp_all add: core_inv_def base_inv_def files_inv_def)
  have nth: "map_option pr_path (ap_persists a' ! i) = map_option pr_path (ap_persists a ! i)" if "i < STORE_TIERS" for i
    using assms(3) len that unfolding places_def by (metis nth_map)
  then have none: "(ap_persists a' ! i = None) = (ap_persists a ! i = None)" if "i < STORE_TIERS" for i
    using that by (metis option.map_disc_iff)
  then show up: "open_upto k a' = open_upto k a" for k by (simp add: open_upto_def)
  have "path_inv a'" using assms(1,4) nth [of "STORE_TIERS - 1"]
    by (simp add: core_inv_def path_inv_def persist_path_def STORE_TIERS_def)
  with assms(1,2) up show "core_inv a'" by (simp add: core_inv_def)
qed

lemma running_cong:
  assumes "running_inv a" "base_inv a'" "places a' = places a" "api_persist_path (ap_api a') = api_persist_path (ap_api a)"
    and "ap_retry a' = ap_retry a" "ap_retry_sources a' = ap_retry_sources a" "settings_inv a'"
  shows "running_inv a'"
  using core_inv_cong [OF _ assms(2,3,4)] assms by (simp add: running_inv_def timer_inv_def)

section \<open>Settings\<close>

lemma clamp_range: "lo \<le> hi \<Longrightarrow> lo \<le> clamp x lo hi \<and> clamp x lo hi \<le> hi"
  by (auto simp: clamp_def not_less)

lemma mqtt_apply_config: "mq_config (fst (mqtt_apply a ok config m)) = config"
  by (auto simp: mqtt_apply_def Let_def mqtt_disconnect_def connect_now_def publish_discovery_def split: prod.split)

lemma port_range: "1 \<le> (if p = 0 \<or> 65535 < p then (if tls then 8883 else 1883) else p)"
    "(if p = 0 \<or> 65535 < p then (if tls then 8883 else 1883) else p) \<le> (65535 :: guint)"
proof -
  show "1 \<le> (if p = 0 \<or> 65535 < p then (if tls then 8883 else 1883) else p)"
    by (simp add: word_le_nat_alt) (metis One_nat_def Suc_leI unat_gt_0)
  show "(if p = 0 \<or> 65535 < p then (if tls then 8883 else 1883) else p) \<le> (65535 :: guint)" by (simp add: not_less)
qed

lemma config_inv_settings: "config_inv (mqtt_settings ps dev) (influx_settings ps)"
  using clamp_range [of 1 3600]
  by (simp add: config_inv_def mqtt_settings_def influx_settings_def Let_def port_range del: if_split)

lemma restart_sampler_ok: "ap_sampling (restart_sampler a)" "1 \<le> ap_interval (restart_sampler a)" "ap_interval (restart_sampler a) \<le> 10"
    "\<exists>v g. restart_sampler a = a\<lparr>ap_interval := v, ap_sampling := g\<rparr>"
proof -
  note c = clamp_range [of 1 10 "guint_param (ap_params a) ''SampleInterval''"]
  show "ap_sampling (restart_sampler a)" "1 \<le> ap_interval (restart_sampler a)" "ap_interval (restart_sampler a) \<le> 10"
    using c by (auto simp: restart_sampler_def Let_def)
  show "\<exists>v g. restart_sampler a = a\<lparr>ap_interval := v, ap_sampling := g\<rparr>"
  proof (cases "restart_sampler a = a")
    case True
    then have "restart_sampler a = a\<lparr>ap_interval := ap_interval a, ap_sampling := ap_sampling a\<rparr>" by simp
    then show ?thesis by blast
  next
    case False
    then have "restart_sampler a = a\<lparr>ap_interval := clamp (guint_param (ap_params a) ''SampleInterval'') 1 10, ap_sampling := True\<rparr>"
      by (simp add: restart_sampler_def Let_def split: if_splits)
    then show ?thesis by blast
  qed
qed

lemma apply_all_eq: obtains m x v g outs where
    "apply_all_settings e a = a\<lparr>ap_interval := v, ap_sampling := g, ap_mqtt := m, ap_outputs := outs, ap_influx := x\<rparr>"
    "g" "1 \<le> v" "v \<le> 10" "config_inv (mq_config m) (ix_config x)" "ix_queue x = ix_queue (ap_influx a)"
proof -
  obtain v g where 1: "restart_sampler a = a\<lparr>ap_interval := v, ap_sampling := g\<rparr>" using restart_sampler_ok(4) by blast
  let ?a1 = "a\<lparr>ap_interval := v, ap_sampling := g\<rparr>" and ?mc = "mqtt_settings (ap_params a) (api_device (ap_api a))"
  obtain m outs where 2: "mqtt_apply (the_api ?a1) (ev_mqtt_create e) ?mc (ap_mqtt a) = (m, outs)" by force
  let ?x = "influx_apply (influx_settings (ap_params a)) (ap_influx a)"
  have x: "ix_queue ?x = ix_queue (ap_influx a)" "ix_config ?x = influx_settings (ap_params a)"
    by (rule apply_fields) (simp add: influx_apply_def Let_def)
  have "mq_config m = ?mc" using mqtt_apply_config [of "the_api ?a1" "ev_mqtt_create e" ?mc "ap_mqtt a"] 2 by simp
  then have c: "config_inv (mq_config m) (ix_config ?x)" using config_inv_settings x(2) by simp
  have "apply_all_settings e a = a\<lparr>ap_interval := v, ap_sampling := g, ap_mqtt := m,
      ap_outputs := ap_outputs a @ map OfMqtt outs, ap_influx := ?x\<rparr>"
    using 2 by (simp add: apply_all_settings_def 1 apply_mqtt_settings_def apply_influx_settings_def emit_def)
  then show thesis by (rule that) (use restart_sampler_ok(1-3) [of a] 1 c x(1) in simp_all)
qed

lemma apply_all_ok:
  assumes "base_inv a"
  shows "base_inv (apply_all_settings e a)" "settings_inv (apply_all_settings e a)"
    "places (apply_all_settings e a) = places a" "ap_api (apply_all_settings e a) = ap_api a"
    "ap_retry (apply_all_settings e a) = ap_retry a" "ap_retry_sources (apply_all_settings e a) = ap_retry_sources a"
proof -
  obtain m x v g outs where
    1: "apply_all_settings e a = a\<lparr>ap_interval := v, ap_sampling := g, ap_mqtt := m, ap_outputs := outs, ap_influx := x\<rparr>"
    "g" "1 \<le> v" "v \<le> 10" "config_inv (mq_config m) (ix_config x)" "ix_queue x = ix_queue (ap_influx a)"
    by (rule apply_all_eq)
  show "base_inv (apply_all_settings e a)" using assms 1(6) by (simp add: 1(1) base_inv_def)
  show "settings_inv (apply_all_settings e a)" using 1(2-5) by (simp add: 1(1) settings_inv_def)
  show "places (apply_all_settings e a) = places a" "ap_api (apply_all_settings e a) = ap_api a"
    "ap_retry (apply_all_settings e a) = ap_retry a" "ap_retry_sources (apply_all_settings e a) = ap_retry_sources a"
    by (simp_all add: 1(1) places_def)
qed

section \<open>A tick\<close>

lemma tier_sample_files:
  assumes a: "base_inv a" and c: "fst call < STORE_TIERS" "unat (reg_count (ap_registry a)) \<le> length (fst (snd call))"
  obtains ps ds where "on_tier_sample call a = Some (a\<lparr>ap_persists := ps, ap_disks := ds\<rparr>)"
    "base_inv (a\<lparr>ap_persists := ps, ap_disks := ds\<rparr>)" "places (a\<lparr>ap_persists := ps, ap_disks := ds\<rparr>) = places a"
proof -
  obtain i vs ts where call: "call = (i, vs, ts)" by (cases call) auto
  have f: "files_inv (ap_registry a) (ap_store a) (ap_persists a)" and i: "i < length (ap_persists a)" "i < STORE_TIERS"
    using a c(1) call by (simp_all add: base_inv_def files_inv_def)
  show thesis
  proof (cases "ap_persists a ! i")
    case None
    then have "on_tier_sample call a = Some (a\<lparr>ap_persists := ap_persists a, ap_disks := ap_disks a\<rparr>)"
      using i by (simp add: on_tier_sample_def call arr_simps)
    then show thesis by (rule that) (use a in simp_all)
  next
    case (Some q)
    have q: "usable (ap_registry a) q" "callbacks (ap_store a) ! i = Some i" using f i(2) Some by (force simp: files_inv_def slot_ok_def)+
    obtain q' d' where 1: "persist_append (Some q) (ap_disks a (pr_path q)) vs ts = Some (Some q', d')"
      "usable (ap_registry a) q'" "pr_path q' = pr_path q"
      using usable_append [OF q(1)] c(2) call by force
    let ?ps = "(ap_persists a)[i := Some q']" and ?ds = "(ap_disks a)(pr_path q := d')"
    have "on_tier_sample call a = Some (a\<lparr>ap_persists := ?ps, ap_disks := ?ds\<rparr>)"
      using i Some 1(1) by (simp add: on_tier_sample_def call arr_simps)
    moreover have cb: "callbacks (ap_store a) = (callbacks (ap_store a))[i := Some i]"
      using q(2) list_update_id [of "callbacks (ap_store a)" i] by simp
    have "files_inv (ap_registry a) (ap_store a) ?ps"
      by (rule files_inv_update [OF f cb]) (use a 1(2) in \<open>simp_all add: slot_ok_def base_inv_def length_callbacks\<close>)
    then have "base_inv (a\<lparr>ap_persists := ?ps, ap_disks := ?ds\<rparr>)" using a by (simp add: base_inv_def)
    moreover have "places (a\<lparr>ap_persists := ?ps, ap_disks := ?ds\<rparr>) = places a"
      using i(1) Some 1(3) by (simp add: places_def map_update list_update_same_conv)
    ultimately show thesis by (rule that)
  qed
qed

lemma tier_samples_files:
  assumes "base_inv a" "list_all (\<lambda>call. fst call < STORE_TIERS \<and> unat (reg_count (ap_registry a)) \<le> length (fst (snd call))) calls"
  shows "\<exists>ps ds. on_tier_samples calls a = Some (a\<lparr>ap_persists := ps, ap_disks := ds\<rparr>)
    \<and> base_inv (a\<lparr>ap_persists := ps, ap_disks := ds\<rparr>) \<and> places (a\<lparr>ap_persists := ps, ap_disks := ds\<rparr>) = places a"
  using assms
proof (induction calls arbitrary: a)
  case Nil
  then have "on_tier_samples [] a = Some (a\<lparr>ap_persists := ap_persists a, ap_disks := ap_disks a\<rparr>)" by simp
  then show ?case using Nil.prems(1) by (intro exI conjI) (assumption, simp_all)
next
  case (Cons call calls)
  obtain ps ds where 1: "on_tier_sample call a = Some (a\<lparr>ap_persists := ps, ap_disks := ds\<rparr>)"
    "base_inv (a\<lparr>ap_persists := ps, ap_disks := ds\<rparr>)" "places (a\<lparr>ap_persists := ps, ap_disks := ds\<rparr>) = places a"
    by (rule tier_sample_files [OF Cons.prems(1), of call]) (use Cons.prems(2) in simp_all)
  from Cons.IH [OF 1(2)] Cons.prems(2) 1 show ?case by simp
qed

lemma evaluate_total:
  assumes "reg_inv r" "reg_count r = n" "unat n \<le> length vs"
  shows "\<exists>rs' outs. evaluate_rules r ev nt now vs rs = Some (rs', outs)"
proof -
  have "\<exists>rule' outs. evaluate_rule r ev nt now vs rule = Some (rule', outs)" for rule
  proof (cases "watched r rule")
    case True
    have "wide r rule vs" unfolding wide_def using find_less_count [OF assms(1,2), of "ar_metric rule"] assms(3)
      by linarith
    from evaluate_rule_ok [OF True this] show ?thesis by metis
  next
    case False
    then show ?thesis by (auto simp: evaluate_rule_def watched_def Let_def)
  qed
  then show ?thesis by (induction rs) (simp, metis (no_types, lifting) evaluate_rules.simps(2) bind.bind_lunit case_prod_conv)
qed

lemma alerts_evaluate_ok:
  assumes "reg_inv r" "unat (reg_count r) \<le> length vs" "rules_inv (al_rules al)"
  obtains al' outs where "alerts_evaluate r al now vs = Some (al', outs)" "rules_inv (al_rules al')"
proof -
  obtain rs outs where 1: "evaluate_rules r (al_events al) (al_notify al) now vs (al_rules al) = Some (rs, outs)"
    using evaluate_total [OF assms(1) refl assms(2)] by blast
  have "rules_inv rs" by (rule rules_inv_settings [OF assms(3) evaluate_rules_settings [OF 1]])
  with 1 that show thesis by (simp add: alerts_evaluate_def)
qed

lemma influx_tick_ok:
  assumes "api_inv a" "QUIT \<notin> set (ix_queue x)"
  obtains x' where "influx_tick fmt a now x = Some x'" "QUIT \<notin> set (ix_queue x')" "ix_config x' = ix_config x"
proof -
  have "\<exists>p. build_payload fmt a y = Some p" for y
    using latest_values_known [OF assms(1)] by (auto simp: build_payload_def Let_def split: option.splits)
  then obtain p where "build_payload fmt a (x\<lparr>ix_last_write := now, ix_queue := [], ix_freed := rev (payloads (ix_queue x)) @ ix_freed x\<rparr>) = Some p"
    by blast
  with assms(2) that show thesis by (cases "influx_due now x"; cases p) (auto simp: influx_tick_def Let_def)
qed

lemma mqtt_tick_ok:
  assumes "api_inv a"
  obtains m' outs where "mqtt_tick fmt a now m = Some (m', outs)" "mq_config m' = mq_config m"
proof -
  have "\<exists>m' outs. mqtt_tick fmt a now m = Some (m', outs) \<and> mq_config m' = mq_config m"
    by (simp add: mqtt_tick_def Let_def transmitted_json_tree [OF assms])
  with that show thesis by blast
qed

lemma procs_tick_ok:
  assumes "\<forall>path. read_stat (get path) \<noteq> None"
  obtains ps' where "procs_tick dir get now (Some ps) = Some (Some ps')"
proof -
  have "\<exists>rs. read_names get names = Some rs" for names
  proof (induction names)
    case (Cons x names)
    have "read_stat (get (stat_path (atoi x))) \<noteq> None" using assms by blast
    then show ?case using Cons by (auto split: option.split)
  qed simp
  then have total: "\<exists>T'. scan_names get ps' el names T = Some T'" for ps' el names T by (simp add: scan_names_read)
  have "\<exists>ps'. scan dir get el p = Some ps'" for el p
  proof (cases dir)
    case (Some names)
    obtain T' where "scan_names get p el names (map (\<lambda>p. p\<lparr>pr_seen := False\<rparr>) (ps_entries p)) = Some T'" using total by blast
    then show ?thesis by (simp add: scan_def Some Let_def)
  qed (simp add: scan_def)
  with that show thesis by (cases "ps_last_scan ps \<noteq> 0 \<and> now - ps_last_scan ps < int PROCS_INTERVAL_S * 1000000")
    (auto simp: procs_tick_def Let_def)
qed

text \<open>The first half of a tick: the sample, its place in the store and the files, and the alerts.\<close>

lemma sample_half_ok:
  assumes a: "base_inv a" and e: "tame e"
  obtains c buffer s calls ps ds al outs where
    "collector_sample (ev_world e) (ev_mono e) (ap_registry a) (ap_collector a) (ap_buffer a) = Some (c, buffer)"
    "store_push (ap_store a) buffer (ev_time e) = Some (s, calls)"
    "on_tier_samples calls (a\<lparr>ap_collector := c, ap_buffer := buffer, ap_store := s\<rparr>)
      = Some (a\<lparr>ap_collector := c, ap_buffer := buffer, ap_store := s, ap_persists := ps, ap_disks := ds\<rparr>)"
    "alerts_evaluate (ap_registry a) (ap_alerts a) (ev_time e) buffer = Some (al, outs)"
    "base_inv (a\<lparr>ap_collector := c, ap_buffer := buffer, ap_store := s, ap_persists := ps, ap_disks := ds, ap_alerts := al\<rparr>)"
    "map (map_option pr_path) ps = places a" "st_has_latest s" "st_latest s = buffer" "st_latest_ts s = ev_time e"
proof -
  let ?r = "ap_registry a"
  have inv: "collector_inv ?r (ap_collector a)" "reg_inv ?r" "store_inv (ap_store a)" "st_n_metrics (ap_store a) = reg_count ?r"
    "length (ap_buffer a) = unat (reg_count ?r)" "rules_inv (al_rules (ap_alerts a))" using a by (simp_all add: base_inv_def)
  obtain c buffer where 1: "collector_sample (ev_world e) (ev_mono e) ?r (ap_collector a) (ap_buffer a) = Some (c, buffer)"
    "collector_inv ?r c" "length buffer = unat (reg_count ?r)"
    using collector_sample_ok [OF inv(1), of "ap_buffer a" "ev_world e" "ev_mono e"] inv(5) e by (auto simp: tame_def)
  have wide: "unat (reg_count ?r) \<le> length buffer" using 1(3) by simp
  have n: "unat (st_n_metrics (ap_store a)) \<le> length buffer" using 1(3) inv(4) by simp
  obtain s calls where 2: "store_push (ap_store a) buffer (ev_time e) = Some (s, calls)" "store_inv s"
    "st_registry s = st_registry (ap_store a)" "st_n_metrics s = st_n_metrics (ap_store a)" "callbacks s = callbacks (ap_store a)"
    "list_all (call_ok (callbacks (ap_store a)) (unat (st_n_metrics (ap_store a)))) calls" by (rule push_calls [OF inv(3) n])
  have latest: "st_has_latest s" "st_latest s = buffer" "st_latest_ts s = ev_time e"
    using store_push_ok [OF inv(3) n, of "ev_time e"] 2(1) 1(3) inv(4) by (metis option.inject prod.inject take_all order_refl)+
  let ?b = "a\<lparr>ap_collector := c, ap_buffer := buffer, ap_store := s\<rparr>"
  have b: "base_inv ?b" using a 1(2,3) 2(2-5) by (simp add: base_inv_def files_inv_def)
  have f: "files_inv ?r (ap_store a) (ap_persists a)" using a by (simp add: base_inv_def)
  have "Some i \<in> set (callbacks (ap_store a)) \<Longrightarrow> i < STORE_TIERS" for i
    using f length_callbacks [OF inv(3)] by (auto simp: files_inv_def slot_ok_def in_set_conv_nth split: option.splits)
  then have "list_all (\<lambda>call. fst call < STORE_TIERS \<and> unat (reg_count (ap_registry ?b)) \<le> length (fst (snd call))) calls"
    using 2(6) inv(4) by (auto simp: list_all_iff call_ok_def)
  from tier_samples_files [OF b this] obtain ps ds where 3: "on_tier_samples calls ?b = Some (?b\<lparr>ap_persists := ps, ap_disks := ds\<rparr>)"
    "base_inv (?b\<lparr>ap_persists := ps, ap_disks := ds\<rparr>)" "places (?b\<lparr>ap_persists := ps, ap_disks := ds\<rparr>) = places ?b" by blast
  obtain al outs where 4: "alerts_evaluate ?r (ap_alerts a) (ev_time e) buffer = Some (al, outs)" "rules_inv (al_rules al)"
    by (rule alerts_evaluate_ok [OF inv(2) wide inv(6)])
  show thesis
  proof (rule that [OF 1(1) 2(1) 3(1) 4(1)])
    show "base_inv (?b\<lparr>ap_persists := ps, ap_disks := ds, ap_alerts := al\<rparr>)" using 3(2) 4(2) by (simp add: base_inv_def)
    show "map (map_option pr_path) ps = places a" using 3(3) by (simp add: places_def)
  qed (rule latest)+
qed

lemma publish_tick_ok:
  assumes a: "base_inv a" and e: "tame e"
  obtains m outs x p ms xs where "publish_tick lib e a = Some (emit (map OfMqtt outs) (a\<lparr>ap_mqtt := m, ap_influx := x, ap_procs := p,
      ap_api := (ap_api a)\<lparr>api_mqtt_status := ms, api_influx_status := xs\<rparr>\<rparr>))"
    "base_inv (a\<lparr>ap_mqtt := m, ap_influx := x, ap_procs := p\<rparr>)"
    "mq_config m = mq_config (ap_mqtt a)" "ix_config x = ix_config (ap_influx a)"
proof -
  obtain m outs where 1: "mqtt_tick (lib_fmt lib) (the_api a) (ev_mono e div 1000000) (ap_mqtt a) = Some (m, outs)"
    "mq_config m = mq_config (ap_mqtt a)" by (rule mqtt_tick_ok [OF base_api_inv [OF a]])
  have q: "QUIT \<notin> set (ix_queue (ap_influx a))" using a by (simp add: base_inv_def)
  obtain x where 2: "influx_tick (lib_fmt lib) (the_api a) (ev_mono e div 1000000) (ap_influx a) = Some x" "QUIT \<notin> set (ix_queue x)"
    "ix_config x = ix_config (ap_influx a)" by (rule influx_tick_ok [OF base_api_inv [OF a] q])
  obtain ps where "ap_procs a = Some ps" using a by (auto simp: base_inv_def)
  moreover from e have "\<forall>path. read_stat (ev_proc_stat e path) \<noteq> None" by (simp add: tame_def)
  ultimately obtain ps' where 3: "procs_tick (ev_proc_dir e) (ev_proc_stat e) (ev_mono e) (ap_procs a) = Some (Some ps')"
    using procs_tick_ok by metis
  have "publish_tick lib e a = Some (emit (map OfMqtt outs) (a\<lparr>ap_mqtt := m, ap_influx := x, ap_procs := Some ps',
      ap_api := (ap_api a)\<lparr>api_mqtt_status := strlcpy 16 (mqtt_state m), api_influx_status := strlcpy 16 (influx_state (Some x))\<rparr>\<rparr>))"
    using 1 2 3 by (simp add: publish_tick_def)
  moreover have "base_inv (a\<lparr>ap_mqtt := m, ap_influx := x, ap_procs := Some ps'\<rparr>)" using a 2(2) by (simp add: base_inv_def)
  ultimately show thesis by (rule that) (fact 1(2) 2(3))+
qed

lemma broadcast_ok:
  assumes "base_inv a"
  obtains cl where "broadcast_current lib e a = Some (a\<lparr>ap_clients := cl\<rparr>)"
proof (cases "ap_clients a = []")
  case True
  then have "broadcast_current lib e a = Some (a\<lparr>ap_clients := ap_clients a\<rparr>)" by (simp add: broadcast_current_def)
  then show thesis by (rule that)
next
  case False
  then show thesis using that current_json_tree [OF base_api_inv [OF assms]] by (simp add: broadcast_current_def)
qed

lemma tick_ok:
  assumes "running_inv a" "tame e"
  obtains a' where "on_sample_tick lib e a = Some a'" "running_inv a'" "st_has_latest (ap_store a')"
    "st_latest (ap_store a') = ap_buffer a'" "st_latest_ts (ap_store a') = ev_time e" "ap_registry a' = ap_registry a"
proof -
  have b: "base_inv a" using assms(1) by (simp add: running_inv_def core_inv_def)
  obtain c buffer s calls ps ds al outs where
    1: "collector_sample (ev_world e) (ev_mono e) (ap_registry a) (ap_collector a) (ap_buffer a) = Some (c, buffer)"
      "store_push (ap_store a) buffer (ev_time e) = Some (s, calls)"
      "on_tier_samples calls (a\<lparr>ap_collector := c, ap_buffer := buffer, ap_store := s\<rparr>)
        = Some (a\<lparr>ap_collector := c, ap_buffer := buffer, ap_store := s, ap_persists := ps, ap_disks := ds\<rparr>)"
      "alerts_evaluate (ap_registry a) (ap_alerts a) (ev_time e) buffer = Some (al, outs)"
      "base_inv (a\<lparr>ap_collector := c, ap_buffer := buffer, ap_store := s, ap_persists := ps, ap_disks := ds, ap_alerts := al\<rparr>)"
      "map (map_option pr_path) ps = places a" "st_has_latest s" "st_latest s = buffer" "st_latest_ts s = ev_time e"
    by (rule sample_half_ok [OF b assms(2)])
  let ?a1 = "a\<lparr>ap_collector := c, ap_buffer := buffer, ap_store := s, ap_persists := ps, ap_disks := ds, ap_alerts := al\<rparr>"
  let ?a2 = "emit (alert_outputs lib (ap_mqtt a) outs) ?a1"
  have "base_inv ?a2" using 1(5) by simp
  then obtain cl where 2: "broadcast_current lib e ?a2 = Some (?a2\<lparr>ap_clients := cl\<rparr>)" by (rule broadcast_ok)
  have "base_inv (?a2\<lparr>ap_clients := cl\<rparr>)" using 1(5) by simp
  then obtain m outs2 x p ms xs where 3: "publish_tick lib e (?a2\<lparr>ap_clients := cl\<rparr>)
      = Some (emit (map OfMqtt outs2) (?a2\<lparr>ap_clients := cl, ap_mqtt := m, ap_influx := x, ap_procs := p,
          ap_api := (ap_api (?a2\<lparr>ap_clients := cl\<rparr>))\<lparr>api_mqtt_status := ms, api_influx_status := xs\<rparr>\<rparr>))"
      "base_inv (?a2\<lparr>ap_clients := cl, ap_mqtt := m, ap_influx := x, ap_procs := p\<rparr>)"
      "mq_config m = mq_config (ap_mqtt (?a2\<lparr>ap_clients := cl\<rparr>))" "ix_config x = ix_config (ap_influx (?a2\<lparr>ap_clients := cl\<rparr>))"
    by (rule publish_tick_ok [OF _ assms(2)])
  let ?a3 = "emit (map OfMqtt outs2) (?a2\<lparr>ap_clients := cl, ap_mqtt := m, ap_influx := x, ap_procs := p,
          ap_api := (ap_api (?a2\<lparr>ap_clients := cl\<rparr>))\<lparr>api_mqtt_status := ms, api_influx_status := xs\<rparr>\<rparr>)"
  have "on_sample_tick lib e a = Some ?a3"
    using 1(1-4) 2 3(1) by (simp add: on_sample_tick_def)
  moreover have "running_inv ?a3"
  proof (rule running_cong [OF assms(1)])
    show "base_inv ?a3" using 3(2) by simp
    show "settings_inv ?a3" using assms(1) 3(3,4) by (simp add: running_inv_def settings_inv_def emit_def)
  qed (use 1(6) in \<open>simp_all add: emit_def places_def\<close>)
  ultimately show thesis by (rule that) (use 1(7-9) in \<open>simp_all add: emit_def\<close>)
qed

section \<open>Start, retry and settings\<close>

lemma running_upto: "running_inv a \<Longrightarrow> open_upto STORE_TIERS a \<longrightarrow> \<not> ap_retry a"
  using open_upto_last [of STORE_TIERS a] open_upto_last [of 0 a] by (auto simp: running_inv_def timer_inv_def STORE_TIERS_def)

lemma kept_settings: "kept a' = kept a \<Longrightarrow> settings_inv a' = settings_inv a"
  by (simp add: kept_def settings_inv_def)

lemma retry_ok:
  assumes a: "running_inv a" "ap_retry_sources a \<noteq> 0" and "settled es k"
  obtains a' where "on_retry_timer es a = Some a'" "running_inv a'"
proof -
  have c: "core_inv a" using a(1) by (simp add: running_inv_def)
  have one: "ap_retry a" "ap_retry_sources a = 1" using a by (auto simp: running_inv_def timer_inv_def split: if_splits)
  obtain again a1 where 1: "try_open_persistence es 0 a = Some (again, a1)" "tried again a a1"
    using try_open_ok [OF c running_upto [OF a(1)] _ assms(3), of 0] by auto
  have s: "settings_inv a1" using kept_settings [of a1 a] 1(2) a(1) by (simp add: tried_def running_inv_def)
  show thesis
  proof (cases again)
    case True
    then have "running_inv a1" using 1(2) one s by (simp add: running_inv_def timer_inv_def tried_def)
    with 1(1) True that show thesis by (simp add: on_retry_timer_def)
  next
    case False
    let ?a' = "a1\<lparr>ap_retry_sources := ap_retry_sources a1 - 1\<rparr>"
    have "core_inv ?a'" "open_upto 0 ?a' = open_upto 0 a1" "settings_inv ?a'" using 1(2) s
      by (simp_all add: tried_def core_inv_def open_upto_def path_inv_def settings_inv_def)
    then have "running_inv ?a'" using 1(2) one False by (simp add: running_inv_def timer_inv_def tried_def)
    with 1(1) False that show thesis by (simp add: on_retry_timer_def)
  qed
qed

lemma app_new_ok:
  obtains a where "app_new e get selected device procs version disks = Some a" "core_inv a" "open_upto 0 a" "\<not> ap_retry a"
    "ap_retry_sources a = 0" "ap_params a = load_parameters get" "\<not> collector_mounts_changed (ev_world e) (ap_collector a)"
proof -
  let ?ps = "load_parameters get" and ?i = "clamp (guint_param (load_parameters get) ''SampleInterval'') 1 10"
  obtain r c where 1: "collector_new (ev_world e) metrics_registry_init = Some (r, c)" "reg_ok 697 r" "collector_inv r c"
    "\<not> collector_mounts_changed (ev_world e) c" by (rule collector_new_ok)
  obtain s c0 c1 c2 where 2: "store_new r ?i (total_memory_bytes (ev_world e)) = Some s" "store_inv s"
    "st_registry s = r" "st_n_metrics s = reg_count r"
    "st_tiers s = [new_tier (reg_count r) 0 (max 1 ?i) c0, new_tier (reg_count r) 1 15 c1, new_tier (reg_count r) 2 300 c2]"
    by (rule store_new_ok)
  obtain al outs where 3: "alerts_new r (ev_events e) (ev_declare e) (ev_rules e) = (al, outs)" by force
  have al: "rules_inv (al_rules al)" using alerts_new_inv [of r "ev_events e" "ev_declare e" "ev_rules e"] 3 by simp
  have "callbacks s = [None, None, None]" by (simp add: callbacks_def 2(5) new_tier_def)
  then have f: "files_inv r s (replicate STORE_TIERS None)"
    by (auto simp: files_inv_def slot_ok_def STORE_TIERS_def less_Suc_eq eval_nat_numeral)
  obtain a where a: "app_new e get selected device procs version disks = Some a" using 1(1) 2(1) 3 by (simp add: app_new_def Let_def)
  then have eq: "ap_registry a = r" "ap_collector a = c" "ap_store a = s" "ap_persists a = replicate STORE_TIERS None"
    "ap_influx a = influx_new" "ap_procs a = Some procs" "ap_alerts a = alerts_set_notify al True" "ap_buffer a = replicate (unat (reg_count r)) 0"
    "api_persist_path (ap_api a) = None" "\<not> ap_retry a" "ap_retry_sources a = 0" "ap_params a = ?ps"
    using 1(1) 2(1) 3 by (auto simp: app_new_def Let_def)
  have "base_inv a" using 1 2 al f by (simp add: base_inv_def eq reg_ok_def alerts_set_notify_def influx_new_def)
  moreover have "open_upto 0 a" "path_inv a" by (simp_all add: open_upto_def path_inv_def eq persist_path_def STORE_TIERS_def)
  ultimately show thesis using that [OF a] eq(2,10-12) 1(4) by (simp add: core_inv_def)
qed

lemma app_start_open:
  assumes a: "core_inv a" "open_upto 0 a" "\<not> ap_retry a" "ap_retry_sources a = 0" and e: "settled es k"
  obtains again a1 where "try_open_persistence es 0 (apply_all_settings e a) = Some (again, a1)" "core_inv (apply_all_settings e a)"
    "running_inv (if again then a1\<lparr>ap_retry := True, ap_retry_sources := ap_retry_sources a1 + 1\<rparr> else a1)"
proof -
  let ?b = "apply_all_settings e a"
  have base: "base_inv a" using a(1) by (simp add: core_inv_def)
  note s = apply_all_ok [OF base, of e]
  have c: "core_inv ?b" by (rule core_inv_cong(1) [OF a(1) s(1,3)]) (simp add: s(4))
  have b: "\<not> ap_retry ?b" "ap_retry_sources ?b = 0" using a(3,4) s(5,6) by simp_all
  then obtain again a1 where 1: "try_open_persistence es 0 ?b = Some (again, a1)" "tried again ?b a1"
    using try_open_ok [OF c _ _ e, of 0] by auto
  have set: "settings_inv a1" using kept_settings [of a1 ?b] 1(2) s(2) by (simp add: tried_def)
  let ?a2 = "if again then a1\<lparr>ap_retry := True, ap_retry_sources := ap_retry_sources a1 + 1\<rparr> else a1"
  have "core_inv ?a2" "settings_inv ?a2" "open_upto 0 ?a2 = open_upto 0 a1"
    using 1(2) set by (simp_all add: tried_def core_inv_def open_upto_def path_inv_def settings_inv_def)
  moreover have "timer_inv ?a2" using 1(2) b calculation(3) by (simp add: tried_def timer_inv_def)
  ultimately have "running_inv ?a2" by (simp add: running_inv_def)
  with 1(1) c show thesis by (rule that)
qed

lemma app_start_ok:
  assumes a: "core_inv a" "open_upto 0 a" "\<not> ap_retry a" "ap_retry_sources a = 0" and e: "tame e" "settled es k"
  obtains a' where "app_start lib e es a = Some a'" "running_inv a'" "st_latest_ts (ap_store a') = ev_time e"
proof -
  obtain again a1 where 1: "try_open_persistence es 0 (apply_all_settings e a) = Some (again, a1)"
    "running_inv (if again then a1\<lparr>ap_retry := True, ap_retry_sources := ap_retry_sources a1 + 1\<rparr> else a1)"
    by (rule app_start_open [OF a e(2)])
  obtain a' where "on_sample_tick lib e (if again then a1\<lparr>ap_retry := True, ap_retry_sources := ap_retry_sources a1 + 1\<rparr> else a1) = Some a'"
    "running_inv a'" "st_latest_ts (ap_store a') = ev_time e"
    by (rule tick_ok [OF 1(2) e(1)])
  with 1(1) that show thesis by (simp add: app_start_def)
qed

lemma running_apply_all: "running_inv a \<Longrightarrow> running_inv (apply_all_settings e a)"
proof -
  assume a: "running_inv a"
  then have "base_inv a" by (simp add: running_inv_def core_inv_def)
  note s = apply_all_ok [OF this, of e]
  show ?thesis by (rule running_cong [OF a s(1,3) _ s(5,6,2)]) (simp add: s(4))
qed

lemma running_params [simp]: "running_inv (a\<lparr>ap_params := ps\<rparr>) = running_inv a"
  by (simp add: running_inv_def core_inv_def timer_inv_def settings_inv_def open_upto_def path_inv_def)

lemma running_clients [simp]: "running_inv (a\<lparr>ap_clients := cl\<rparr>) = running_inv a"
  by (simp add: running_inv_def core_inv_def timer_inv_def settings_inv_def open_upto_def path_inv_def)

lemma running_emit [simp]: "running_inv (emit outs a) = running_inv a"
  by (simp add: emit_def running_inv_def core_inv_def timer_inv_def settings_inv_def open_upto_def path_inv_def)

lemma running_selection [simp]: "running_inv (a\<lparr>ap_api := (ap_api a)\<lparr>api_selection := sel\<rparr>\<rparr>) = running_inv a"
  by (simp add: running_inv_def core_inv_def timer_inv_def settings_inv_def open_upto_def path_inv_def)

lemma parameter_changed_ok: "running_inv a \<Longrightarrow> running_inv (on_parameter_changed e name val a)"
  by (simp add: on_parameter_changed_def running_apply_all split: option.split)

section \<open>Requests\<close>

text \<open>The rule id of a request fits the field of the rule.\<close>

definition short_id :: "string \<Rightarrow> bool" where
  "short_id body \<longleftrightarrow> (case api_query_param (Some body) ''id'' of None \<Rightarrow> True | Some key \<Rightarrow> length key < RULE_ID_SIZE)"

lemma alerts_apply_total:
  assumes "short_id body"
  shows "alerts_apply strtod declare alerts body \<noteq> None"
proof (cases "api_query_param (Some body) ''id''")
  case (Some key)
  with assms have k: "length key < RULE_ID_SIZE" by (simp add: short_id_def)
  show ?thesis
  proof (cases "find_rule (al_rules alerts) key")
    case None
    show ?thesis
    proof (cases "length (al_rules alerts) < MAX_RULES")
      case True
      note add_fresh_rule [OF None k True]
      then show ?thesis using Some None by (auto simp: alerts_apply_def Let_def split: option.split prod.split)
    next
      case False
      then have "add_rule (al_rules alerts) r = (al_rules alerts, False)" for r by (simp add: add_rule_def)
      then show ?thesis using Some None by (auto simp: alerts_apply_def Let_def split: option.split)
    qed
  next
    case (Some i)
    then show ?thesis using \<open>api_query_param (Some body) ''id'' = Some key\<close>
      by (auto simp: alerts_apply_def Let_def split: option.split prod.split)
  qed
qed (auto simp: alerts_apply_def split: option.split)

lemma post_rules_ok:
  assumes "running_inv a" "short_id body"
  obtains a' where "post_rules lib e body a = Some a'" "running_inv a'"
proof -
  obtain changed al outs where 1: "alerts_apply (lib_strtod lib) (ev_declare e) (ap_alerts a) body = Some (changed, al, outs)"
    using alerts_apply_total [OF assms(2)] by (metis not_None_eq prod_cases3)
  have b: "base_inv a" using assms(1) by (simp add: running_inv_def core_inv_def)
  have "rules_inv (al_rules al)" using alerts_apply_inv [OF _ 1] b by (simp add: base_inv_def)
  then have "base_inv (a\<lparr>ap_alerts := al\<rparr>)" using b by (simp add: base_inv_def)
  moreover have "settings_inv (a\<lparr>ap_alerts := al\<rparr>)" using assms(1) by (simp add: running_inv_def settings_inv_def)
  ultimately have "running_inv (a\<lparr>ap_alerts := al\<rparr>)" by (intro running_cong [OF assms(1)]) (simp_all add: places_def)
  with 1 that show thesis by (simp add: post_rules_def)
qed

lemma post_settings_ok: "running_inv a \<Longrightarrow> running_inv (post_settings e body a)"
  by (simp add: post_settings_def Let_def running_apply_all split: prod.split)

lemma post_metrics_ok: "running_inv a \<Longrightarrow> running_inv (post_metrics lib body a)"
  by (simp add: post_metrics_def Let_def split: option.split prod.split)

lemma documents_total:
  assumes "api_inv a"
  obtains m c t h p where "api_meta_json a = Some m" "api_current_json fmt a = Some c" "api_series_json fmt now a q = Some t"
    "api_health_json now a = Some h" "api_prometheus_text fmt a = Some p"
proof -
  have "\<exists>h. api_health_json now a = Some h" using api_inv_tiers [OF assms, of 0] by (simp add: api_health_json_def)
  moreover have "\<exists>p. api_prometheus_text fmt a = Some p" using latest_values_known [OF assms] by (simp add: api_prometheus_text_def)
  ultimately show thesis
    using that [OF meta_json_tree [OF assms] current_json_tree [OF assms] series_json_tree [OF assms]] by blast
qed

text \<open>The three kinds of answer: a document, a stream, or a change with its answer.\<close>

lemma handle_request_ok:
  assumes a: "running_inv a" and id: "short_id body"
  shows "\<exists>r a'. handle_request lib e conn hw verb path body read_only a = Some (r, a') \<and> running_inv a'"
proof -
  have b: "base_inv a" using a by (simp add: running_inv_def core_inv_def)
  obtain m c t h p where docs: "api_meta_json (the_api a) = Some m" "api_current_json (lib_fmt lib) (the_api a) = Some c"
    "api_series_json (lib_fmt lib) (ev_time e) (the_api a) (Some path) = Some t"
    "api_health_json (ev_time e) (the_api a) = Some h" "api_prometheus_text (lib_fmt lib) (the_api a) = Some p"
    by (rule documents_total [OF base_api_inv [OF b]])
  obtain ps where ps: "ap_procs a = Some ps" using b by (auto simp: base_inv_def)
  obtain a1 where rules: "post_rules lib e body a = Some a1" "running_inv a1" by (rule post_rules_ok [OF a id])
  show ?thesis
    unfolding handle_request_def Let_def docs ps rules(1)
    using a post_settings_ok [OF a] post_metrics_ok [OF a] rules(2) by simp
qed

section \<open>Runs of the program\<close>

text \<open>
  The operations the event loop runs, and the steps of the threads of paho and of the InfluxDB
  worker, in any order, where the world answers as \<open>ok\<close> says. The storage is looked for while the
  loop holds the timer. Quiet steps leave the history alone.
\<close>

inductive quiet_step :: "library \<Rightarrow> app \<Rightarrow> app \<Rightarrow> bool" for lib where
  Answer: "receive_request chunks = Request verb path body \<Longrightarrow> short_id body
    \<Longrightarrow> on_http_request lib e conn hw chunks read_only a = Some (r, a') \<Longrightarrow> quiet_step lib a a'"
| Parameter: "quiet_step lib a (on_parameter_changed e name val a)"
| Connected: "on_connected (the_api a) (ap_mqtt a) = (m, outs) \<Longrightarrow> quiet_step lib a (emit (map OfMqtt outs) (a\<lparr>ap_mqtt := m\<rparr>))"
| Lost: "quiet_step lib a (a\<lparr>ap_mqtt := on_connection_lost (ap_mqtt a)\<rparr>)"
| Worker: "worker_pop (ap_influx a) = Some x \<or> worker_config (ap_influx a) = Some x \<or> worker_post outcome (ap_influx a) = Some x
    \<Longrightarrow> quiet_step lib a (a\<lparr>ap_influx := x\<rparr>)"

inductive app_step :: "(env \<Rightarrow> bool) \<Rightarrow> library \<Rightarrow> app \<Rightarrow> app \<Rightarrow> bool" for ok lib where
  Tick: "ok e \<Longrightarrow> on_sample_tick lib e a = Some a' \<Longrightarrow> app_step ok lib a a'"
| Retry: "ap_retry_sources a \<noteq> 0 \<Longrightarrow> \<forall>i. ok (es i) \<Longrightarrow> settled es k \<Longrightarrow> on_retry_timer es a = Some a' \<Longrightarrow> app_step ok lib a a'"
| Quiet: "quiet_step lib a a' \<Longrightarrow> app_step ok lib a a'"

text \<open>The runs that start on the files \<open>disks\<close>.\<close>

inductive app_reachable :: "(env \<Rightarrow> bool) \<Rightarrow> (string \<Rightarrow> disk) \<Rightarrow> library \<Rightarrow> app \<Rightarrow> bool" for ok disks lib where
  Start: "app_new e get selected device procs version disks = Some a \<Longrightarrow> ok e \<Longrightarrow> \<forall>i. ok (es i) \<Longrightarrow> settled es k
    \<Longrightarrow> app_start lib e es a = Some a' \<Longrightarrow> app_reachable ok disks lib a'"
| Step: "app_reachable ok disks lib a \<Longrightarrow> app_step ok lib a a' \<Longrightarrow> app_reachable ok disks lib a'"

lemma running_mqtt: "running_inv a \<Longrightarrow> mq_config m = mq_config (ap_mqtt a) \<Longrightarrow> running_inv (a\<lparr>ap_mqtt := m\<rparr>)"
  by (simp add: running_inv_def core_inv_def timer_inv_def settings_inv_def open_upto_def path_inv_def)

lemma running_influx:
  assumes "running_inv a" "set (ix_queue x) \<subseteq> set (ix_queue (ap_influx a))" "ix_config x = ix_config (ap_influx a)"
  shows "running_inv (a\<lparr>ap_influx := x\<rparr>)"
proof (rule running_cong [OF assms(1)])
  show "base_inv (a\<lparr>ap_influx := x\<rparr>)" using assms(1,2) by (auto simp: running_inv_def core_inv_def base_inv_def)
  show "settings_inv (a\<lparr>ap_influx := x\<rparr>)" using assms(1,3) by (simp add: running_inv_def settings_inv_def)
qed (simp_all add: places_def)

lemma worker_keeps:
  assumes "worker_pop x = Some x' \<or> worker_config x = Some x' \<or> worker_post outcome x = Some x'"
  shows "set (ix_queue x') \<subseteq> set (ix_queue x)" "ix_config x' = ix_config x"
  using assms by (auto simp: worker_pop_def worker_config_def worker_post_def write_payload_def set_state_def Let_def
      split: influx_worker.splits list.splits influx_msg.splits if_splits)

lemma quiet_step_running: "quiet_step lib a a' \<Longrightarrow> running_inv a \<Longrightarrow> running_inv a'"
proof (induction rule: quiet_step.induct)
  case (Answer chunks verb path body e conn hw read_only a r a')
  have "on_http_request lib e conn hw chunks read_only a = handle_request lib e conn hw verb path body read_only a"
    using Answer(1) by (simp add: on_http_request_def)
  then show ?case using handle_request_ok [OF Answer(4,2), of lib e conn hw verb path read_only] Answer(3) by auto
next
  case (Connected a m outs)
  have "mq_config (fst (on_connected (the_api a) (ap_mqtt a))) = mq_config (ap_mqtt a)"
    by (simp add: on_connected_def publish_discovery_def Let_def)
  with Connected show ?case by (simp add: running_mqtt)
next
  case (Lost a)
  then show ?case by (rule running_mqtt) (simp add: on_connection_lost_def)
next
  case (Worker a x outcome)
  then show ?case using running_influx worker_keeps [OF Worker(1)] by simp
qed (rule parameter_changed_ok)

lemma app_step_running:
  assumes "app_step ok lib a a'" "running_inv a" "\<And>e. ok e \<Longrightarrow> tame e"
  shows "running_inv a'"
  using assms(1,2)
proof (induction rule: app_step.induct)
  case (Tick e a a')
  then show ?case using tick_ok [of a e lib] assms(3) by (metis option.inject)
next
  case (Retry a es k a')
  then show ?case using retry_ok [of a es k] by (metis option.inject)
qed (rule quiet_step_running)

lemma app_reachable_running:
  assumes "app_reachable ok disks lib a" "\<And>e. ok e \<Longrightarrow> tame e"
  shows "running_inv a"
  using assms(1)
proof (induction rule: app_reachable.induct)
  case (Start e get selected device procs version a es k a')
  obtain b where b: "app_new e get selected device procs version disks = Some b" "core_inv b" "open_upto 0 b" "\<not> ap_retry b"
    "ap_retry_sources b = 0" by (rule app_new_ok)
  from b(1) Start(1) have "b = a" by simp
  with app_start_ok [OF b(2-5) assms(2) [OF Start(2)] Start(4), of lib] Start(5) show ?case by (metis option.inject)
qed (rule app_step_running [OF _ _ assms(2)])

text \<open>What no request changes.\<close>

definition stock :: "app \<Rightarrow> nat \<times> store \<times> metric_registry" where
  "stock a = (ap_retry_sources a, ap_store a, ap_registry a)"

lemma stock_settings: "stock (post_settings e body a) = stock a"
proof -
  have "stock (apply_all_settings e b) = stock b" for b by (rule apply_all_eq [of e b]) (simp add: stock_def)
  moreover have "stock (b\<lparr>ap_params := ps\<rparr>) = stock b" for b ps by (simp add: stock_def)
  ultimately show ?thesis by (simp add: post_settings_def Let_def split: prod.split)
qed

lemma stock_metrics: "stock (post_metrics lib body a) = stock a"
  by (simp add: post_metrics_def emit_def stock_def Let_def split: option.split prod.split)

lemma stock_rules: "post_rules lib e body a = Some a' \<Longrightarrow> stock a' = stock a"
  by (auto simp: post_rules_def emit_def stock_def split: bind_splits)

text \<open>Every branch leaves the state, or one of four changes of it.\<close>

definition leaves :: "(app \<Rightarrow> bool) \<Rightarrow> (reply \<times> app) option \<Rightarrow> bool" where
  "leaves F x \<longleftrightarrow> (case x of None \<Rightarrow> True | Some (r, a') \<Rightarrow> F a')"

lemma leaves_simps: "leaves F (Some (r, a')) = F a'" "leaves F None" "F a \<Longrightarrow> leaves F (map_option (\<lambda>j. (f j, a)) x)"
  by (simp_all add: leaves_def split: option.split)

lemma leaves_if: "(c \<Longrightarrow> leaves F x) \<Longrightarrow> (\<not> c \<Longrightarrow> leaves F y) \<Longrightarrow> leaves F (if c then x else y)"
  by simp

lemma handle_request_leaves:
  assumes "F a" "\<And>cl. F (a\<lparr>ap_clients := cl\<rparr>)"
    and "verb = ''POST'' \<Longrightarrow> F (post_settings e body a)" "verb = ''POST'' \<Longrightarrow> F (post_metrics lib body a)"
      "\<And>a1. verb = ''POST'' \<Longrightarrow> post_rules lib e body a = Some a1 \<Longrightarrow> F a1"
  shows "leaves F (handle_request lib e conn hw verb path body read_only a)"
proof -
  have "leaves F (case ap_procs a of None \<Rightarrow> None | Some ps \<Rightarrow> map_option (\<lambda>j. (json_reply j, a)) (Some (f ps)))" for f
    using assms(1) by (cases "ap_procs a") (simp_all add: leaves_simps)
  moreover have "leaves F (do { a1 \<leftarrow> post_rules lib e body a; Some (f a1, a1) })" if "verb = ''POST''" for f
    using assms(5) [OF that] by (cases "post_rules lib e body a") (simp_all add: leaves_simps)
  ultimately show ?thesis unfolding handle_request_def Let_def
    by (intro leaves_if leaves_simps(3) assms(1)) (auto simp only: leaves_simps(1) assms(1-4))
qed

lemma handle_request_frame:
  assumes "handle_request lib e conn hw verb path body read_only a = Some (r, a')"
  shows "stock a' = stock a"
proof -
  have "leaves (\<lambda>b. stock b = stock a) (handle_request lib e conn hw verb path body read_only a)"
    by (rule handle_request_leaves) (simp_all add: stock_settings stock_metrics stock_rules, simp add: stock_def)
  with assms show ?thesis by (simp add: leaves_def)
qed

text \<open>The read-only port.\<close>

lemma viewer_same: "handle_request lib e conn hw verb path body True a
    = (if verb = ''GET'' \<and> \<not> route_is path ''settings'' then handle_request lib e conn hw ''GET'' path body False a else Some (forbidden, a))"
  by (simp add: handle_request_def Let_def)

lemma viewer_params: "handle_request lib e conn hw verb path body True (a\<lparr>ap_params := ps\<rparr>)
    = map_option (\<lambda>(r, a'). (r, a'\<lparr>ap_params := ps\<rparr>)) (handle_request lib e conn hw verb path body True a)"
  by (simp add: handle_request_def Let_def the_api_def option.map_comp comp_def split: option.split)

lemma viewer_keeps: "leaves (\<lambda>b. \<exists>cl. b = a\<lparr>ap_clients := cl\<rparr>) (handle_request lib e conn hw verb path body True a)"
proof -
  have same: "\<exists>cl. a = a\<lparr>ap_clients := cl\<rparr>" by (rule exI [of _ "ap_clients a"]) simp
  have "leaves (\<lambda>b. \<exists>cl. b = a\<lparr>ap_clients := cl\<rparr>) (handle_request lib e conn hw ''GET'' path body False a)"
    by (rule handle_request_leaves) (use same in auto)
  then show ?thesis unfolding viewer_same using same by (simp add: leaves_simps)
qed

section \<open>A run\<close>

text \<open>A device whose mount table is \<open>mounts\<close>, with nowhere to write a history.\<close>

definition demo_env :: "string \<Rightarrow> env" where
  "demo_env mounts = \<lparr>ev_world = (plain_world [])\<lparr>w_file := (\<lambda>p. if p = ''/proc/mounts'' then Some mounts else None)\<rparr>,
     ev_time = 1000, ev_mono = 1000000, ev_statvfs = (\<lambda>_. None), ev_mkdir = (\<lambda>_. True), ev_open = (\<lambda>_. 3), ev_sized = True,
     ev_rules = None, ev_events = True, ev_declare = (\<lambda>_. Some 1), ev_mqtt_create = True, ev_proc_dir = None,
     ev_proc_stat = (\<lambda>_. None), ev_send = (\<lambda>_. WouldBlock), ev_put = (\<lambda>_ _. True)\<rparr>"

definition demo_library :: library where
  "demo_library = \<lparr>lib_fmt = (\<lambda>_. ''1''), lib_fmt_g = (\<lambda>_. ''1''), lib_strtod = (\<lambda>_. DFin 0), lib_qsort = (\<lambda>_ xs. xs),
     lib_order = (\<lambda>_. [])\<rparr>"

lemma demo_tame: "tame (demo_env mounts)"
  by (simp add: tame_def demo_env_def answers_whole_def plain_world_def read_stat_def)

lemma demo_settled: "settled (\<lambda>_. demo_env mounts) k"
  by (simp add: settled_def)

lemma demo_run:
  obtains a0 a where "app_new (demo_env mounts) (\<lambda>_. None) None no_device demo_procs ''1'' (\<lambda>_. d) = Some a0"
    "app_start demo_library (demo_env mounts) (\<lambda>_. demo_env mounts) a0 = Some a" "app_reachable tame (\<lambda>_. d) demo_library a"
    "st_latest_ts (ap_store a) = 1000"
proof -
  obtain a0 where 1: "app_new (demo_env mounts) (\<lambda>_. None) None no_device demo_procs ''1'' (\<lambda>_. d) = Some a0" "core_inv a0" "open_upto 0 a0"
    "\<not> ap_retry a0" "ap_retry_sources a0 = 0" by (rule app_new_ok)
  obtain a where 2: "app_start demo_library (demo_env mounts) (\<lambda>_. demo_env mounts) a0 = Some a" "running_inv a"
    "st_latest_ts (ap_store a) = ev_time (demo_env mounts)"
    by (rule app_start_ok [OF 1(2-5) demo_tame demo_settled [of _ 0]])
  have "app_reachable tame (\<lambda>_. d) demo_library a"
    by (rule app_reachable.Start [where ok = tame and es = "\<lambda>_. demo_env mounts" and k = 0, OF 1(1) demo_tame _ demo_settled 2(1)])
      (simp add: demo_tame)
  with 1(1) 2(1) show thesis by (rule that) (use 2(3) in \<open>simp add: demo_env_def\<close>)
qed

section \<open>Properties\<close>

text \<open>C4: in every state the program can reach, whatever the order of ticks, retries, requests, changed
  settings and steps of the other threads, the three history files are all open or all closed; the tiers
  write to them, and their place is reported, exactly while they are open; and one timer looks for
  storage exactly while they are closed. The settings in force are in their ranges.\<close>

theorem app_lifecycle:
  assumes "app_reachable tame disks lib a"
  shows "length (ap_persists a) = 3
    \<and> (if ap_persists a ! 2 = None
       then ap_persists a = [None, None, None] \<and> callbacks (ap_store a) = [None, None, None] \<and> api_persist_path (ap_api a) = None
         \<and> ap_retry a \<and> ap_retry_sources a = 1
       else None \<notin> set (ap_persists a) \<and> callbacks (ap_store a) = [Some 0, Some 1, Some 2]
         \<and> api_persist_path (ap_api a) = map_option pr_path (ap_persists a ! 2) \<and> \<not> ap_retry a \<and> ap_retry_sources a = 0)
    \<and> 1 \<le> ap_interval a \<and> ap_interval a \<le> 10 \<and> config_inv (mq_config (ap_mqtt a)) (ix_config (ap_influx a))"
proof -
  have run: "running_inv a" by (rule app_reachable_running [OF assms])
  then have inv: "core_inv a" "timer_inv a" "settings_inv a" by (simp_all add: running_inv_def)
  have f: "files_inv (ap_registry a) (ap_store a) (ap_persists a)" and s: "store_inv (ap_store a)"
    using inv(1) by (simp_all add: core_inv_def base_inv_def)
  from f length_callbacks [OF s] have "length (ap_persists a) = 3" "length (callbacks (ap_store a)) = 3"
    by (simp_all add: files_inv_def STORE_TIERS_def)
  then obtain p0 p1 p2 c0 c1 c2 where eq: "ap_persists a = [p0, p1, p2]" "callbacks (ap_store a) = [c0, c1, c2]"
    by (auto simp: eval_nat_numeral length_Suc_conv)
  have slots: "slot_ok (ap_registry a) 0 p0 c0" "slot_ok (ap_registry a) 1 p1 c1" "slot_ok (ap_registry a) 2 p2 c2"
    using f by (auto simp: files_inv_def eq STORE_TIERS_def less_Suc_eq eval_nat_numeral)
  have up: "open_upto k a = ((p0 \<noteq> None) = (0 < k) \<and> (p1 \<noteq> None) = (1 < k) \<and> (p2 \<noteq> None) = (2 < k))" for k
    by (auto simp: open_upto_def eq STORE_TIERS_def less_Suc_eq eval_nat_numeral)
  have path: "api_persist_path (ap_api a) = map_option pr_path p2"
    using inv(1) by (simp add: core_inv_def path_inv_def eq STORE_TIERS_def persist_path_def)
  have t: "ap_retry a = open_upto 0 a" "ap_retry_sources a = (if ap_retry a then 1 else 0)" using inv(2) by (simp_all add: timer_inv_def)
  have "open_upto 0 a \<or> open_upto 3 a" using inv(1) by (simp add: core_inv_def STORE_TIERS_def)
  then show ?thesis
  proof
    assume "open_upto 0 a"
    then show ?thesis using slots path t inv(3) by (simp add: up eq slot_ok_def settings_inv_def)
  next
    assume "open_upto 3 a"
    then show ?thesis using slots path t inv(3) by (auto simp: up eq slot_ok_def settings_inv_def)
  qed
qed

theorem app_lifecycle_witness:
  "\<exists>a d. app_reachable tame (\<lambda>_. d) demo_library a \<and> length (ap_persists a) = 3 \<and> 1 \<le> ap_interval a"
proof -
  obtain a where "app_reachable tame (\<lambda>_. \<lparr>disk_file = [], disk_calls = []\<rparr>) demo_library a" by (rule demo_run)
  with app_lifecycle [OF this] show ?thesis by blast
qed

text \<open>C14: opening the history returns exactly when the storage settles: after a mount appeared, the
  program rebuilds its metrics and checks again, as often as the number of mounts differs between a
  rebuild and the check after it. It ends if and only if one check sees as many as the rebuild before
  it saw, however long that takes, and then leaves the invariant of the program.\<close>

theorem open_persistence_returns:
  assumes "core_inv a" "ap_persists a ! 2 = None" "\<forall>i. storage_count (es i) \<noteq> None"
    and "collector_mounts_changed (ev_world (es 0)) (ap_collector a)"
  shows "(\<exists>again a'. try_open_persistence es 0 a = Some (again, a') \<and> core_inv a') \<longleftrightarrow> (\<exists>k. settled es k)"
proof
  assume "\<exists>again a'. try_open_persistence es 0 a = Some (again, a') \<and> core_inv a'"
  then obtain y where "try_open_persistence es 0 a = Some y" by blast
  from try_open_settles [OF this] assms show "\<exists>k. settled es k" by (auto simp: core_inv_def STORE_TIERS_def)
next
  assume "\<exists>k. settled es k"
  then obtain k where "settled es k" by blast
  moreover have "\<not> open_upto STORE_TIERS a" using open_upto_last [of STORE_TIERS a] assms(2) by (auto simp: STORE_TIERS_def)
  ultimately show "\<exists>again a'. try_open_persistence es 0 a = Some (again, a') \<and> core_inv a'"
    using try_open_ok [OF assms(1), of 0 k es] by (auto simp: tried_def)
qed

theorem open_persistence_returns_witness:
  "\<exists>a again a'. collector_mounts_changed (ev_world (demo_env sd_line)) (ap_collector a)
     \<and> try_open_persistence (\<lambda>_. demo_env sd_line) 0 a = Some (again, a') \<and> core_inv a'"
proof -
  obtain a where a: "core_inv a" "open_upto 0 a" "\<not> collector_mounts_changed (ev_world (demo_env [])) (ap_collector a)"
    using app_new_ok [of "demo_env []"] by metis
  have "count_mounts (mounts_entries sd_line) [] = 1" "count_mounts (mounts_entries []) [] = 0" by code_simp+
  then have c: "storage_count (demo_env sd_line) = Some 1" "storage_count (demo_env []) = Some 0"
    by (simp_all add: storage_count_def demo_env_def)
  then have "collector_mounts_changed (ev_world (demo_env sd_line)) (ap_collector a)" using a(3) by (simp add: mounts_changed_count)
  moreover have "ap_persists a ! 2 = None" using a(2) by (simp add: open_upto_def STORE_TIERS_def)
  ultimately show ?thesis
    using open_persistence_returns [OF a(1), of "\<lambda>_. demo_env sd_line"] c(1) demo_settled by auto
qed

text \<open>C15: a tick of a reachable state succeeds on any device, and what a client is told right after it is
  that tick's sample: the document of the current readings carries its time and, for every metric that
  had a reading, its value, in the order of the registry.\<close>

theorem tick_then_current:
  assumes "app_reachable tame disks lib a" "tame e" "formats (lib_fmt lib)"
  shows "\<exists>a' json. on_sample_tick lib e a = Some a'
    \<and> handle_request lib e' conn hw ''GET'' ''/current'' body read_only a' = Some (Reply ''200 OK'' ''application/json'' json, a')
    \<and> parse_json json = Some (JObj [(''timestamp'', JNum (show_int (ev_time e))),
        (''values'', values_tree (lib_fmt lib) (filter (\<lambda>(d, v). \<not> f32_isnan v)
          (zip (take (unat (reg_count (ap_registry a))) (reg_defs (ap_registry a))) (ap_buffer a'))))])"
proof -
  obtain a' where 1: "on_sample_tick lib e a = Some a'" "running_inv a'" "st_has_latest (ap_store a')"
    "st_latest (ap_store a') = ap_buffer a'" "st_latest_ts (ap_store a') = ev_time e" "ap_registry a' = ap_registry a"
    by (rule tick_ok [OF app_reachable_running [OF assms(1)] assms(2)])
  have api: "api_inv (the_api a')" using 1(2) by (simp add: running_inv_def core_inv_def base_api_inv)
  note doc = current_json_tree [OF api, of "lib_fmt lib"]
  have "\<not> route_is ''/current'' ''settings''" "\<not> route_is ''/current'' ''meta''" "route_is ''/current'' ''current''" by code_simp+
  then have "handle_request lib e' conn hw ''GET'' ''/current'' body read_only a'
      = Some (Reply ''200 OK'' ''application/json'' (render escape_json (current_tree (lib_fmt lib) (the_api a'))), a')"
    by (simp add: handle_request_def Let_def doc json_reply_def)
  moreover have "parse_json (render escape_json (current_tree (lib_fmt lib) (the_api a'))) = Some (current_tree (lib_fmt lib) (the_api a'))"
    using trees_ok(2) [OF assms(3)] by (simp add: api_json.parse_render)
  ultimately show ?thesis using 1 by (simp add: current_tree_def known_values_def the_api_def)
qed

theorem tick_then_current_witness:
  "\<exists>a a' json. on_sample_tick demo_library (demo_env []) a = Some a'
    \<and> handle_request demo_library (demo_env []) 1 True ''GET'' ''/current'' [] True a' = Some (Reply ''200 OK'' ''application/json'' json, a')
    \<and> parse_json json \<noteq> None"
proof -
  obtain a where a: "app_reachable tame (\<lambda>_. \<lparr>disk_file = [], disk_calls = []\<rparr>) demo_library a" by (rule demo_run)
  have "formats (lib_fmt demo_library)" by (simp add: formats_def demo_library_def json_number_digits is_digit_def ch_code_def)
  from tick_then_current [OF a demo_tame [of "[]"] this, of "demo_env []" 1 True "[]" True] show ?thesis by auto
qed


definition demo_post :: string where
  "demo_post = ''POST /rules HTTP/1.1'' @ crlf @ ''content-length: 18'' @ crlf @ crlf"

definition demo_rule :: string where
  "demo_rule = ''action=save&id=hot''"

lemma demo_post_received: "receive_request [demo_post, demo_rule] = Request ''POST'' ''/rules'' demo_rule"
proof -
  have "strstr (cstr demo_post) (crlf @ crlf) = Some (crlf @ crlf)"
    "strstr (cstr (demo_post @ demo_rule)) (crlf @ crlf) = Some (crlf @ crlf @ demo_rule)"
    "content_length_of demo_post = Some 18" by code_simp+
  moreover have "scan_str 7 (cstr (demo_post @ demo_rule)) = Some (''POST'', drop 4 (demo_post @ demo_rule))"
    "scan_str 8191 (drop 4 (demo_post @ demo_rule)) = Some (''/rules'', drop 11 (demo_post @ demo_rule))" by code_simp+
  moreover have "length demo_post = 44" "length demo_rule = 18" "length (cstr demo_post) = 44" "length (cstr (demo_post @ demo_rule)) = 62"
    "length crlf = 2" "cstr demo_rule = demo_rule" by code_simp+
  moreover from this have "demo_post \<noteq> []" "demo_rule \<noteq> []" by auto
  ultimately show ?thesis by (simp add: receive_request_def parse_request_def MAX_REQUEST_def MAX_PATH_LENGTH_def)
qed


text \<open>C17: the read-only port gives nothing away and changes nothing: its answers do not depend on the
  settings, no request changes anything but the list of streams, and a request is refused when it is not
  a GET or names the settings, and otherwise answered as on the other port.\<close>

theorem viewer_port_isolated:
  "on_http_request lib e conn hw chunks True (a\<lparr>ap_params := ps\<rparr>)
     = map_option (\<lambda>(r, a'). (r, a'\<lparr>ap_params := ps\<rparr>)) (on_http_request lib e conn hw chunks True a)
   \<and> on_http_request lib e conn hw chunks True a = (case receive_request chunks of BadRequest \<Rightarrow> Some (bad_request, a)
       | Request verb path body \<Rightarrow> if verb = ''GET'' \<and> \<not> route_is path ''settings''
           then handle_request lib e conn hw ''GET'' path body False a else Some (forbidden, a))
   \<and> (case on_http_request lib e conn hw chunks True a of None \<Rightarrow> True | Some (r, a') \<Rightarrow> \<exists>cl. a' = a\<lparr>ap_clients := cl\<rparr>)"
proof (cases "receive_request chunks")
  case BadRequest
  moreover have "\<exists>cl. a = a\<lparr>ap_clients := cl\<rparr>" by (rule exI [of _ "ap_clients a"]) simp
  ultimately show ?thesis by (simp add: on_http_request_def)
next
  case (Request verb path body)
  then show ?thesis using viewer_same [of lib e conn hw verb path body a] viewer_params [of lib e conn hw verb path body ps a]
      viewer_keeps [of a lib e conn hw verb path body, unfolded leaves_def] by (simp only: on_http_request_def request.case simp_thms)
qed

end
