(* ===== verification/AppMirror.thy ===== *)
theory AppMirror
  imports AppProps
begin

text \<open>
  The files mirror the memory: while the history is open each file holds exactly the samples of its
  tier, through every tick, retry, rebuild and shutdown, on storage whose writes do not fail.
\<close>

section \<open>Files and tiers\<close>

definition sound :: "env \<Rightarrow> bool" where
  "sound e \<longleftrightarrow> tame e \<and> ev_sized e \<and> in_gint64 (ev_time e)"

definition file_has :: "app \<Rightarrow> nat \<Rightarrow> guint \<Rightarrow> guint \<Rightarrow> (gint64 \<times> gfloat list) list \<Rightarrow> bool" where
  "file_has a i cap iv rows \<longleftrightarrow> (\<exists>q. ap_persists a ! i = Some q \<and> synced (ap_registry a) cap iv (q, ap_disks a (pr_path q))
     \<and> file_rows (unat (reg_count (ap_registry a))) (q, ap_disks a (pr_path q)) = rows)"

definition distinct_paths :: "persist option list \<Rightarrow> bool" where
  "distinct_paths ps \<longleftrightarrow> (\<forall>i < STORE_TIERS. \<forall>j < STORE_TIERS. \<forall>p q. i \<noteq> j \<longrightarrow> ps ! i = Some p \<longrightarrow> ps ! j = Some q \<longrightarrow> pr_path p \<noteq> pr_path q)"

definition files_sound :: "app \<Rightarrow> bool" where
  "files_sound a \<longleftrightarrow> length (ap_persists a) = STORE_TIERS \<and> distinct_paths (ap_persists a) \<and> (\<forall>p. progressing (ap_disks a p))"

definition times_ok :: "store \<Rightarrow> bool" where
  "times_ok s \<longleftrightarrow> (\<forall>i < STORE_TIERS. list_all (\<lambda>x. in_gint64 (fst x)) (store_rows s i))"

definition mirrors :: "app \<Rightarrow> nat \<Rightarrow> bool" where
  "mirrors a i \<longleftrightarrow> file_has a i (tier_capacity (st_tiers (ap_store a) ! i)) (tier_interval_s (st_tiers (ap_store a) ! i)) (store_rows (ap_store a) i)"

definition mirror_inv :: "app \<Rightarrow> bool" where
  "mirror_inv a \<longleftrightarrow> files_sound a \<and> times_ok (ap_store a) \<and> (\<forall>i < STORE_TIERS. ap_persists a ! i \<noteq> None \<longrightarrow> mirrors a i)"

lemma mirror_cong:
  assumes "ap_store a' = ap_store a" "ap_registry a' = ap_registry a" "ap_persists a' = ap_persists a" "ap_disks a' = ap_disks a"
  shows "mirror_inv a' = mirror_inv a"
  using assms by (simp add: mirror_inv_def files_sound_def mirrors_def file_has_def)

lemma tier_rows_ok:
  assumes "store_inv s" "times_ok s" "i < STORE_TIERS"
  shows "list_all (row_ok (unat (st_n_metrics s))) (store_rows s i)"
  using tier_row_length [OF store_inv_tier [OF assms(1,3)]] assms(2,3) by (simp add: times_ok_def list_all_iff)

section \<open>Appending one sample\<close>

lemma append_path: "persist_append (Some q) d vs ts = Some (Some q', d') \<Longrightarrow> pr_path q' = pr_path q"
  by (auto simp: persist_append_def Let_def write_header_def split: if_splits bind_splits prod.splits)

text \<open>One file changes, the others stay.\<close>

definition writes :: "nat \<Rightarrow> app \<Rightarrow> app \<Rightarrow> bool" where
  "writes i a a' \<longleftrightarrow> (\<exists>ps ds. a' = a\<lparr>ap_persists := ps, ap_disks := ds\<rparr>) \<and> files_sound a'
     \<and> (\<forall>j < STORE_TIERS. \<forall>cap iv rows. j \<noteq> i \<longrightarrow> file_has a j cap iv rows \<longrightarrow> file_has a' j cap iv rows)"

lemma write_file:
  assumes a: "files_sound a" "i < STORE_TIERS" "ap_persists a ! i = Some q" and q: "pr_path q' = pr_path q" "progressing d'"
  shows "writes i a (a\<lparr>ap_persists := (ap_persists a)[i := Some q'], ap_disks := (ap_disks a)(pr_path q := d')\<rparr>)"
proof -
  let ?a' = "a\<lparr>ap_persists := (ap_persists a)[i := Some q'], ap_disks := (ap_disks a)(pr_path q := d')\<rparr>"
  have i: "i < length (ap_persists a)" using a by (simp add: files_sound_def)
  have apart: "pr_path p \<noteq> pr_path q" if "j < STORE_TIERS" "j \<noteq> i" "ap_persists a ! j = Some p" for j p
    using a that unfolding files_sound_def distinct_paths_def by metis
  have "distinct_paths (ap_persists ?a')" unfolding distinct_paths_def
  proof (intro allI impI)
    fix j k p r assume jk: "j < STORE_TIERS" "k < STORE_TIERS" "j \<noteq> k" "ap_persists ?a' ! j = Some p" "ap_persists ?a' ! k = Some r"
    have "distinct_paths (ap_persists a)" using a(1) by (simp add: files_sound_def)
    with jk apart q(1) i show "pr_path p \<noteq> pr_path r"
      by (cases "j = i"; cases "k = i") (simp_all add: distinct_paths_def, metis+)
  qed
  then have "files_sound ?a'" using a(1) q(2) by (simp add: files_sound_def)
  moreover have "file_has ?a' j cap iv rows" if "j < STORE_TIERS" "j \<noteq> i" "file_has a j cap iv rows" for j cap iv rows
    using that apart [OF that(1,2)] by (auto simp: file_has_def)
  ultimately show ?thesis unfolding writes_def by blast
qed

lemma writes_trans: "writes i a b \<Longrightarrow> j < STORE_TIERS \<Longrightarrow> j \<noteq> i \<Longrightarrow> file_has a j cap iv rows \<Longrightarrow> file_has b j cap iv rows"
  by (simp add: writes_def)

lemma sample_writes:
  assumes a: "files_sound a" "i < STORE_TIERS" and f: "file_has a i cap iv rows" and row: "row_ok (unat (reg_count (ap_registry a))) (ts, row)"
  obtains a' where "on_tier_sample (i, row, ts) a = Some a'" "writes i a a'" "file_has a' i cap iv (lastn (unat cap) (rows @ [(ts, row)]))"
proof -
  let ?n = "unat (reg_count (ap_registry a))"
  obtain q where q: "ap_persists a ! i = Some q" "synced (ap_registry a) cap iv (q, ap_disks a (pr_path q))"
    "file_rows ?n (q, ap_disks a (pr_path q)) = rows" using f by (auto simp: file_has_def)
  obtain q' d' where 1: "persist_append (Some q) (ap_disks a (pr_path q)) row ts = Some (Some q', d')"
    "synced (ap_registry a) cap iv (q', d')" "file_rows ?n (q', d') = lastn (unat cap) (rows @ [(ts, row)])"
    using append_all_synced [OF q(2), of "[(ts, row)]"] row q(3) by (auto split: option.splits)
  have p: "pr_path q' = pr_path q" by (rule append_path [OF 1(1)])
  have "progressing d'" using 1(2) by (simp add: synced_def file_inv_def)
  note w = write_file [OF a q(1) p this]
  have i: "i < length (ap_persists a)" using a by (simp add: files_sound_def)
  let ?a' = "a\<lparr>ap_persists := (ap_persists a)[i := Some q'], ap_disks := (ap_disks a)(pr_path q := d')\<rparr>"
  have "on_tier_sample (i, row, ts) a = Some ?a'" using i q(1) 1(1) by (simp add: on_tier_sample_def arr_simps)
  moreover have "file_has ?a' i cap iv (lastn (unat cap) (rows @ [(ts, row)]))" using i 1(2,3) p by (simp add: file_has_def)
  ultimately show thesis using w that by blast
qed

section \<open>A tick\<close>

text \<open>What a push does to one tier and the call it makes.\<close>

definition tier_pushed :: "nat \<Rightarrow> nat \<Rightarrow> gint64 \<Rightarrow> store_tier \<Rightarrow> store_tier \<Rightarrow> pending_call list \<Rightarrow> bool" where
  "tier_pushed n i ts t t' calls \<longleftrightarrow> tier_capacity t' = tier_capacity t \<and> tier_interval_s t' = tier_interval_s t
     \<and> (calls = [] \<and> tier_rows n t' = tier_rows n t
        \<or> (\<exists>row. length row = n \<and> calls = [(i, row, ts)] \<and> tier_rows n t' = lastn (tier_cap t) (tier_rows n t @ [(ts, row)])))"

lemma coarse_pushed:
  assumes "coarse_post n vs ts t t' calls" "tier_callback t = Some i"
  shows "tier_pushed n i ts t t' calls"
  using assms by (auto simp: coarse_post_def tier_pushed_def callback_of_def Let_def split: if_splits)

lemma push_pushed:
  assumes "store_inv s" "unat (st_n_metrics s) \<le> length vs" "store_push s vs ts = Some (s', calls)" "callbacks s = [Some 0, Some 1, Some 2]"
  obtains ps0 ps1 ps2 where "calls = ps0 @ ps1 @ ps2"
    "tier_pushed (unat (st_n_metrics s)) 0 ts (st_tiers s ! 0) (st_tiers s' ! 0) ps0"
    "tier_pushed (unat (st_n_metrics s)) 1 ts (st_tiers s ! 1) (st_tiers s' ! 1) ps1"
    "tier_pushed (unat (st_n_metrics s)) 2 ts (st_tiers s ! 2) (st_tiers s' ! 2) ps2"
    "st_n_metrics s' = st_n_metrics s"
proof -
  let ?n = "unat (st_n_metrics s)"
  obtain s'' t0 t1 t2 t0' t1' t2' ps1 ps2 where
    1: "store_push s vs ts = Some (s'', callback_of t0 (take ?n vs) ts @ ps1 @ ps2)" "st_n_metrics s'' = st_n_metrics s"
      "st_tiers s = [t0, t1, t2]" "st_tiers s'' = [t0', t1', t2']"
      "tier_capacity t0' = tier_capacity t0" "tier_interval_s t0' = tier_interval_s t0"
      "tier_rows ?n t0' = lastn (tier_cap t0) (tier_rows ?n t0 @ [(ts, take ?n vs)])"
      "coarse_post ?n vs ts t1 t1' ps1" "coarse_post ?n vs ts t2 t2' ps2"
    by (rule store_push_ok [OF assms(1,2)])
  have cb: "tier_callback t0 = Some 0" "tier_callback t1 = Some 1" "tier_callback t2 = Some 2"
    using assms(4) by (simp_all add: callbacks_def 1(3))
  have eq: "s'' = s'" "calls = callback_of t0 (take ?n vs) ts @ ps1 @ ps2" using 1(1) assms(3) by simp_all
  show thesis
  proof (rule that [OF eq(2)])
    show "tier_pushed ?n 0 ts (st_tiers s ! 0) (st_tiers s' ! 0) (callback_of t0 (take ?n vs) ts)"
      using 1 cb eq(1) assms(2) by (auto simp: tier_pushed_def callback_of_def)
    show "tier_pushed ?n 1 ts (st_tiers s ! 1) (st_tiers s' ! 1) ps1" using coarse_pushed [OF 1(8) cb(2)] 1 eq(1) by simp
    show "tier_pushed ?n 2 ts (st_tiers s ! 2) (st_tiers s' ! 2) ps2" using coarse_pushed [OF 1(9) cb(3)] 1 eq(1) by simp
    show "st_n_metrics s' = st_n_metrics s" using 1(2) eq(1) by simp
  qed
qed

lemma calls_append: "on_tier_samples (xs @ ys) a = Option.bind (on_tier_samples xs a) (on_tier_samples ys)"
  by (induction xs arbitrary: a) (auto split: Option.bind_split)

lemma pushed_writes:
  assumes a: "files_sound a" "i < STORE_TIERS" "in_gint64 ts" "unat (reg_count (ap_registry a)) = n"
    and f: "file_has a i (tier_capacity t) iv (tier_rows n t)" and p: "tier_pushed n i ts t t' calls"
  obtains a' where "on_tier_samples calls a = Some a'" "writes i a a'" "file_has a' i (tier_capacity t') iv (tier_rows n t')"
proof (cases "calls = []")
  case True
  have "a = a\<lparr>ap_persists := ap_persists a, ap_disks := ap_disks a\<rparr>" by simp
  then have "writes i a a" unfolding writes_def using a(1) by blast
  with True p f show thesis by (intro that [of a]) (auto simp: tier_pushed_def)
next
  case False
  then obtain row where r: "length row = n" "calls = [(i, row, ts)]" "tier_rows n t' = lastn (tier_cap t) (tier_rows n t @ [(ts, row)])"
    "tier_capacity t' = tier_capacity t" using p by (auto simp: tier_pushed_def)
  obtain a' where "on_tier_sample (i, row, ts) a = Some a'" "writes i a a'"
    "file_has a' i (tier_capacity t) iv (lastn (unat (tier_capacity t)) (tier_rows n t @ [(ts, row)]))"
    by (rule sample_writes [OF a(1,2) f]) (use r(1) a(3,4) in simp_all)
  with r show thesis by (intro that [of a']) (simp_all add: tier_cap_def)
qed

lemma lastn_all: "list_all P xs \<Longrightarrow> list_all P (lastn k xs)"
  using set_lastn [of k xs] by (auto simp: list_all_iff)

lemma coarse_times:
  assumes "coarse_post n vs ts t t' ps" "list_all (\<lambda>x. in_gint64 (fst x)) (tier_rows n t)" "in_gint64 ts"
  shows "list_all (\<lambda>x. in_gint64 (fst x)) (tier_rows n t')"
  using assms by (auto simp: coarse_post_def Let_def intro!: lastn_all split: if_splits)

lemma three_tiers: "i < STORE_TIERS \<longleftrightarrow> i = 0 \<or> i = 1 \<or> i = 2"
  by (auto simp: STORE_TIERS_def)

lemma push_times:
  assumes "store_inv s" "unat (st_n_metrics s) \<le> length vs" "store_push s vs ts = Some (s', calls)" "times_ok s" "in_gint64 ts"
  shows "times_ok s'"
proof -
  let ?n = "unat (st_n_metrics s)"
  obtain s'' t0 t1 t2 t0' t1' t2' ps1 ps2 where
    1: "store_push s vs ts = Some (s'', callback_of t0 (take ?n vs) ts @ ps1 @ ps2)" "st_n_metrics s'' = st_n_metrics s"
      "st_tiers s = [t0, t1, t2]" "st_tiers s'' = [t0', t1', t2']"
      "tier_rows ?n t0' = lastn (tier_cap t0) (tier_rows ?n t0 @ [(ts, take ?n vs)])"
      "coarse_post ?n vs ts t1 t1' ps1" "coarse_post ?n vs ts t2 t2' ps2"
    by (rule store_push_ok [OF assms(1,2)])
  have t: "list_all (\<lambda>x. in_gint64 (fst x)) (tier_rows ?n t0)" "list_all (\<lambda>x. in_gint64 (fst x)) (tier_rows ?n t1)"
    "list_all (\<lambda>x. in_gint64 (fst x)) (tier_rows ?n t2)"
    using assms(4) 1(3) by (simp_all add: times_ok_def three_tiers)
  have "list_all (\<lambda>x. in_gint64 (fst x)) (tier_rows ?n t0')" using t(1) assms(5) by (simp add: 1(5) lastn_all)
  moreover note coarse_times [OF 1(6) t(2) assms(5)] coarse_times [OF 1(7) t(3) assms(5)]
  ultimately have "times_ok s''" by (simp add: times_ok_def 1(2,4) three_tiers)
  with 1(1) assms(3) show ?thesis by simp
qed

lemma open_callbacks:
  assumes "base_inv a" "open_upto STORE_TIERS a"
  shows "callbacks (ap_store a) = [Some 0, Some 1, Some 2]"
proof -
  have f: "files_inv (ap_registry a) (ap_store a) (ap_persists a)" and s: "store_inv (ap_store a)" using assms(1) by (simp_all add: base_inv_def)
  have "callbacks (ap_store a) ! i = Some i" if "i < STORE_TIERS" for i
    using f assms(2) that by (force simp: files_inv_def open_upto_def slot_ok_def split: option.splits)
  moreover have "length (callbacks (ap_store a)) = 3" using length_callbacks [OF s] by (simp add: STORE_TIERS_def)
  ultimately show ?thesis by (intro nth_equalityI) (auto simp: three_tiers less_Suc_eq eval_nat_numeral)
qed

lemma closed_callbacks:
  assumes "base_inv a" "open_upto 0 a"
  shows "Some i \<notin> set (callbacks (ap_store a))"
proof -
  have f: "files_inv (ap_registry a) (ap_store a) (ap_persists a)" and s: "store_inv (ap_store a)" using assms(1) by (simp_all add: base_inv_def)
  have "callbacks (ap_store a) ! i = None" if "i < STORE_TIERS" for i
    using f assms(2) that by (force simp: files_inv_def open_upto_def slot_ok_def split: option.splits)
  then show ?thesis using length_callbacks [OF s] by (auto simp: in_set_conv_nth)
qed

lemma samples_store: "on_tier_samples calls a = Some a' \<Longrightarrow> ap_store a' = ap_store a \<and> ap_buffer a' = ap_buffer a"
proof (induction calls arbitrary: a)
  case (Cons call calls)
  obtain a1 where 1: "on_tier_sample call a = Some a1" "on_tier_samples calls a1 = Some a'" using Cons.prems by (auto split: bind_splits)
  have "ap_store a1 = ap_store a \<and> ap_buffer a1 = ap_buffer a" using 1(1) by (auto simp: on_tier_sample_def split: prod.splits option.splits bind_splits)
  with Cons.IH [OF 1(2)] show ?case by simp
qed simp

lemma publish_frame: "publish_tick lib e a = Some a' \<Longrightarrow> ap_store a' = ap_store a \<and> ap_registry a' = ap_registry a
    \<and> ap_persists a' = ap_persists a \<and> ap_disks a' = ap_disks a \<and> ap_buffer a' = ap_buffer a"
  by (auto simp: publish_tick_def emit_def split: bind_splits)

lemma broadcast_frame: "broadcast_current lib e a = Some a' \<Longrightarrow> ap_store a' = ap_store a \<and> ap_registry a' = ap_registry a
    \<and> ap_persists a' = ap_persists a \<and> ap_disks a' = ap_disks a \<and> ap_buffer a' = ap_buffer a"
  by (auto simp: broadcast_current_def split: if_splits bind_splits)

text \<open>The calls of a push bring the files up to the tiers.\<close>

lemma calls_mirror:
  assumes a: "files_sound a" "\<forall>i < STORE_TIERS. mirrors a i" "in_gint64 ts" and n: "st_n_metrics (ap_store a) = reg_count (ap_registry a)"
    and push: "store_inv (ap_store a)" "unat (st_n_metrics (ap_store a)) \<le> length vs" "store_push (ap_store a) vs ts = Some (s', calls)"
      "callbacks (ap_store a) = [Some 0, Some 1, Some 2]"
    and run: "on_tier_samples calls (a\<lparr>ap_store := s'\<rparr>) = Some a1"
  shows "files_sound a1" "\<forall>i < STORE_TIERS. mirrors a1 i"
proof -
  let ?s = "ap_store a" and ?n = "unat (st_n_metrics (ap_store a))" and ?a0 = "a\<lparr>ap_store := s'\<rparr>"
  obtain ps0 ps1 ps2 where c: "calls = ps0 @ ps1 @ ps2"
    and p: "tier_pushed ?n 0 ts (st_tiers ?s ! 0) (st_tiers s' ! 0) ps0" "tier_pushed ?n 1 ts (st_tiers ?s ! 1) (st_tiers s' ! 1) ps1"
      "tier_pushed ?n 2 ts (st_tiers ?s ! 2) (st_tiers s' ! 2) ps2" "st_n_metrics s' = st_n_metrics ?s"
    by (rule push_pushed [OF push])
  have T: "0 < STORE_TIERS" "1 < STORE_TIERS" "2 < STORE_TIERS" by (simp_all add: STORE_TIERS_def)
  have m: "file_has ?a0 i (tier_capacity (st_tiers ?s ! i)) (tier_interval_s (st_tiers ?s ! i)) (tier_rows ?n (st_tiers ?s ! i))"
    if "i < STORE_TIERS" for i using a(2) that by (simp add: mirrors_def file_has_def)
  have f0: "files_sound ?a0" "unat (reg_count (ap_registry ?a0)) = ?n" using a(1) n by (simp_all add: files_sound_def)
  obtain b0 where b0: "on_tier_samples ps0 ?a0 = Some b0" "writes 0 ?a0 b0"
    "file_has b0 0 (tier_capacity (st_tiers s' ! 0)) (tier_interval_s (st_tiers ?s ! 0)) (tier_rows ?n (st_tiers s' ! 0))"
    by (rule pushed_writes [OF f0(1) T(1) a(3) f0(2) m [OF T(1)] p(1)])
  have f1: "files_sound b0" "unat (reg_count (ap_registry b0)) = ?n" "ap_store b0 = s'" using b0(2) f0(2) by (auto simp: writes_def)
  obtain b1 where b1: "on_tier_samples ps1 b0 = Some b1" "writes 1 b0 b1"
    "file_has b1 1 (tier_capacity (st_tiers s' ! 1)) (tier_interval_s (st_tiers ?s ! 1)) (tier_rows ?n (st_tiers s' ! 1))"
    by (rule pushed_writes [OF f1(1) T(2) a(3) f1(2) writes_trans [OF b0(2) T(2) _ m [OF T(2)]] p(2)]) simp
  have f2: "files_sound b1" "unat (reg_count (ap_registry b1)) = ?n" "ap_store b1 = s'" using b1(2) f1(2,3) by (auto simp: writes_def)
  have "file_has b1 2 (tier_capacity (st_tiers ?s ! 2)) (tier_interval_s (st_tiers ?s ! 2)) (tier_rows ?n (st_tiers ?s ! 2))"
    by (rule writes_trans [OF b1(2) T(3) _ writes_trans [OF b0(2) T(3) _ m [OF T(3)]]]) simp_all
  then obtain b2 where b2: "on_tier_samples ps2 b1 = Some b2" "writes 2 b1 b2"
    "file_has b2 2 (tier_capacity (st_tiers s' ! 2)) (tier_interval_s (st_tiers ?s ! 2)) (tier_rows ?n (st_tiers s' ! 2))"
    by (rule pushed_writes [OF f2(1) T(3) a(3) f2(2) _ p(3)])
  have eq: "b2 = a1" using run b0(1) b1(1) b2(1) by (simp add: c calls_append)
  have b2s: "files_sound b2" "ap_store b2 = s'" using b2(2) f2(3) by (auto simp: writes_def)
  then show "files_sound a1" using eq by simp
  have iv: "tier_interval_s (st_tiers s' ! i) = tier_interval_s (st_tiers ?s ! i)" if "i < STORE_TIERS" for i
    using p that by (auto simp: tier_pushed_def three_tiers)
  have "mirrors b2 0" unfolding mirrors_def b2s(2) iv [OF T(1)] p(4)
    by (rule writes_trans [OF b2(2) T(1) _ writes_trans [OF b1(2) T(1) _ b0(3)]]) simp_all
  moreover have "mirrors b2 1" unfolding mirrors_def b2s(2) iv [OF T(2)] p(4)
    by (rule writes_trans [OF b2(2) T(2) _ b1(3)]) simp
  moreover have "mirrors b2 2" unfolding mirrors_def b2s(2) iv [OF T(3)] p(4) by (rule b2(3))
  ultimately show "\<forall>i < STORE_TIERS. mirrors a1 i" using eq by (simp add: three_tiers)
qed

lemma mirror_closed:
  assumes "open_upto 0 a" "times_ok (ap_store a)" "files_sound a"
  shows "mirror_inv a"
  using assms by (simp add: mirror_inv_def open_upto_def)

lemma tick_parts:
  assumes "on_sample_tick lib e a = Some a'"
  obtains c buffer s calls a1 where
    "collector_sample (ev_world e) (ev_mono e) (ap_registry a) (ap_collector a) (ap_buffer a) = Some (c, buffer)"
    "store_push (ap_store a) buffer (ev_time e) = Some (s, calls)"
    "on_tier_samples calls (a\<lparr>ap_collector := c, ap_buffer := buffer, ap_store := s\<rparr>) = Some a1" "ap_store a1 = s"
    "ap_store a' = ap_store a1" "ap_registry a' = ap_registry a1" "ap_persists a' = ap_persists a1" "ap_disks a' = ap_disks a1" "ap_buffer a' = buffer"
proof -
  obtain c buffer s calls a1 al outs a2 where
    1: "collector_sample (ev_world e) (ev_mono e) (ap_registry a) (ap_collector a) (ap_buffer a) = Some (c, buffer)"
      "store_push (ap_store a) buffer (ev_time e) = Some (s, calls)"
      "on_tier_samples calls (a\<lparr>ap_collector := c, ap_buffer := buffer, ap_store := s\<rparr>) = Some a1"
      "broadcast_current lib e (emit (alert_outputs lib (ap_mqtt a1) outs) (a1\<lparr>ap_alerts := al\<rparr>)) = Some a2"
      "publish_tick lib e a2 = Some a'"
    using assms by (auto simp: on_sample_tick_def split: bind_splits)
  show thesis by (rule that [OF 1(1-3)])
    (use samples_store [OF 1(3)] broadcast_frame [OF 1(4)] publish_frame [OF 1(5)] in \<open>simp_all add: emit_def\<close>)
qed

text \<open>The row that is sampled covers the store.\<close>

lemma sampled_row:
  assumes "base_inv a" "sound e" "collector_sample (ev_world e) (ev_mono e) (ap_registry a) (ap_collector a) (ap_buffer a) = Some (c, buffer)"
  shows "store_inv (ap_store a)" "st_n_metrics (ap_store a) = reg_count (ap_registry a)" "unat (st_n_metrics (ap_store a)) \<le> length buffer"
proof -
  have inv: "collector_inv (ap_registry a) (ap_collector a)" "length (ap_buffer a) = unat (reg_count (ap_registry a))"
    and s: "store_inv (ap_store a)" "st_n_metrics (ap_store a) = reg_count (ap_registry a)" using assms(1) by (simp_all add: base_inv_def)
  have "length buffer = unat (reg_count (ap_registry a))"
    using collector_sample_ok [OF inv(1), of "ap_buffer a" "ev_world e" "ev_mono e"] inv(2) assms(2,3) by (auto simp: tame_def sound_def)
  with s show "store_inv (ap_store a)" "st_n_metrics (ap_store a) = reg_count (ap_registry a)" "unat (st_n_metrics (ap_store a)) \<le> length buffer"
    by simp_all
qed

lemma tick_mirror:
  assumes run: "running_inv a" and m: "mirror_inv a" and e: "sound e" and tick: "on_sample_tick lib e a = Some a'"
  shows "mirror_inv a'"
proof -
  have b: "base_inv a" and up: "open_upto 0 a \<or> open_upto STORE_TIERS a" using run by (simp_all add: running_inv_def core_inv_def)
  obtain c buffer s calls a1 where
    1: "collector_sample (ev_world e) (ev_mono e) (ap_registry a) (ap_collector a) (ap_buffer a) = Some (c, buffer)"
      "store_push (ap_store a) buffer (ev_time e) = Some (s, calls)"
      "on_tier_samples calls (a\<lparr>ap_collector := c, ap_buffer := buffer, ap_store := s\<rparr>) = Some a1" "ap_store a1 = s"
    and frame: "ap_store a' = ap_store a1" "ap_registry a' = ap_registry a1" "ap_persists a' = ap_persists a1" "ap_disks a' = ap_disks a1"
    by (rule tick_parts [OF tick])
  note inv = sampled_row(1,2) [OF b e 1(1)] and n = sampled_row(3) [OF b e 1(1)]
  have t: "times_ok s" by (rule push_times [OF inv(1) n 1(2)]) (use m e in \<open>simp_all add: mirror_inv_def sound_def\<close>)
  let ?b = "a\<lparr>ap_collector := c, ap_buffer := buffer\<rparr>"
  have "mirror_inv a1"
  proof (cases "open_upto 0 a")
    case True
    obtain s' calls' where p: "store_push (ap_store a) buffer (ev_time e) = Some (s', calls')"
      "list_all (call_ok (callbacks (ap_store a)) (unat (st_n_metrics (ap_store a)))) calls'" by (rule push_calls [OF inv(1) n])
    have "calls = []" using p 1(2) closed_callbacks [OF b True] by (cases calls) (auto simp: call_ok_def)
    then have "a1 = ?b\<lparr>ap_store := s\<rparr>" using 1(3) by simp
    with True t m show ?thesis by (intro mirror_closed) (simp_all add: open_upto_def files_sound_def mirror_inv_def)
  next
    case False
    with up have o: "open_upto STORE_TIERS a" by blast
    have fs: "files_sound ?b" "\<forall>i < STORE_TIERS. mirrors ?b i"
      using m o by (simp_all add: mirror_inv_def files_sound_def mirrors_def file_has_def open_upto_def)
    have "in_gint64 (ev_time e)" "st_n_metrics (ap_store ?b) = reg_count (ap_registry ?b)" "store_inv (ap_store ?b)"
      "unat (st_n_metrics (ap_store ?b)) \<le> length buffer" "store_push (ap_store ?b) buffer (ev_time e) = Some (s, calls)"
      "callbacks (ap_store ?b) = [Some 0, Some 1, Some 2]" "on_tier_samples calls (?b\<lparr>ap_store := s\<rparr>) = Some a1"
      using e inv n 1(2,3) open_callbacks [OF b o] by (simp_all add: sound_def)
    note cm = calls_mirror [OF fs this]
    show ?thesis using cm t 1(4) by (simp add: mirror_inv_def)
  qed
  then show ?thesis using mirror_cong [OF frame] by simp
qed

section \<open>Closing\<close>

lemma set_callback_tiers:
  assumes "store_inv s" "i < STORE_TIERS" "j < STORE_TIERS"
  shows "tier_capacity (st_tiers (store_set_tier_callback s i cb) ! j) = tier_capacity (st_tiers s ! j)"
    "tier_interval_s (st_tiers (store_set_tier_callback s i cb) ! j) = tier_interval_s (st_tiers s ! j)"
    "store_rows (store_set_tier_callback s i cb) j = store_rows s j"
proof -
  have "length (st_tiers s) = STORE_TIERS" using assms(1) by (simp add: store_inv_def)
  then show "tier_capacity (st_tiers (store_set_tier_callback s i cb) ! j) = tier_capacity (st_tiers s ! j)"
    "tier_interval_s (st_tiers (store_set_tier_callback s i cb) ! j) = tier_interval_s (st_tiers s ! j)"
    "store_rows (store_set_tier_callback s i cb) j = store_rows s j"
    using assms(2,3) by (simp_all add: store_set_tier_callback_def nth_list_update tier_rows_def)
qed

lemma close_progress: "progressing d \<Longrightarrow> progressing (persist_close p d)"
proof (cases p)
  case (Some q)
  assume "progressing d"
  then obtain d' where "write_header q d = (q\<lparr>pr_appends_since_header := 0\<rparr>, d')" "progressing d'" by (rule write_header_ok)
  with \<open>progressing d\<close> Some show ?thesis by (simp add: persist_close_def)
qed (simp add: persist_close_def)

lemma close_tier_mirror:
  assumes "base_inv a" "i < STORE_TIERS" "files_sound a" "times_ok (ap_store a)"
  shows "files_sound (close_tier i a)" "times_ok (ap_store (close_tier i a))"
proof -
  have s: "store_inv (ap_store a)" using assms(1) by (simp add: base_inv_def)
  have "distinct_paths ((ap_persists a)[i := None])" using assms(3) unfolding files_sound_def distinct_paths_def
    by (metis nth_list_update_eq nth_list_update_neq option.distinct(1))
  then show "files_sound (close_tier i a)" using assms(3) close_progress
    by (auto simp: close_tier_def files_sound_def split: option.split)
  show "times_ok (ap_store (close_tier i a))" using assms(4) set_callback_tiers(3) [OF s assms(2)]
    by (auto simp: close_tier_def times_ok_def split: option.split)
qed

lemma close_mirror:
  assumes "base_inv a" "mirror_inv a"
  shows "mirror_inv (close_persistence a)"
proof -
  have T: "0 < STORE_TIERS" "Suc 0 < STORE_TIERS" "2 < STORE_TIERS" by (simp_all add: STORE_TIERS_def)
  have m: "files_sound a" "times_ok (ap_store a)" using assms(2) by (simp_all add: mirror_inv_def)
  note c0 = close_tier_mirror [OF assms(1) T(1) m] and b0 = close_tier_ok(1) [OF assms(1) T(1)]
  note c1 = close_tier_mirror [OF b0 T(2) c0] and b1 = close_tier_ok(1) [OF b0 T(2)]
  note c2 = close_tier_mirror [OF b1 T(3) c1]
  have eq: "close_persistence a = set_persist_path None (close_tier 2 (close_tier (Suc 0) (close_tier 0 a)))"
    by (simp add: close_persistence_def STORE_TIERS_def upt_rec eval_nat_numeral)
  have "files_sound (close_persistence a)" "times_ok (ap_store (close_persistence a))"
    using c2 by (simp_all add: eq set_persist_path_def files_sound_def)
  with close_persistence_ok(2) [OF assms(1)] show ?thesis by (simp add: mirror_closed)
qed

section \<open>Opening\<close>

definition shape :: "store \<Rightarrow> (guint \<times> guint) list" where
  "shape s = map (\<lambda>t. (tier_capacity t, tier_interval_s t)) (st_tiers s)"

lemma tier_append_shape: "tier_append n vs ts t = Some t' \<Longrightarrow> tier_capacity t' = tier_capacity t \<and> tier_interval_s t' = tier_interval_s t"
  by (auto simp: tier_append_def split: bind_splits)

text \<open>What restoring does: the times stay in range and only tier \<open>i\<close> changes.\<close>

definition loads :: "nat \<Rightarrow> store \<Rightarrow> store \<Rightarrow> bool" where
  "loads i s s' \<longleftrightarrow> store_inv s' \<and> same_store s s' \<and> shape s' = shape s \<and> (times_ok s \<longrightarrow> times_ok s')
     \<and> (\<forall>j < STORE_TIERS. j \<noteq> i \<longrightarrow> st_tiers s' ! j = st_tiers s ! j)"

lemma loads_refl: "store_inv s \<Longrightarrow> loads i s s"
  by (simp add: loads_def same_store_def)

lemma loads_trans: "loads i s s' \<Longrightarrow> loads i s' s'' \<Longrightarrow> loads i s s''"
  by (simp add: loads_def same_store_def)

lemma restore_loads:
  assumes "store_inv s" "i < STORE_TIERS" "unat (st_n_metrics s) \<le> length vs" "in_gint64 ts" "store_restore s i vs ts = Some s'"
  shows "loads i s s'"
proof -
  obtain s'' where 1: "store_restore s i vs ts = Some s''" "store_inv s''" "st_n_metrics s'' = st_n_metrics s" "st_registry s'' = st_registry s"
    "store_rows s'' i = lastn (tier_cap (st_tiers s ! i)) (store_rows s i @ [(ts, take (unat (st_n_metrics s)) vs)])"
    "\<forall>j. j \<noteq> i \<longrightarrow> st_tiers s'' ! j = st_tiers s ! j" by (rule store_restore_ok [OF assms(1-3)])
  have eq: "s'' = s'" using 1(1) assms(5) by simp
  have "shape s' = shape s" using assms(5)
    by (auto simp: store_restore_def shape_def arr_get_def map_update list_update_same_conv dest: tier_append_shape split: bind_splits if_splits)
  moreover have "times_ok s'" if t: "times_ok s"
  proof -
    have "list_all (\<lambda>x. in_gint64 (fst x)) (store_rows s' j)" if j: "j < STORE_TIERS" for j
    proof (cases "j = i")
      case True
      then show ?thesis using t j 1(5) assms(4) eq by (simp add: times_ok_def lastn_all)
    next
      case False
      then show ?thesis using t j 1(3,6) eq by (simp add: times_ok_def)
    qed
    then show ?thesis by (simp add: times_ok_def)
  qed
  ultimately show ?thesis using 1 eq by (simp add: loads_def same_store_def)
qed

lemma le_value_less: "le_value bs < 256 ^ length bs"
proof (induction bs)
  case (Cons b bs)
  have "unat b < 256" using unsigned_less [of b, where ?'a = nat] by simp
  with Cons show ?case by simp
qed simp

lemma i64_range: "in_gint64 (i64_of bs)"
proof -
  have "le_value (take 8 bs) < 256 ^ length (take 8 bs)" by (rule le_value_less)
  also have "\<dots> \<le> (256 :: nat) ^ 8" by (rule power_increasing) simp_all
  finally have "int (le_value (take 8 bs)) < 2 ^ 64" by simp
  then show ?thesis by (simp add: i64_of_def in_gint64_def Let_def)
qed

lemma remap_length: "remap_values ks saved vs = Some vs' \<Longrightarrow> length vs' = length vs"
  by (induction ks saved vs rule: remap_values.induct) (auto simp: arr_set_def split: if_splits bind_splits)

lemma read_progress: "read_at d n off = (r, d') \<Longrightarrow> progressing d \<Longrightarrow> progressing d'"
  using read_at_spec [of d n off] by simp

lemma load_loop_loads:
  assumes "load_loop h mapping start is d s i k = Some (k', s', d')" "store_inv s" "i < STORE_TIERS" "progressing d"
  shows "loads i s s' \<and> progressing d'"
  using assms(1,2,4)
proof (induction "is" arbitrary: d s k)
  case Nil
  then show ?case by (simp add: loads_refl)
next
  case (Cons j "is")
  let ?n = "unat (ph_n_metrics h)"
  obtain slot where slot: "guint_mod (start + of_nat j) (ph_capacity h) = Some slot" using Cons.prems(1) by (auto split: bind_splits)
  obtain raw d1 where r: "read_at d (8 + ?n * 4) (HEADER_BYTES + id_table_bytes (ph_n_metrics h) + unat slot * (8 + ?n * 4)) = (raw, d1)"
    by force
  have d1: "progressing d1" by (rule read_progress [OF r Cons.prems(3)])
  show ?case
  proof (cases raw)
    case None
    with Cons.prems slot r d1 show ?thesis by (simp add: Let_def loads_refl)
  next
    case (Some bs)
    show ?thesis
    proof (cases "i64_of bs \<le> 0")
      case True
      with Cons.prems slot r Some have "load_loop h mapping start is d1 s i k = Some (k', s', d')" by (simp add: Let_def)
      from Cons.IH [OF this Cons.prems(2) d1] show ?thesis .
    next
      case False
      with Cons.prems(1) slot r Some obtain vals s1 where 1: "remap_values mapping (record_values ?n bs) (replicate (unat (st_n_metrics s)) f32_nan) = Some vals"
        "store_restore s i vals (i64_of bs) = Some s1" "load_loop h mapping start is d1 s1 i (k + 1) = Some (k', s', d')"
        by (auto simp: Let_def split: bind_splits)
      have "loads i s s1" by (rule restore_loads [OF Cons.prems(2) assms(3) _ i64_range 1(2)]) (use remap_length [OF 1(1)] in simp)
      moreover from this have "store_inv s1" by (simp add: loads_def)
      ultimately show ?thesis using Cons.IH [OF 1(3) _ d1] loads_trans by blast
    qed
  qed
qed

lemma persist_load_loads:
  assumes "persist_load (Some p) d s i = Some (k, s', d')" "store_inv s" "i < STORE_TIERS" "progressing d"
  shows "loads i s s'" "progressing d'"
proof -
  obtain raw d1 where r1: "read_at d sizeof_header 0 = (raw, d1)" by force
  note d1 = read_progress [OF r1 assms(4)]
  have "loads i s s' \<and> progressing d'"
  proof (cases raw)
    case None
    with assms r1 d1 show ?thesis by (simp add: persist_load_def loads_refl)
  next
    case (Some bs)
    define h where "h = header_of bs"
    obtain tab d2 where r2: "read_at d1 (id_table_bytes (ph_n_metrics h)) HEADER_BYTES = (tab, d2)" by force
    note d2 = read_progress [OF r2 d1]
    have "s' = s \<and> (d' = d1 \<or> d' = d2) \<or> (\<exists>mapping start is. load_loop h mapping start is d2 s i 0 = Some (k, s', d'))"
      using assms(1) r1 r2 Some
      by (auto simp: persist_load_def Let_def simp flip: h_def split: if_splits option.splits bind_splits)
    then show ?thesis using load_loop_loads [OF _ assms(2,3) d2] d1 d2 loads_refl [OF assms(2)] by auto
  qed
  then show "loads i s s'" "progressing d'" by simp_all
qed

lemma rows_fit: "store_inv s \<Longrightarrow> i < STORE_TIERS \<Longrightarrow> lastn (unat (tier_capacity (st_tiers s ! i))) (store_rows s i) = store_rows s i"
  using store_inv_tier [of s i] by (intro lastn_id) (simp add: tier_inv_def)

lemma open_tier_mirror:
  assumes a: "base_inv a" "mirror_inv a" and i: "i < STORE_TIERS" and q: "opened_for (ap_registry a) (st_tiers (ap_store a) ! i) q"
    and apart: "\<forall>j < STORE_TIERS. \<forall>p. j \<noteq> i \<longrightarrow> ap_persists a ! j = Some p \<longrightarrow> pr_path p \<noteq> pr_path q"
    and e: "ev_sized e" and run: "open_tier e i q (a\<lparr>ap_persists := (ap_persists a)[i := Some q]\<rparr>) = Some a'"
  shows "mirror_inv a'" "\<exists>q'. ap_persists a' = (ap_persists a)[i := Some q'] \<and> pr_path q' = pr_path q"
proof -
  let ?s = "ap_store a" and ?r = "ap_registry a" and ?t = "st_tiers (ap_store a) ! i" and ?ps = "ap_persists a"
  have s: "store_inv ?s" "st_registry ?s = ?r" "st_n_metrics ?s = reg_count ?r" "reg_inv ?r" using a(1) by (simp_all add: base_inv_def)
  have fs: "files_sound a" and times: "times_ok ?s" using a(2) by (simp_all add: mirror_inv_def)
  then have len: "length ?ps = STORE_TIERS" and prog: "progressing (ap_disks a (pr_path q))" by (simp_all add: files_sound_def)
  obtain k s1 d1 p d2 where 1: "(if store_tier_count ?s i = 0 then persist_load (Some q) (ap_disks a (pr_path q)) ?s i
      else Some (0, ?s, ap_disks a (pr_path q))) = Some (k, s1, d1)" "persist_sync (Some q) (ev_sized e) d1 s1 i = Some (p, d2)"
    "a' = a\<lparr>ap_store := store_set_tier_callback s1 i (Some i), ap_persists := ?ps[i := p], ap_disks := (ap_disks a)(pr_path q := d2)\<rparr>"
    using run by (cases "store_tier_count ?s i = 0") (auto simp: open_tier_def split: bind_splits)
  have l: "loads i ?s s1" "progressing d1"
    using 1(1) persist_load_loads [OF _ s(1) i prog] loads_refl [OF s(1)] prog by (auto split: if_splits)
  then have s1: "store_inv s1" "st_registry s1 = ?r" "st_n_metrics s1 = reg_count ?r" "times_ok s1" "shape s1 = shape ?s"
    using s times by (simp_all add: loads_def same_store_def)
  have "length (st_tiers ?s) = STORE_TIERS" "length (st_tiers s1) = STORE_TIERS" using s(1) s1(1) by (simp_all add: store_inv_def)
  then have t: "tier_capacity (st_tiers s1 ! j) = tier_capacity (st_tiers ?s ! j) \<and> tier_interval_s (st_tiers s1 ! j) = tier_interval_s (st_tiers ?s ! j)"
    if "j < STORE_TIERS" for j using s1(5) that unfolding shape_def by (metis (no_types, lifting) nth_map prod.inject)
  have rows: "list_all (row_ok (unat (reg_count (st_registry s1)))) (store_rows s1 i)"
    using tier_rows_ok [OF s1(1,4) i] s1(2,3) by simp
  have cap: "0 < unat (tier_capacity ?t)" "unat (tier_capacity ?t) < 2 ^ 31" using store_inv_tier [OF s(1) i] by (simp_all add: tier_inv_def)
  have op: "opened_for (st_registry s1) ?t q" "reg_inv (st_registry s1)" using q s1(2) s(4) by simp_all
  obtain q' d' where 2: "persist_sync (Some q) True d1 s1 i = Some (Some q', d')" "synced (st_registry s1) (tier_capacity ?t) (tier_interval_s ?t) (q', d')"
    "file_rows (unat (reg_count (st_registry s1))) (q', d') = lastn (unat (tier_capacity ?t)) (store_rows s1 i)"
    by (rule persist_sync_ok [OF op l(2) cap s1(1) i rows])
  have p: "p = Some q'" "d2 = d'" using 1(2) 2(1) e by simp_all
  have "usable (st_registry s1) q" using op(1) cap(1) by (simp add: opened_for_def usable_def)
  then have path: "pr_path q' = pr_path q" using usable_sync [OF _ s1(1) i, of q True d1] s1(2,3) 2(1) by auto
  let ?a0 = "a\<lparr>ap_persists := ?ps[i := Some q]\<rparr>"
  have "distinct_paths (?ps[i := Some q])" unfolding distinct_paths_def
  proof (intro allI impI)
    fix j k p r assume jk: "j < STORE_TIERS" "k < STORE_TIERS" "j \<noteq> k" "?ps[i := Some q] ! j = Some p" "?ps[i := Some q] ! k = Some r"
    with apart fs len show "pr_path p \<noteq> pr_path r"
      by (cases "j = i"; cases "k = i") (simp_all add: files_sound_def distinct_paths_def, metis+)
  qed
  then have "files_sound ?a0" using fs by (simp add: files_sound_def)
  moreover have "ap_persists ?a0 ! i = Some q" using i len by simp
  moreover have "progressing d'" using 2(2) by (simp add: synced_def file_inv_def)
  ultimately have w: "writes i ?a0 (?a0\<lparr>ap_persists := (ap_persists ?a0)[i := Some q'], ap_disks := (ap_disks ?a0)(pr_path q := d')\<rparr>)"
    using i path by (intro write_file) simp_all
  have eq: "a' = (?a0\<lparr>ap_persists := (ap_persists ?a0)[i := Some q'], ap_disks := (ap_disks ?a0)(pr_path q := d')\<rparr>)\<lparr>ap_store := store_set_tier_callback s1 i (Some i)\<rparr>"
    using 1(3) p by simp
  note cb = set_callback_tiers [OF s1(1) i]
  have fs': "files_sound a'" using w by (simp add: eq writes_def files_sound_def)
  have times': "times_ok (ap_store a')" using s1(4) cb(3) by (simp add: eq times_ok_def)
  have "mirrors a' j" if j: "j < STORE_TIERS" "ap_persists a' ! j \<noteq> None" for j
  proof (cases "j = i")
    case True
    have "lastn (unat (tier_capacity ?t)) (store_rows s1 i) = store_rows s1 i" using rows_fit [OF s1(1) i] t [OF i] by simp
    then show ?thesis using True cb(1,2,3) [OF i] t [OF i] 2(2,3) s1(2,3) path i len by (simp add: mirrors_def file_has_def eq)
  next
    case False
    then have "mirrors a j" using a(2) j len eq by (simp add: mirror_inv_def)
    then have "file_has ?a0 j (tier_capacity (st_tiers ?s ! j)) (tier_interval_s (st_tiers ?s ! j)) (store_rows ?s j)"
      using False by (simp add: mirrors_def file_has_def)
    from writes_trans [OF w j(1) False this] show ?thesis
      using cb(1,2,3) [OF j(1)] t [OF j(1)] l(1) False j(1) s(3) s1(3) by (simp add: mirrors_def file_has_def eq loads_def)
  qed
  with fs' times' show "mirror_inv a'" by (simp add: mirror_inv_def)
  show "\<exists>q'. ap_persists a' = ?ps[i := Some q'] \<and> pr_path q' = pr_path q" by (rule exI [of _ q']) (simp add: path eq)
qed

text \<open>The files of one opening are in one directory and have their own names.\<close>

definition open_path :: "string \<Rightarrow> nat \<Rightarrow> string" where
  "open_path base i = strlcpy 512 (strlcpy 512 (base @ ''/'' @ APP_SUBDIR) @ ''/'' @ PERSIST_FILES ! i)"

lemma opened_path:
  assumes "persist_open statvfs mounts mk fd r t (PERSIST_FILES ! i) logged = (Some q, logged')"
  shows "\<exists>base. find_storage statvfs mounts 256 = Some base \<and> pr_path q = open_path base i"
  using assms by (auto simp: persist_open_def open_path_def Let_def split: option.splits if_splits)

lemma storage_short: "find_storage statvfs mounts 256 = Some base \<Longrightarrow> length base < 256"
  by (auto simp: find_storage_def Let_def strlcpy_less split: option.splits if_splits)

lemma open_path_apart:
  assumes "length base < 256" "i < STORE_TIERS" "j < STORE_TIERS" "i \<noteq> j"
  shows "open_path base i \<noteq> open_path base j"
proof -
  have "strlcpy 512 (base @ ''/Metrics'') = base @ ''/Metrics''" by (rule strlcpy_id) (use assms(1) in simp)
  moreover have "strlcpy 512 (base @ ''/Metrics/'' @ PERSIST_FILES ! k) = base @ ''/Metrics/'' @ PERSIST_FILES ! k" if "k < STORE_TIERS" for k
  proof (rule strlcpy_id)
    have "length (PERSIST_FILES ! k) < 20" using that unfolding three_tiers PERSIST_FILES_def by auto
    then show "length (base @ ''/Metrics/'' @ PERSIST_FILES ! k) < 512" using assms(1) by simp
  qed
  ultimately have "open_path base k = base @ ''/Metrics/'' @ PERSIST_FILES ! k" if "k < STORE_TIERS" for k
    using that by (simp add: open_path_def APP_SUBDIR_def)
  moreover have "PERSIST_FILES ! i \<noteq> PERSIST_FILES ! j" using assms(2-4) unfolding three_tiers PERSIST_FILES_def by auto
  ultimately show ?thesis using assms(2,3) by simp
qed

lemma open_tiers_mirror:
  assumes "base_inv a" "open_upto k a" "k \<le> STORE_TIERS" "mirror_inv a" "ev_sized e" "open_tiers e [k..<STORE_TIERS] a = Some (again, a')"
    and "\<forall>j < k. \<exists>p base. ap_persists a ! j = Some p \<and> find_storage (ev_statvfs e) (w_file (ev_world e) ''/proc/mounts'') 256 = Some base
        \<and> pr_path p = open_path base j"
  shows "mirror_inv a'"
  using assms
proof (induction "STORE_TIERS - k" arbitrary: k a)
  case 0
  then have k: "k = STORE_TIERS" by simp
  with 0 have "a' = set_persist_path (persist_path (ap_persists a ! (STORE_TIERS - 1))) (a\<lparr>ap_retry := False\<rparr>)" by simp
  then show ?case using 0 mirror_cong [of a' a] by (simp add: set_persist_path_def)
next
  case (Suc n)
  then have k: "k < STORE_TIERS" "n = STORE_TIERS - Suc k" by simp_all
  obtain p logged where p: "persist_open (ev_statvfs e) (w_file (ev_world e) ''/proc/mounts'') (ev_mkdir e) (ev_open e)
      (ap_registry a) (st_tiers (ap_store a) ! k) (PERSIST_FILES ! k) (ap_absence_logged a) = (p, logged)" by force
  let ?a = "a\<lparr>ap_absence_logged := logged\<rparr>"
  have up: "[k..<STORE_TIERS] = k # [Suc k..<STORE_TIERS]" using k by (simp add: upt_conv_Cons)
  have none: "ap_persists a ! k = None" using Suc.prems(2) k(1) unfolding open_upto_def by blast
  then have same: "(ap_persists a)[k := None] = ap_persists a" by (metis list_update_id)
  have m: "mirror_inv ?a" "base_inv ?a" using Suc.prems(1,4) mirror_cong [of ?a a] by simp_all
  show ?case
  proof (cases p)
    case None
    then have "a' = close_persistence ?a" using Suc.prems(6) p same by (simp add: up)
    then show ?thesis using close_mirror [OF m(2,1)] by simp
  next
    case (Some q)
    obtain base where base: "find_storage (ev_statvfs e) (w_file (ev_world e) ''/proc/mounts'') 256 = Some base" "pr_path q = open_path base k"
      using opened_path p Some by blast
    have q: "opened_for (ap_registry ?a) (st_tiers (ap_store ?a) ! k) q" using persist_open_fields p Some by simp
    have len: "length (ap_persists a) = STORE_TIERS" using Suc.prems(4) by (simp add: mirror_inv_def files_sound_def)
    obtain a1 where run: "open_tier e k q (?a\<lparr>ap_persists := (ap_persists ?a)[k := Some q]\<rparr>) = Some a1"
      "open_tiers e [Suc k..<STORE_TIERS] a1 = Some (again, a')" using Suc.prems(6) p Some by (auto simp: up split: bind_splits)
    have "pr_path r \<noteq> pr_path q" if "j < STORE_TIERS" "j \<noteq> k" "ap_persists ?a ! j = Some r" for j r
    proof -
      have "j < k" using that Suc.prems(2) unfolding open_upto_def by simp (metis option.simps(3))
      with Suc.prems(7) that(3) base(1) have "pr_path r = open_path base j" by fastforce
      then show ?thesis using open_path_apart [OF storage_short [OF base(1)] that(1) k(1) that(2)] base(2) by simp
    qed
    then have apart: "\<forall>j < STORE_TIERS. \<forall>p. j \<noteq> k \<longrightarrow> ap_persists ?a ! j = Some p \<longrightarrow> pr_path p \<noteq> pr_path q" by blast
    note om = open_tier_mirror [OF m(2,1) k(1) q apart Suc.prems(5) run(1)]
    obtain q' where q': "ap_persists a1 = (ap_persists a)[k := Some q']" "pr_path q' = pr_path q" using om(2) by auto
    have "tier_inv (unat (st_n_metrics (ap_store a))) (st_tiers (ap_store a) ! k)"
      by (rule store_inv_tier [OF _ k(1)]) (use Suc.prems(1) in \<open>simp add: base_inv_def\<close>)
    then have u: "usable (ap_registry ?a) q" using p Some open_usable by simp
    have "base_inv (?a\<lparr>ap_persists := ap_persists ?a\<rparr>)" using m(2) by simp
    from open_tier_ok [OF this k(1) u, of e] have b1: "base_inv a1" using run(1) by auto
    have "open_upto (Suc k) a1" using Suc.prems(2) q'(1) len by (auto simp: open_upto_def nth_list_update less_Suc_eq)
    moreover have "\<forall>j < Suc k. \<exists>p base. ap_persists a1 ! j = Some p
        \<and> find_storage (ev_statvfs e) (w_file (ev_world e) ''/proc/mounts'') 256 = Some base \<and> pr_path p = open_path base j"
      using Suc.prems(7) q' base len k(1) by (auto simp: less_Suc_eq)
    ultimately show ?thesis using Suc.hyps(1) [OF k(2) b1 _ _ om(1) Suc.prems(5) run(2)] k(1) by simp
  qed
qed

section \<open>Retry and rebuild\<close>

lemma empty_times: "store_new r b w = Some s \<Longrightarrow> times_ok s"
proof -
  assume new: "store_new r b w = Some s"
  obtain s' c0 c1 c2 where 1: "store_new r b w = Some s'" "st_n_metrics s' = reg_count r"
    "st_tiers s' = [new_tier (reg_count r) 0 (max 1 b) c0, new_tier (reg_count r) 1 15 c1, new_tier (reg_count r) 2 300 c2]" by (rule store_new_ok)
  have "tier_rows n (new_tier m k v c) = []" for n m k v c by (simp add: new_tier_def tier_rows_def ring_list_def)
  with 1 new show ?thesis by (auto simp: times_ok_def three_tiers)
qed

lemma rebuild_mirror:
  assumes "base_inv a" "mirror_inv a" "rebuild_start e a = Some a'"
  shows "mirror_inv a'"
proof -
  have m: "mirror_inv (close_persistence a)" by (rule close_mirror [OF assms(1,2)])
  have up: "open_upto 0 a'" using rebuild_start_ok [OF assms(1), of e] assms(3) by auto
  have "times_ok (ap_store a')" "ap_persists a' = ap_persists (close_persistence a)" "ap_disks a' = ap_disks (close_persistence a)"
    using assms(3) empty_times by (auto simp: rebuild_start_def Let_def emit_def set_persist_path_def split: bind_splits prod.splits)
  with m up show ?thesis by (intro mirror_closed) (simp_all add: mirror_inv_def files_sound_def)
qed

lemma try_open_mirror:
  assumes "try_open_persistence es n a = Some y" "core_inv a" "mirror_inv a" "\<forall>i. sound (es i)"
  shows "mirror_inv (snd y)"
  using assms
proof (induction rule: try_open_persistence.raw_induct [rotated 1, consumes 1, case_names Call])
  case (Call f es n a y)
  have b: "base_inv a" using Call.prems(1) by (simp add: core_inv_def)
  show ?case
  proof (cases "ap_persists a ! (STORE_TIERS - 1) \<noteq> None")
    case True
    with Call.hyps Call.prems(2) show ?thesis by auto
  next
    case closed: False
    show ?thesis
    proof (cases "collector_mounts_changed (ev_world (es (2 * n))) (ap_collector a)")
      case True
      let ?b = "a\<lparr>ap_retry := False\<rparr>"
      obtain a1 again a2 where 1: "rebuild_start (es (2 * n + 1)) ?b = Some a1" "f es (n + 1) a1 = Some (again, a2)"
        "y = (False, arm_retry again a2)" using Call.hyps closed True by (auto split: bind_splits)
      have b': "base_inv ?b" "mirror_inv ?b" using b Call.prems(2) mirror_cong [of ?b a] by simp_all
      have "mirror_inv a1" by (rule rebuild_mirror [OF b' 1(1)])
      moreover have "core_inv a1" using rebuild_start_ok [OF b'(1), of "es (2 * n + 1)"] 1(1) by auto
      ultimately have "mirror_inv a2" using Call.IH [OF 1(2)] Call.prems(3) by simp
      then show ?thesis using 1(3) mirror_cong [of "arm_retry again a2" a2] by (simp add: arm_retry_def)
    next
      case False
      have up: "open_upto 0 a" using Call.prems(1) closed open_upto_last [of STORE_TIERS a] by (auto simp: core_inv_def STORE_TIERS_def)
      obtain again a' where run: "open_tiers (es (2 * n)) [0..<STORE_TIERS] a = Some (again, a')" and y: "y = (again, a')"
        using Call.hyps closed False by (cases y) auto
      have "ev_sized (es (2 * n))" using Call.prems(3) by (simp add: sound_def)
      with y show ?thesis using open_tiers_mirror [OF b up _ Call.prems(2) _ run] by simp
    qed
  qed
qed

section \<open>Runs\<close>

definition kept_files :: "app \<Rightarrow> app \<Rightarrow> bool" where
  "kept_files a b \<longleftrightarrow> ap_store b = ap_store a \<and> ap_registry b = ap_registry a \<and> ap_persists b = ap_persists a \<and> ap_disks b = ap_disks a"

lemma kept_mirror: "kept_files a b \<Longrightarrow> mirror_inv b = mirror_inv a"
  using mirror_cong [of b a] by (simp add: kept_files_def)

lemma settings_kept: "kept_files (a\<lparr>ap_params := ps\<rparr>) (apply_all_settings e (a\<lparr>ap_params := ps\<rparr>))" "kept_files a (apply_all_settings e a)"
  by (rule apply_all_eq [of e "a\<lparr>ap_params := ps\<rparr>"], simp add: kept_files_def)
    (rule apply_all_eq [of e a], simp add: kept_files_def)

lemma handle_frame:
  assumes "handle_request lib e conn hw verb path body read_only a = Some (r, a')"
  shows "kept_files a a'"
proof -
  have "kept_files a (post_settings e body a)"
    using settings_kept(1) by (simp add: post_settings_def kept_files_def Let_def split: prod.split)
  moreover have "kept_files a (post_metrics lib body a)"
    by (simp add: post_metrics_def emit_def kept_files_def Let_def split: option.split prod.split)
  moreover have "kept_files a a1" if "post_rules lib e body a = Some a1" for a1
    using that by (auto simp: post_rules_def emit_def kept_files_def split: bind_splits)
  ultimately have "leaves (kept_files a) (handle_request lib e conn hw verb path body read_only a)"
    by (intro handle_request_leaves) (simp_all add: kept_files_def)
  with assms show ?thesis by (simp add: leaves_def)
qed

lemma quiet_step_kept: "quiet_step lib a a' \<Longrightarrow> kept_files a a'"
proof (induction rule: quiet_step.induct)
  case (Answer chunks verb path body e conn hw read_only a r a')
  then have "handle_request lib e conn hw verb path body read_only a = Some (r, a')" by (simp add: on_http_request_def)
  then show ?case by (rule handle_frame)
next
  case (Parameter a e name val)
  show ?case using settings_kept(1) by (simp add: on_parameter_changed_def kept_files_def split: option.split)
qed (simp_all add: kept_files_def emit_def)

lemma step_mirror:
  assumes "app_step sound lib a a'" "running_inv a" "mirror_inv a"
  shows "mirror_inv a'"
  using assms
proof (induction rule: app_step.induct)
  case (Tick e a a')
  show ?case by (rule tick_mirror [OF Tick(3,4,1,2)])
next
  case (Retry a es k a')
  have c: "core_inv a" using Retry(5) by (simp add: running_inv_def)
  obtain again a1 where "try_open_persistence es 0 a = Some (again, a1)" "a' = (if again then a1 else a1\<lparr>ap_retry_sources := ap_retry_sources a1 - 1\<rparr>)"
    using Retry(4) by (auto simp: on_retry_timer_def split: bind_splits)
  with try_open_mirror [OF _ c Retry(6,2)] mirror_cong [of a' a1] show ?case by auto
next
  case (Quiet a a')
  then show ?case using kept_mirror [OF quiet_step_kept] by blast
qed

lemma start_mirror:
  assumes "app_new e get selected device procs version disks = Some a" "sound e" "\<forall>i. sound (es i)" "settled es k"
    "app_start lib e es a = Some a'" "\<forall>p. progressing (disks p)"
  shows "mirror_inv a'"
proof -
  obtain b where b: "app_new e get selected device procs version disks = Some b" "core_inv b" "open_upto 0 b" "\<not> ap_retry b"
    "ap_retry_sources b = 0" by (rule app_new_ok)
  have a: "core_inv a" "open_upto 0 a" "\<not> ap_retry a" "ap_retry_sources a = 0" using b assms(1) by simp_all
  have "times_ok (ap_store a)" "ap_disks a = disks" "length (ap_persists a) = STORE_TIERS"
    using assms(1) empty_times by (auto simp: app_new_def Let_def split: bind_splits prod.splits)
  then have "mirror_inv a" using a(2) assms(6) by (intro mirror_closed) (auto simp: files_sound_def distinct_paths_def open_upto_def)
  then have m: "mirror_inv (apply_all_settings e a)" using kept_mirror [OF settings_kept(2)] by simp
  obtain again a1 where 1: "try_open_persistence es 0 (apply_all_settings e a) = Some (again, a1)" "core_inv (apply_all_settings e a)"
    "running_inv (if again then a1\<lparr>ap_retry := True, ap_retry_sources := ap_retry_sources a1 + 1\<rparr> else a1)"
    by (rule app_start_open [OF a assms(4)])
  let ?a2 = "if again then a1\<lparr>ap_retry := True, ap_retry_sources := ap_retry_sources a1 + 1\<rparr> else a1"
  have "mirror_inv a1" using try_open_mirror [OF 1(1,2) m assms(3)] by simp
  moreover have "kept_files a1 ?a2" by (simp add: kept_files_def)
  ultimately have "mirror_inv ?a2" using kept_mirror by simp
  moreover have "on_sample_tick lib e ?a2 = Some a'" using assms(5) 1(1) by (simp add: app_start_def)
  ultimately show ?thesis using tick_mirror [OF 1(3) _ assms(2)] by blast
qed

lemma reachable_mirror:
  assumes "app_reachable sound disks lib a" "\<forall>p. progressing (disks p)"
  shows "mirror_inv a"
  using assms(1)
proof (induction rule: app_reachable.induct)
  case (Start e get selected device procs version a es k a')
  then show ?case by (rule start_mirror [OF _ _ _ _ _ assms(2)])
next
  case (Step a a')
  have "running_inv a" by (rule app_reachable_running [OF Step(1)]) (simp add: sound_def)
  with Step show ?case using step_mirror by blast
qed

section \<open>Shutting down\<close>

lemma close_saved_rows:
  assumes sync: "synced r cap iv (p, d)"
  shows "saved_rows (disk_file (persist_close (Some p) d)) = file_rows (unat (reg_count r)) (p, d)"
proof -
  let ?n = "unat (reg_count r)"
  have b: "file_inv ?n (p, d)" "pr_owns_file p" using sync by (simp_all add: synced_def)
  then have c: "0 \<le> pr_fd p" "unat (pr_head p) < unat (pr_capacity p)" "unat (pr_count p) \<le> unat (pr_capacity p)" "progressing d"
    "records_at ?n + unat (pr_capacity p) * (8 + ?n * 4) \<le> length (disk_file d)" "unat (pr_n_metrics p) = ?n"
    by (simp_all add: file_inv_def)
  obtain d' where d': "write_header p d = (p\<lparr>pr_appends_since_header := 0\<rparr>, d')"
    "disk_file d' = put_bytes 0 (header_bytes (saved_header p)) (disk_file d)"
    by (rule write_header_ok [OF c(4)])
  have close: "persist_close (Some p) d = d'" using b(2) c(1) d'(1) by (simp add: persist_close_def)
  note hp = header_put [OF c(5), where p = p, folded d'(2)]
  have "min (unat (pr_count p)) (unat (pr_capacity p)) = unat (pr_count p)" "0 < unat (pr_capacity p)" using c(2,3) by simp_all
  then show ?thesis using hp(3) [of _ "unat (pr_capacity p)"] c(6)
    unfolding close file_rows_def saved_rows_def hp(1) Let_def fst_conv snd_conv
    by (simp add: saved_header_def) (intro ring_list_cong, auto)
qed

lemma stop_disk:
  assumes "distinct_paths (ap_persists a)" "length (ap_persists a) = STORE_TIERS" "i < STORE_TIERS" "ap_persists a ! i = Some q"
  shows "ap_disks (app_stop a) (pr_path q) = persist_close (Some q) (ap_disks a (pr_path q))"
proof -
  have apart: "pr_path p \<noteq> pr_path q" if "j < STORE_TIERS" "j \<noteq> i" "ap_persists a ! j = Some p" for j p
    using assms that unfolding distinct_paths_def by metis
  have eq: "app_stop a = set_persist_path None (close_tier 2 (close_tier (Suc 0) (close_tier 0 b)))"
    and b: "ap_persists b = ap_persists a" "ap_disks b = ap_disks a"
    if "b = emit (map OfMqtt (mqtt_free (ap_mqtt a)))
     (a\<lparr>ap_retry_sources := (if ap_retry a then ap_retry_sources a - 1 else ap_retry_sources a), ap_influx := influx_stop (ap_influx a)\<rparr>)" for b
    using that by (simp_all add: app_stop_def close_persistence_def STORE_TIERS_def upt_rec eval_nat_numeral emit_def)
  have step: "ap_persists (close_tier j c) = (ap_persists c)[j := None]" for j c
  proof (cases "ap_persists c ! j")
    case None
    then show ?thesis using list_update_id [of "ap_persists c" j] by (simp add: close_tier_def)
  qed (simp add: close_tier_def)
  have disk: "ap_disks (close_tier j c) x = (case ap_persists c ! j of None \<Rightarrow> ap_disks c x
      | Some p \<Rightarrow> if x = pr_path p then persist_close (Some p) (ap_disks c x) else ap_disks c x)" for j c x
    by (cases "ap_persists c ! j") (simp_all add: close_tier_def)
  have "ap_disks (close_tier 2 (close_tier (Suc 0) (close_tier 0 b))) (pr_path q) = persist_close (Some q) (ap_disks a (pr_path q))"
    if "ap_persists b = ap_persists a" "ap_disks b = ap_disks a" for b
    using assms(2-4) apart [of 0] apart [of "Suc 0"] apart [of 2] that
    by (cases "i = 0"; cases "i = Suc 0"; cases "i = 2") (auto simp: three_tiers disk step split: option.split)
  then show ?thesis using eq [OF refl] b [OF refl] by (simp add: set_persist_path_def)
qed

section \<open>A card to write to\<close>

text \<open>The device of the other runs, with a memory card that can be written.\<close>

definition card_env :: env where
  "card_env = (demo_env sd_line)\<lparr>ev_statvfs := sample_statvfs\<rparr>"

lemma card_sound: "sound card_env"
  using demo_tame [of sd_line] by (simp add: sound_def tame_def card_env_def demo_env_def in_gint64_def)

lemma card_found: "find_storage (ev_statvfs card_env) (w_file (ev_world card_env) ''/proc/mounts'') 256 = Some ''/var/spool/storage/areas/SD_DISK/root''"
proof -
  have "find_storage sample_statvfs (Some sd_line) 256 = Some ''/var/spool/storage/areas/SD_DISK/root''" by code_simp
  then show ?thesis by (simp add: card_env_def demo_env_def plain_world_def)
qed

lemma card_opens: "open_tiers card_env ks a = Some (again, a') \<Longrightarrow> \<not> again"
proof (induction ks arbitrary: a)
  case (Cons i ks)
  obtain q logged where "persist_open (ev_statvfs card_env) (w_file (ev_world card_env) ''/proc/mounts'') (ev_mkdir card_env) (ev_open card_env)
      (ap_registry a) (st_tiers (ap_store a) ! i) (PERSIST_FILES ! i) (ap_absence_logged a) = (Some q, logged)"
    using card_found by (simp add: persist_open_def Let_def card_env_def demo_env_def)
  with Cons show ?case by (auto split: bind_splits)
qed simp

lemma samples_open:
  assumes "on_tier_samples calls a = Some a'" "ap_persists a ! i = Some q"
  shows "\<exists>q'. ap_persists a' ! i = Some q' \<and> pr_path q' = pr_path q"
  using assms
proof (induction calls arbitrary: a q)
  case (Cons call calls)
  obtain j row ts where call: "call = (j, row, ts)" by (cases call)
  obtain a1 where 1: "on_tier_sample call a = Some a1" "on_tier_samples calls a1 = Some a'" using Cons.prems(1) by (auto split: bind_splits)
  have "\<exists>q'. ap_persists a1 ! i = Some q' \<and> pr_path q' = pr_path q"
  proof (cases "ap_persists a ! j")
    case None
    then show ?thesis using 1(1) Cons.prems(2) by (auto simp: call on_tier_sample_def arr_get_def split: bind_splits if_splits)
  next
    case (Some p)
    have j: "j < length (ap_persists a)" using 1(1) by (auto simp: call on_tier_sample_def arr_get_def split: bind_splits if_splits)
    obtain p' d' where p: "persist_append (Some p) (ap_disks a (pr_path p)) row ts = Some (p', d')"
      "a1 = a\<lparr>ap_persists := (ap_persists a)[j := p'], ap_disks := (ap_disks a)(pr_path p := d')\<rparr>"
      using 1(1) Some j by (auto simp: call on_tier_sample_def arr_get_def split: bind_splits)
    then have "p' \<noteq> None" by (auto simp: persist_append_def Let_def split: bind_splits if_splits prod.splits)
    then obtain p'' where "p' = Some p''" "pr_path p'' = pr_path p" using append_path p(1) by blast
    with p(2) j Some Cons.prems(2) show ?thesis by (cases "i = j") simp_all
  qed
  with Cons.IH [OF 1(2)] show ?case by metis
qed simp

lemma tick_open:
  assumes "on_sample_tick lib e a = Some a'" "ap_persists a ! i = Some q"
  shows "\<exists>q'. ap_persists a' ! i = Some q' \<and> pr_path q' = pr_path q"
  by (rule tick_parts [OF assms(1)]) (use samples_open assms(2) in fastforce)

lemma tick_stores:
  assumes "running_inv a" "sound e" "on_sample_tick lib e a = Some a'"
  shows "\<exists>row. (ev_time e, row) \<in> set (store_rows (ap_store a') 0)"
    "tier_interval_s (st_tiers (ap_store a') ! 0) = tier_interval_s (st_tiers (ap_store a) ! 0)"
proof -
  have b: "base_inv a" using assms(1) by (simp add: running_inv_def core_inv_def)
  obtain c buffer s calls a1 where
    1: "collector_sample (ev_world e) (ev_mono e) (ap_registry a) (ap_collector a) (ap_buffer a) = Some (c, buffer)"
      "store_push (ap_store a) buffer (ev_time e) = Some (s, calls)"
      "on_tier_samples calls (a\<lparr>ap_collector := c, ap_buffer := buffer, ap_store := s\<rparr>) = Some a1" "ap_store a1 = s" "ap_store a' = ap_store a1"
    by (rule tick_parts [OF assms(3)])
  note n = sampled_row [OF b assms(2) 1(1)]
  let ?n = "unat (st_n_metrics (ap_store a))"
  obtain s' t0 t1 t2 t0' t1' t2' ps1 ps2 where p: "store_push (ap_store a) buffer (ev_time e) = Some (s', callback_of t0 (take ?n buffer) (ev_time e) @ ps1 @ ps2)"
    "st_n_metrics s' = st_n_metrics (ap_store a)" "st_tiers (ap_store a) = [t0, t1, t2]" "st_tiers s' = [t0', t1', t2']"
    "tier_rows ?n t0' = lastn (tier_cap t0) (tier_rows ?n t0 @ [(ev_time e, take ?n buffer)])" "tier_interval_s t0' = tier_interval_s t0"
    by (rule store_push_ok [OF n(1,3)])
  have "0 < tier_cap t0" using store_inv_tier [OF n(1), of 0] p(3) by (simp add: tier_inv_def tier_cap_def STORE_TIERS_def)
  then have "(ev_time e, take ?n buffer) \<in> set (tier_rows ?n t0')" by (simp add: p(5) lastn_def Suc_leI)
  moreover have "s' = s" using p(1) 1(2) by simp
  ultimately show "\<exists>row. (ev_time e, row) \<in> set (store_rows (ap_store a') 0)"
    "tier_interval_s (st_tiers (ap_store a') ! 0) = tier_interval_s (st_tiers (ap_store a) ! 0)"
    using p(2-4,6) 1(4,5) by auto
qed

lemma card_started:
  obtains b b1 where "app_new card_env (\<lambda>_. None) None no_device demo_procs ''1'' disks = Some b"
    "open_tiers card_env [0..<STORE_TIERS] (apply_all_settings card_env b) = Some (False, b1)"
    "try_open_persistence (\<lambda>_. card_env) 0 (apply_all_settings card_env b) = Some (False, b1)"
    "core_inv (apply_all_settings card_env b)" "open_upto 0 (apply_all_settings card_env b)" "running_inv b1" "open_upto STORE_TIERS b1"
proof -
  let ?es = "\<lambda>_. card_env"
  obtain b where 1: "app_new card_env (\<lambda>_. None) None no_device demo_procs ''1'' disks = Some b" "core_inv b" "open_upto 0 b"
    "\<not> ap_retry b" "ap_retry_sources b = 0" "\<not> collector_mounts_changed (ev_world card_env) (ap_collector b)" by (rule app_new_ok)
  let ?b = "apply_all_settings card_env b"
  have s: "settled ?es 0" by (simp add: settled_def)
  obtain again b1 where 2: "try_open_persistence ?es 0 ?b = Some (again, b1)" "core_inv ?b"
    "running_inv (if again then b1\<lparr>ap_retry := True, ap_retry_sources := ap_retry_sources b1 + 1\<rparr> else b1)"
    by (rule app_start_open [OF 1(2-5) s])
  have c: "ap_collector ?b = ap_collector b" by (rule apply_all_eq [of card_env b]) simp
  have p: "ap_persists ?b = ap_persists b" using settings_kept(2) by (simp add: kept_files_def)
  then have up: "open_upto 0 ?b" using 1(3) by (simp add: open_upto_def)
  have run: "open_tiers card_env [0..<STORE_TIERS] ?b = Some (again, b1)"
    using c p 1(6) 2(1) open_upto_last [OF 1(3)] try_open_persistence.simps [of ?es 0 ?b] by simp
  then have again: "\<not> again" by (rule card_opens)
  have "base_inv ?b" using 2(2) by (simp add: core_inv_def)
  from open_tiers_ok [OF this up, of card_env] run again have "open_upto STORE_TIERS b1" by (auto simp: opened_to_def)
  with 1(1) run 2 up again show thesis by (intro that) simp_all
qed

lemma card_reachable:
  assumes "app_new card_env (\<lambda>_. None) None no_device demo_procs ''1'' disks = Some b"
    "try_open_persistence (\<lambda>_. card_env) 0 (apply_all_settings card_env b) = Some (False, b1)" "running_inv b1"
  obtains a where "on_sample_tick demo_library card_env b1 = Some a" "app_reachable sound disks demo_library a"
proof -
  have "tame card_env" using card_sound by (simp add: sound_def)
  then obtain a where a: "on_sample_tick demo_library card_env b1 = Some a" by (rule tick_ok [OF assms(3)])
  then have "app_start demo_library card_env (\<lambda>_. card_env) b = Some a" using assms(2) by (simp add: app_start_def)
  then have "app_reachable sound disks demo_library a"
    using assms(1) card_sound by (intro app_reachable.Start [where k = 0]) (auto simp: settled_def)
  with a show thesis by (rule that)
qed

section \<open>Properties\<close>

text \<open>C6: in every run on storage whose writes do not fail, whatever its ticks, retries, rebuilds, requests
  and settings, each open history file holds exactly the samples its tier holds in memory, with fewer than
  60 appends not yet in its header, and the file that shutting down leaves is read back as exactly those
  samples.\<close>

theorem files_mirror_tiers:
  assumes "app_reachable sound disks lib a" "\<forall>p. progressing (disks p)" "i < STORE_TIERS" "ap_persists a ! i = Some q"
  shows "file_rows (unat (reg_count (ap_registry a))) (q, ap_disks a (pr_path q)) = store_rows (ap_store a) i
    \<and> unat (pr_appends_since_header q) < 60
    \<and> saved_rows (disk_file (ap_disks (app_stop a) (pr_path q))) = store_rows (ap_store a) i"
proof -
  have m: "mirror_inv a" by (rule reachable_mirror [OF assms(1,2)])
  then have s: "synced (ap_registry a) (tier_capacity (st_tiers (ap_store a) ! i)) (tier_interval_s (st_tiers (ap_store a) ! i)) (q, ap_disks a (pr_path q))"
    "file_rows (unat (reg_count (ap_registry a))) (q, ap_disks a (pr_path q)) = store_rows (ap_store a) i"
    using assms(3,4) by (auto simp: mirror_inv_def mirrors_def file_has_def)
  have "ap_disks (app_stop a) (pr_path q) = persist_close (Some q) (ap_disks a (pr_path q))"
    by (rule stop_disk) (use m assms(3,4) in \<open>simp_all add: mirror_inv_def files_sound_def\<close>)
  with s close_saved_rows [OF s(1)] show ?thesis by (simp add: synced_def)
qed

theorem files_mirror_tiers_witness:
  "\<exists>a q. ap_persists a ! 0 = Some q \<and> store_rows (ap_store a) 0 \<noteq> []
    \<and> file_rows (unat (reg_count (ap_registry a))) (q, ap_disks a (pr_path q)) = store_rows (ap_store a) 0
    \<and> saved_rows (disk_file (ap_disks (app_stop a) (pr_path q))) = store_rows (ap_store a) 0"
proof -
  let ?d = "\<lambda>_. \<lparr>disk_file = [], disk_calls = [7, 1]\<rparr>"
  obtain b b1 where 1: "app_new card_env (\<lambda>_. None) None no_device demo_procs ''1'' ?d = Some b"
    "try_open_persistence (\<lambda>_. card_env) 0 (apply_all_settings card_env b) = Some (False, b1)" "running_inv b1" "open_upto STORE_TIERS b1"
    by (rule card_started)
  obtain a where a: "on_sample_tick demo_library card_env b1 = Some a" "app_reachable sound ?d demo_library a" by (rule card_reachable [OF 1(1-3)])
  have "ap_persists b1 ! 0 \<noteq> None" using 1(4) by (simp add: open_upto_def STORE_TIERS_def)
  then obtain q where q: "ap_persists a ! 0 = Some q" using tick_open [OF a(1)] by fast
  have "store_rows (ap_store a) 0 \<noteq> []" using tick_stores(1) [OF 1(3) card_sound a(1)] by auto
  with files_mirror_tiers [OF a(2) _ _ q] q show ?thesis by (auto simp: progressing_def STORE_TIERS_def)
qed

end
