(* ===== verification/AppRestart.thy ===== *)
theory AppRestart
  imports AppMirror PersistProps
begin

text \<open>
  A restart: the history that shutting down leaves in the files is what the next run finds in its tiers
  when it opens the same files.
\<close>

section \<open>Opening one tier\<close>

text \<open>What is read off a tier, whatever its place in the ring.\<close>

definition tier_view :: "app \<Rightarrow> nat \<Rightarrow> metric_registry \<times> (gint64 \<times> gfloat list) list \<times> guint \<times> guint" where
  "tier_view a i = (ap_registry a, store_rows (ap_store a) i, tier_capacity (st_tiers (ap_store a) ! i), tier_interval_s (st_tiers (ap_store a) ! i))"

lemma loads_tier:
  assumes "store_inv s" "loads k s s'" "j < STORE_TIERS"
  shows "tier_capacity (st_tiers s' ! j) = tier_capacity (st_tiers s ! j)" "tier_interval_s (st_tiers s' ! j) = tier_interval_s (st_tiers s ! j)"
proof -
  have "length (st_tiers s) = STORE_TIERS" "length (st_tiers s') = STORE_TIERS" "shape s' = shape s"
    using assms(1,2) by (simp_all add: store_inv_def loads_def)
  then have "(tier_capacity (st_tiers s' ! j), tier_interval_s (st_tiers s' ! j)) = (tier_capacity (st_tiers s ! j), tier_interval_s (st_tiers s ! j))"
    using assms(3) unfolding shape_def by (metis (no_types, lifting) nth_map)
  then show "tier_capacity (st_tiers s' ! j) = tier_capacity (st_tiers s ! j)" "tier_interval_s (st_tiers s' ! j) = tier_interval_s (st_tiers s ! j)"
    by simp_all
qed

lemma open_tier_effect:
  assumes a: "base_inv a" and k: "k < STORE_TIERS" and q: "opened_for (ap_registry a) (st_tiers (ap_store a) ! k) q"
    and prog: "progressing (ap_disks a (pr_path q))"
    and run: "open_tier e k q (a\<lparr>ap_persists := (ap_persists a)[k := Some q]\<rparr>) = Some a1"
  obtains s1 q' where "base_inv a1" "loads k (ap_store a) s1" "ap_store a1 = store_set_tier_callback s1 k (Some k)" "ap_registry a1 = ap_registry a"
    "ap_persists a1 = (ap_persists a)[k := Some q']" "pr_path q' = pr_path q" "\<forall>x. x \<noteq> pr_path q \<longrightarrow> ap_disks a1 x = ap_disks a x"
    "store_tier_count (ap_store a) k = 0 \<longrightarrow> (\<exists>m d1. persist_load (Some q) (ap_disks a (pr_path q)) (ap_store a) k = Some (m, s1, d1))"
proof -
  let ?s = "ap_store a" and ?r = "ap_registry a" and ?t = "st_tiers (ap_store a) ! k" and ?ps = "ap_persists a"
  have s: "store_inv ?s" "st_registry ?s = ?r" "st_n_metrics ?s = reg_count ?r" using a by (simp_all add: base_inv_def)
  obtain m s1 d1 p d2 where 1: "(if store_tier_count ?s k = 0 then persist_load (Some q) (ap_disks a (pr_path q)) ?s k
      else Some (0, ?s, ap_disks a (pr_path q))) = Some (m, s1, d1)" "persist_sync (Some q) (ev_sized e) d1 s1 k = Some (p, d2)"
    "a1 = a\<lparr>ap_store := store_set_tier_callback s1 k (Some k), ap_persists := ?ps[k := p], ap_disks := (ap_disks a)(pr_path q := d2)\<rparr>"
    using run by (cases "store_tier_count ?s k = 0") (auto simp: open_tier_def split: bind_splits)
  have l: "loads k ?s s1" using 1(1) persist_load_loads [OF _ s(1) k prog] loads_refl [OF s(1)] by (auto split: if_splits)
  then have s1: "store_inv s1" "st_registry s1 = ?r" "st_n_metrics s1 = reg_count ?r" using s by (simp_all add: loads_def same_store_def)
  have "0 < unat (tier_capacity ?t)" using store_inv_tier [OF s(1) k] by (simp add: tier_inv_def)
  then have u: "usable (st_registry s1) q" "usable (ap_registry a) q" using q s1(2) by (simp_all add: opened_for_def usable_def)
  obtain q' where p: "p = Some q'" "pr_path q' = pr_path q" using usable_sync [OF u(1) s1(1) k, of "ev_sized e" d1] s1(2,3) 1(2) by auto
  have "base_inv (a\<lparr>ap_persists := ?ps\<rparr>)" using a by simp
  from open_tier_ok [OF this k u(2), of e] run have b1: "base_inv a1" by auto
  show thesis by (rule that [OF b1 l, of q']) (use 1 p in auto)
qed

lemma effect_view:
  assumes "store_inv s" "loads k s s1" "ap_store a = s" "k < STORE_TIERS" "j < STORE_TIERS"
    "ap_store a1 = store_set_tier_callback s1 k (Some k)" "ap_registry a1 = ap_registry a"
  shows "j \<noteq> k \<Longrightarrow> tier_view a1 j = tier_view a j"
    "tier_view a1 j = (ap_registry a, store_rows s1 j, tier_capacity (st_tiers s ! j), tier_interval_s (st_tiers s ! j))"
proof -
  have "store_inv s1" using assms(2) by (simp add: loads_def)
  note cb = set_callback_tiers [OF this assms(4,5), of "Some k"] and t = loads_tier [OF assms(1,2,5)]
  show v: "tier_view a1 j = (ap_registry a, store_rows s1 j, tier_capacity (st_tiers s ! j), tier_interval_s (st_tiers s ! j))"
    using assms(6,7) by (simp add: tier_view_def cb t)
  show "tier_view a1 j = tier_view a j" if "j \<noteq> k"
    unfolding v using assms(2,3,5) that by (simp add: tier_view_def loads_def same_store_def)
qed

section \<open>Opening the tiers\<close>

definition storage_base :: "env \<Rightarrow> string option" where
  "storage_base e = find_storage (ev_statvfs e) (w_file (ev_world e) ''/proc/mounts'') 256"

text \<open>The files of the tiers that are still to be opened can be read.\<close>

definition readable :: "string \<Rightarrow> nat list \<Rightarrow> app \<Rightarrow> bool" where
  "readable base ks a \<longleftrightarrow> distinct ks \<and> set ks \<subseteq> {..<STORE_TIERS} \<and> (\<forall>k \<in> set ks. progressing (ap_disks a (open_path base k)))"

lemma open_tiers_step:
  assumes a: "base_inv a" and b: "storage_base e = Some base" and r: "readable base (k # ks) a"
    and run: "open_tiers e (k # ks) a = Some (False, a')"
  obtains a1 s1 q q' where "base_inv a1" "open_tiers e ks a1 = Some (False, a')" "loads k (ap_store a) s1"
    "ap_store a1 = store_set_tier_callback s1 k (Some k)" "ap_registry a1 = ap_registry a"
    "ap_persists a1 = (ap_persists a)[k := Some q']" "pr_path q' = open_path base k" "readable base ks a1"
    "\<forall>j < STORE_TIERS. j \<noteq> k \<longrightarrow> ap_disks a1 (open_path base j) = ap_disks a (open_path base j)"
    "opened_for (ap_registry a) (st_tiers (ap_store a) ! k) q"
    "store_tier_count (ap_store a) k = 0 \<longrightarrow> (\<exists>m d1. persist_load (Some q) (ap_disks a (open_path base k)) (ap_store a) k = Some (m, s1, d1))"
proof -
  obtain p logged where p: "persist_open (ev_statvfs e) (w_file (ev_world e) ''/proc/mounts'') (ev_mkdir e) (ev_open e)
      (ap_registry a) (st_tiers (ap_store a) ! k) (PERSIST_FILES ! k) (ap_absence_logged a) = (p, logged)" by force
  let ?a = "a\<lparr>ap_absence_logged := logged\<rparr>"
  have k: "k < STORE_TIERS" using r by (simp add: readable_def)
  obtain q a1 where q: "p = Some q" "open_tier e k q (?a\<lparr>ap_persists := (ap_persists ?a)[k := Some q]\<rparr>) = Some a1" "open_tiers e ks a1 = Some (False, a')"
    using run p by (cases p) (auto split: bind_splits)
  have path: "pr_path q = open_path base k" using opened_path p q(1) b by (fastforce simp: storage_base_def)
  have op: "opened_for (ap_registry ?a) (st_tiers (ap_store ?a) ! k) q" using persist_open_fields p q(1) by simp
  have a': "base_inv ?a" "progressing (ap_disks ?a (pr_path q))" using a r path by (simp_all add: readable_def)
  obtain s1 q' where e1: "base_inv a1" "loads k (ap_store ?a) s1" "ap_store a1 = store_set_tier_callback s1 k (Some k)" "ap_registry a1 = ap_registry ?a"
    "ap_persists a1 = (ap_persists ?a)[k := Some q']" "pr_path q' = pr_path q" "\<forall>x. x \<noteq> pr_path q \<longrightarrow> ap_disks a1 x = ap_disks ?a x"
    "store_tier_count (ap_store ?a) k = 0 \<longrightarrow> (\<exists>m d1. persist_load (Some q) (ap_disks ?a (pr_path q)) (ap_store ?a) k = Some (m, s1, d1))"
    by (rule open_tier_effect [OF a'(1) k op a'(2) q(2)])
  note 1 = e1 [simplified]
  have apart: "open_path base j \<noteq> pr_path q" if "j < STORE_TIERS" "j \<noteq> k" for j
    unfolding path by (rule open_path_apart [OF _ that(1) k that(2)]) (use b storage_short in \<open>auto simp: storage_base_def\<close>)
  with 1(7) have d: "\<forall>j < STORE_TIERS. j \<noteq> k \<longrightarrow> ap_disks a1 (open_path base j) = ap_disks a (open_path base j)"
    by blast
  have "progressing (ap_disks a1 (open_path base j))" if j: "j \<in> set ks" for j
  proof -
    have "j < STORE_TIERS" "j \<noteq> k" using r j by (auto simp: readable_def)
    with d r j show ?thesis by (simp add: readable_def)
  qed
  then have "readable base ks a1" using r by (simp add: readable_def)
  with 1 q(3) path op d show thesis by (intro that) simp_all
qed

lemma open_tiers_frame:
  assumes "open_tiers e ks a = Some (False, a')" "base_inv a" "storage_base e = Some base" "readable base ks a" "i < STORE_TIERS" "i \<notin> set ks"
  shows "tier_view a' i = tier_view a i \<and> ap_persists a' ! i = ap_persists a ! i"
  using assms
proof (induction ks arbitrary: a)
  case Nil
  then show ?case by (auto simp: tier_view_def set_persist_path_def)
next
  case (Cons k ks)
  have s: "store_inv (ap_store a)" using Cons.prems(2) by (simp add: base_inv_def)
  obtain a1 s1 q' where 1: "base_inv a1" "open_tiers e ks a1 = Some (False, a')" "loads k (ap_store a) s1"
    "ap_store a1 = store_set_tier_callback s1 k (Some k)" "ap_registry a1 = ap_registry a"
    "ap_persists a1 = (ap_persists a)[k := Some q']" "readable base ks a1"
    by (rule open_tiers_step [OF Cons.prems(2,3,4,1)])
  have k: "k < STORE_TIERS" "i \<noteq> k" using Cons.prems(4,6) by (auto simp: readable_def)
  have "tier_view a1 i = tier_view a i" by (rule effect_view(1) [OF s 1(3) refl k(1) Cons.prems(5) 1(4,5) k(2)])
  moreover have "ap_persists a1 ! i = ap_persists a ! i" using 1(6) k(2) by simp
  ultimately show ?case using Cons.IH [OF 1(2,1) Cons.prems(3) 1(7) Cons.prems(5)] Cons.prems(6) by simp
qed

lemma open_tiers_restores:
  assumes "open_tiers e ks a = Some (False, a')" "base_inv a" "storage_base e = Some base" "readable base ks a" "i \<in> set ks"
    and "store_rows (ap_store a) i = []" "f = disk_file (ap_disks a (open_path base i))"
  shows "(\<exists>q. ap_persists a' ! i = Some q \<and> pr_path q = open_path base i) \<and> ap_registry a' = ap_registry a
    \<and> tier_capacity (st_tiers (ap_store a') ! i) = tier_capacity (st_tiers (ap_store a) ! i)
    \<and> tier_interval_s (st_tiers (ap_store a') ! i) = tier_interval_s (st_tiers (ap_store a) ! i)
    \<and> (file_ok (tier_interval_s (st_tiers (ap_store a) ! i)) f \<longrightarrow> distinct (reg_ids (ap_registry a)) \<longrightarrow>
      store_rows (ap_store a') i = lastn (tier_cap (st_tiers (ap_store a) ! i))
        (map (remapped (ap_registry a) (saved_ids f)) (filter (\<lambda>r. 0 < fst r) (saved_rows f))))"
  using assms
proof (induction ks arbitrary: a)
  case (Cons k ks)
  have s: "store_inv (ap_store a)" "st_registry (ap_store a) = ap_registry a" "st_n_metrics (ap_store a) = reg_count (ap_registry a)"
    "reg_inv (ap_registry a)" using Cons.prems(2) by (simp_all add: base_inv_def)
  obtain a1 s1 q q' where 1: "base_inv a1" "open_tiers e ks a1 = Some (False, a')" "loads k (ap_store a) s1"
    "ap_store a1 = store_set_tier_callback s1 k (Some k)" "ap_registry a1 = ap_registry a"
    "ap_persists a1 = (ap_persists a)[k := Some q']" "pr_path q' = open_path base k" "readable base ks a1"
    "\<forall>j < STORE_TIERS. j \<noteq> k \<longrightarrow> ap_disks a1 (open_path base j) = ap_disks a (open_path base j)"
    "opened_for (ap_registry a) (st_tiers (ap_store a) ! k) q"
    "store_tier_count (ap_store a) k = 0 \<longrightarrow> (\<exists>m d1. persist_load (Some q) (ap_disks a (open_path base k)) (ap_store a) k = Some (m, s1, d1))"
    by (rule open_tiers_step [OF Cons.prems(2,3,4,1)])
  have k: "k < STORE_TIERS" "k \<notin> set ks" and i: "i < STORE_TIERS" using Cons.prems(4,5) by (auto simp: readable_def)
  show ?case
  proof (cases "i = k")
    case True
    let ?t = "st_tiers (ap_store a) ! k"
    have "store_tier_count (ap_store a) k = 0" using Cons.prems(6) True
      by (simp add: store_tier_count_def tier_rows_def flip: length_0_conv) (simp add: unat_eq_0)
    then obtain m d1 where load: "persist_load (Some q) (ap_disks a (open_path base k)) (ap_store a) k = Some (m, s1, d1)" using 1(11) by blast
    have rows: "store_rows s1 k = lastn (tier_cap ?t) (map (remapped (ap_registry a) (saved_ids f)) (filter (\<lambda>r. 0 < fst r) (saved_rows f)))"
      if f: "file_ok (tier_interval_s ?t) f" "distinct (reg_ids (ap_registry a))"
    proof -
      have ok: "file_ok (pr_interval_s q) (disk_file (ap_disks a (open_path base k)))" using Cons.prems(7) f(1) True 1(10) by (simp add: opened_for_def)
      have "progressing (ap_disks a (open_path base k))" "reg_inv (st_registry (ap_store a))" "distinct (reg_ids (st_registry (ap_store a)))"
        "reg_count (st_registry (ap_store a)) = st_n_metrics (ap_store a)"
        using Cons.prems(4) f(2) s by (simp_all add: readable_def)
      from persist_load_ok [OF ok this(1) s(1) k(1) this(2-4)] load Cons.prems(6,7) True s(2) show ?thesis by auto
    qed
    have "tier_view a1 k = (ap_registry a, store_rows s1 k, tier_capacity ?t, tier_interval_s ?t)"
      by (rule effect_view(2) [OF s(1) 1(3) refl k(1) k(1) 1(4,5)])
    moreover have "length (ap_persists a) = STORE_TIERS" using Cons.prems(2) by (simp add: base_inv_def files_inv_def)
    moreover note open_tiers_frame [OF 1(2,1) Cons.prems(3) 1(8) k]
    ultimately show ?thesis using rows True 1(6,7) k(1) by (simp add: tier_view_def)
  next
    case False
    have v: "tier_view a1 i = tier_view a i" by (rule effect_view(1) [OF s(1) 1(3) refl k(1) i 1(4,5) False])
    have "i \<in> set ks" "f = disk_file (ap_disks a1 (open_path base i))" using Cons.prems(5,7) False 1(9) i by simp_all
    with Cons.IH [OF 1(2,1) Cons.prems(3) 1(8)] Cons.prems(6) v show ?thesis by (simp add: tier_view_def tier_cap_def)
  qed
qed simp

section \<open>The next run\<close>

lemma open_tiers_base:
  assumes "open_tiers e (k # ks) a = Some (False, a')"
  shows "\<exists>base. storage_base e = Some base"
proof (cases "storage_base e")
  case None
  then show ?thesis using assms by (simp add: storage_base_def persist_open_def)
qed simp

lemma store_new_empty:
  assumes "store_new r b w = Some s" "i < STORE_TIERS"
  shows "store_rows s i = []"
proof -
  obtain s' c0 c1 c2 where 1: "store_new r b w = Some s'" "st_n_metrics s' = reg_count r"
    "st_tiers s' = [new_tier (reg_count r) 0 (max 1 b) c0, new_tier (reg_count r) 1 15 c1, new_tier (reg_count r) 2 300 c2]" by (rule store_new_ok)
  have "tier_rows n (new_tier m k v c) = []" for n m k v c by (simp add: new_tier_def tier_rows_def ring_list_def)
  with 1 assms show ?thesis by (auto simp: three_tiers)
qed

lemma close_closed_disks:
  assumes "open_upto 0 a"
  shows "ap_disks (close_persistence a) = ap_disks a"
proof -
  have none: "ap_persists a ! 0 = None" "ap_persists a ! Suc 0 = None" "ap_persists a ! 2 = None"
    using assms by (simp_all add: open_upto_def STORE_TIERS_def)
  then show ?thesis by (simp add: close_persistence_def close_tier_def set_persist_path_def STORE_TIERS_def upt_rec eval_nat_numeral)
qed

lemma rebuild_fresh:
  assumes "rebuild_start e a = Some a'" "open_upto 0 a" "i < STORE_TIERS"
  shows "store_rows (ap_store a') i = []" "ap_disks a' = ap_disks a"
  using assms close_closed_disks [OF assms(2)] store_new_empty
  by (auto simp: rebuild_start_def Let_def emit_def set_persist_path_def split: bind_splits prod.splits)

lemma close_tier_progress: "\<forall>p. progressing (ap_disks a p) \<Longrightarrow> \<forall>p. progressing (ap_disks (close_tier i a) p)"
  by (simp add: close_tier_def close_progress split: option.split)

lemma stop_progress:
  assumes "\<forall>p. progressing (ap_disks a p)"
  shows "\<forall>p. progressing (ap_disks (app_stop a) p)"
proof -
  have "\<forall>p. progressing (ap_disks (fold close_tier is a) p)" if "\<forall>p. progressing (ap_disks a p)" for a "is"
    using that by (induction "is" arbitrary: a) (simp_all add: close_tier_progress)
  with assms show ?thesis by (simp add: app_stop_def close_persistence_def set_persist_path_def emit_def)
qed

text \<open>Whatever mounts come and go while the history is opened, the file that is opened in the end is restored.\<close>

lemma try_open_restores:
  assumes "try_open_persistence es n a = Some y" "core_inv a" "open_upto 0 a" "\<forall>p. progressing (ap_disks a p)"
    and "i < STORE_TIERS" "store_rows (ap_store a) i = []" "f = disk_file (ap_disks a (pr_path q))"
    and "ap_persists (snd y) ! i = Some q"
    and "file_ok (tier_interval_s (st_tiers (ap_store (snd y)) ! i)) f" "distinct (reg_ids (ap_registry (snd y)))"
  shows "store_rows (ap_store (snd y)) i = lastn (tier_cap (st_tiers (ap_store (snd y)) ! i))
    (map (remapped (ap_registry (snd y)) (saved_ids f)) (filter (\<lambda>r. 0 < fst r) (saved_rows f)))"
  using assms
proof (induction rule: try_open_persistence.raw_induct [rotated 1, consumes 1, case_names Call])
  case (Call g es n a y)
  have b: "base_inv a" using Call.prems(1) by (simp add: core_inv_def)
  have closed: "ap_persists a ! (STORE_TIERS - 1) = None" using open_upto_last [OF Call.prems(2)] by simp
  show ?case
  proof (cases "collector_mounts_changed (ev_world (es (2 * n))) (ap_collector a)")
    case True
    let ?b = "a\<lparr>ap_retry := False\<rparr>"
    obtain a1 again a2 where 1: "rebuild_start (es (2 * n + 1)) ?b = Some a1" "g es (n + 1) a1 = Some (again, a2)"
      "y = (False, arm_retry again a2)" using Call.hyps closed True by (auto split: bind_splits)
    have b': "base_inv ?b" "open_upto 0 ?b" using b Call.prems(2) by (simp_all add: open_upto_def)
    have c: "core_inv a1" "open_upto 0 a1" using rebuild_start_ok [OF b'(1), of "es (2 * n + 1)"] 1(1) by auto
    note fresh = rebuild_fresh [OF 1(1) b'(2) Call.prems(4)]
    have same: "ap_persists (arm_retry again a2) = ap_persists a2" "ap_store (arm_retry again a2) = ap_store a2"
      "ap_registry (arm_retry again a2) = ap_registry a2" by (simp_all add: arm_retry_def)
    show ?thesis using Call.IH [OF 1(2) c _ Call.prems(4) fresh(1)] Call.prems(3,6-9) fresh(2) by (simp add: 1(3) same)
  next
    case False
    have run: "open_tiers (es (2 * n)) [0..<STORE_TIERS] a = Some y" using Call.hyps closed False by (cases y) auto
    obtain again a' where y: "y = (again, a')" by (cases y)
    have "\<not> again"
      using open_tiers_ok [OF b Call.prems(2), of "es (2 * n)"] run y Call.prems(4,7) by (auto simp: opened_to_def open_upto_def)
    then have r: "open_tiers (es (2 * n)) [0..<STORE_TIERS] a = Some (False, a')" using run y by simp
    have up: "[0..<STORE_TIERS] = 0 # [1..<STORE_TIERS]" by (simp add: STORE_TIERS_def upt_conv_Cons)
    then obtain base where base: "storage_base (es (2 * n)) = Some base" using open_tiers_base r by metis
    have "readable base [0..<STORE_TIERS] a" "i \<in> set [0..<STORE_TIERS]" using Call.prems(3,4) by (auto simp: readable_def)
    from open_tiers_restores [OF r b base this Call.prems(5) refl] Call.prems(6-9)
    show ?thesis by (auto simp: y tier_cap_def)
  qed
qed

section \<open>Properties\<close>

text \<open>C7: The history survives a restart. When the program is shut down and the next run opens the same
  file for a tier of the same interval, the tier holds the newest samples the old one had, as many as
  fit, every value under the id of its metric (NaN where the metric is new), whatever storage appears or
  goes while the next run opens its history; on an unchanged device it holds exactly the old samples.\<close>

theorem history_survives_restart:
  assumes run: "app_reachable sound disks lib a" "\<forall>p. progressing (disks p)" "i < STORE_TIERS" "ap_persists a ! i = Some q"
    and ids: "ids_ok (ap_registry a)" "0 < unat (reg_count (ap_registry a))" "unat (reg_count (ap_registry a)) \<le> 100000"
    and start: "app_new e get selected device procs version (ap_disks (app_stop a)) = Some b"
      "try_open_persistence es 0 (apply_all_settings e b) = Some (again, b1)"
    and same: "ap_persists b1 ! i = Some q1" "pr_path q1 = pr_path q" "distinct (reg_ids (ap_registry b1))"
      "tier_interval_s (st_tiers (ap_store b1) ! i) = tier_interval_s (st_tiers (ap_store a) ! i)"
  shows "store_rows (ap_store b1) i = lastn (tier_cap (st_tiers (ap_store b1) ! i))
      (map (remapped (ap_registry b1) (reg_ids (ap_registry a))) (filter (\<lambda>r. 0 < fst r) (store_rows (ap_store a) i)))
    \<and> (reg_ids (ap_registry b1) = reg_ids (ap_registry a) \<and> tier_capacity (st_tiers (ap_store b1) ! i) = tier_capacity (st_tiers (ap_store a) ! i)
        \<and> (\<forall>r \<in> set (store_rows (ap_store a) i). 0 < fst r) \<longrightarrow> store_rows (ap_store b1) i = store_rows (ap_store a) i)"
proof -
  let ?r = "ap_registry a" and ?d = "ap_disks a (pr_path q)"
  have m: "mirror_inv a" by (rule reachable_mirror [OF run(1,2)])
  then have s: "synced ?r (tier_capacity (st_tiers (ap_store a) ! i)) (tier_interval_s (st_tiers (ap_store a) ! i)) (q, ?d)"
    "file_rows (unat (reg_count ?r)) (q, ?d) = store_rows (ap_store a) i"
    using run(3,4) by (auto simp: mirror_inv_def mirrors_def file_has_def)
  have base: "base_inv a" using app_reachable_running [OF run(1)] by (simp add: sound_def running_inv_def core_inv_def)
  then have r: "reg_inv ?r" and st: "store_inv (ap_store a)" "st_n_metrics (ap_store a) = reg_count ?r"
    by (simp_all add: base_inv_def)
  note c = persist_close_ok [OF s(1) r ids]
  have disk: "ap_disks (app_stop a) (pr_path q) = persist_close (Some q) ?d"
    by (rule stop_disk) (use m run(3,4) in \<open>simp_all add: mirror_inv_def files_sound_def\<close>)
  have prog: "\<forall>p. progressing (ap_disks (app_stop a) p)" using m by (intro stop_progress) (simp add: mirror_inv_def files_sound_def)
  obtain b' where b': "app_new e get selected device procs version (ap_disks (app_stop a)) = Some b'" "core_inv b'" "open_upto 0 b'" by (rule app_new_ok)
  then have b: "core_inv b" "open_upto 0 b" using start(1) by simp_all
  have bs: "ap_disks b = ap_disks (app_stop a)" "store_rows (ap_store b) i = []"
    using start(1) store_new_empty [OF _ run(3)] by (auto simp: app_new_def Let_def split: bind_splits prod.splits)
  let ?b = "apply_all_settings e b"
  have kept: "kept_files b ?b" by (rule settings_kept(2))
  have core: "core_inv ?b" using apply_all_ok [of b e] b(1) core_inv_cong(1) [OF b(1)] by (simp add: core_inv_def)
  let ?f = "disk_file (persist_close (Some q) ?d)"
  have rows: "store_rows (ap_store b1) i = lastn (tier_cap (st_tiers (ap_store b1) ! i))
      (map (remapped (ap_registry b1) (saved_ids ?f)) (filter (\<lambda>r. 0 < fst r) (saved_rows ?f)))"
    using try_open_restores [OF start(2) core _ _ run(3), of ?f q1] kept bs b(2) prog same c(1) disk
    by (simp add: kept_files_def open_upto_def)
  have "lastn (tier_cap (st_tiers (ap_store a) ! i)) (store_rows (ap_store a) i) = store_rows (ap_store a) i"
    using rows_fit [OF st(1) run(3)] by (simp add: tier_cap_def)
  moreover have "map (remapped (ap_registry b1) (reg_ids ?r)) (store_rows (ap_store a) i) = store_rows (ap_store a) i"
    if "reg_ids (ap_registry b1) = reg_ids ?r"
  proof (rule map_idI)
    fix x assume "x \<in> set (store_rows (ap_store a) i)"
    then have "length (snd x) = length (reg_ids (ap_registry b1))"
      using tier_row_length [OF store_inv_tier [OF st(1) run(3)]] st(2) length_reg_ids [OF r] that by (simp add: list_all_iff)
    from remapped_same [OF same(3) this] that show "remapped (ap_registry b1) (reg_ids ?r) x = x" by simp
  qed
  ultimately show ?thesis using rows c(3,4) s(2) by (auto simp: tier_cap_def filter_id_conv)
qed

section \<open>A restart on the card\<close>

lemma card_registry:
  obtains r c where "collector_new (ev_world card_env) metrics_registry_init = Some (r, c)" "distinct (reg_ids r)" "ids_ok r" "0 < reg_count r"
proof -
  have "case collector_new (ev_world card_env) metrics_registry_init of None \<Rightarrow> False
      | Some (r, c) \<Rightarrow> distinct (reg_ids r) \<and> list_all (\<lambda>k. length k < METRIC_ID_MAX \<and> nul \<notin> set k) (reg_ids r) \<and> 0 < reg_count r"
    by code_simp
  then show thesis using that by (auto simp: ids_ok_def list_all_iff split: option.splits)
qed

text \<open>Each start on this device finds the same metrics, the same intervals and the same file.\<close>

lemma card_opened:
  assumes new: "app_new card_env (\<lambda>_. None) None no_device demo_procs ''1'' disks = Some b"
    and run: "open_tiers card_env [0..<STORE_TIERS] (apply_all_settings card_env b) = Some (False, b1)" "core_inv (apply_all_settings card_env b)"
    and disks: "\<forall>p. progressing (disks p)" and reg: "collector_new (ev_world card_env) metrics_registry_init = Some (r, c)"
  shows "ap_registry b1 = r" "tier_interval_s (st_tiers (ap_store b1) ! 0) = max 1 (clamp (guint_param (load_parameters (\<lambda>_. None)) ''SampleInterval'') 1 10)"
    "\<exists>q. ap_persists b1 ! 0 = Some q \<and> pr_path q = open_path ''/var/spool/storage/areas/SD_DISK/root'' 0"
proof -
  let ?b = "apply_all_settings card_env b" and ?i = "clamp (guint_param (load_parameters (\<lambda>_. None)) ''SampleInterval'') 1 10"
  obtain s where s: "store_new r ?i (total_memory_bytes (ev_world card_env)) = Some s" "ap_store b = s" "ap_registry b = r" "ap_disks b = disks"
    using new reg by (auto simp: app_new_def Let_def split: bind_splits prod.splits)
  obtain s' c0 c1 c2 where "store_new r ?i (total_memory_bytes (ev_world card_env)) = Some s'"
    "st_tiers s' = [new_tier (reg_count r) 0 (max 1 ?i) c0, new_tier (reg_count r) 1 15 c1, new_tier (reg_count r) 2 300 c2]" by (rule store_new_ok)
  then have iv: "tier_interval_s (st_tiers s ! 0) = max 1 ?i" using s(1) by (simp add: new_tier_def)
  have kept: "kept_files b ?b" by (rule settings_kept(2))
  have base: "base_inv ?b" "storage_base card_env = Some ''/var/spool/storage/areas/SD_DISK/root''"
    using run(2) card_found by (simp_all add: core_inv_def storage_base_def)
  have T: "0 < STORE_TIERS" by (simp add: STORE_TIERS_def)
  have "readable base [0..<STORE_TIERS] ?b" for base using disks kept s(4) by (auto simp: readable_def kept_files_def)
  moreover have "store_rows (ap_store ?b) 0 = []" using store_new_empty [OF s(1) T] kept s(2) by (simp add: kept_files_def)
  moreover have "0 \<in> set [0..<STORE_TIERS]" using T by simp
  ultimately have o: "(\<exists>q. ap_persists b1 ! 0 = Some q \<and> pr_path q = open_path ''/var/spool/storage/areas/SD_DISK/root'' 0) \<and> ap_registry b1 = ap_registry ?b
      \<and> tier_interval_s (st_tiers (ap_store b1) ! 0) = tier_interval_s (st_tiers (ap_store ?b) ! 0)"
    using open_tiers_restores [OF run(1) base] by blast
  show "ap_registry b1 = r" "tier_interval_s (st_tiers (ap_store b1) ! 0) = max 1 ?i"
    "\<exists>q. ap_persists b1 ! 0 = Some q \<and> pr_path q = open_path ''/var/spool/storage/areas/SD_DISK/root'' 0"
    using o kept s(2,3) iv by (simp_all add: kept_files_def)
qed

text \<open>A sample taken before the restart is there after it.\<close>

theorem history_survives_restart_witness:
  "\<exists>a b b1. app_new card_env (\<lambda>_. None) None no_device demo_procs ''1'' (ap_disks (app_stop a)) = Some b
    \<and> try_open_persistence (\<lambda>_. card_env) 0 (apply_all_settings card_env b) = Some (False, b1)
    \<and> (\<exists>row. (1000, row) \<in> set (store_rows (ap_store a) 0)) \<and> store_rows (ap_store b1) 0 \<noteq> []"
proof -
  let ?d = "\<lambda>_. \<lparr>disk_file = [], disk_calls = [7, 1]\<rparr>"
  have d: "\<forall>p. progressing (?d p)" by (simp add: progressing_def)
  have T: "0 < STORE_TIERS" by (simp add: STORE_TIERS_def)
  obtain r c where r: "collector_new (ev_world card_env) metrics_registry_init = Some (r, c)" "distinct (reg_ids r)" "ids_ok r" "0 < reg_count r"
    by (rule card_registry)
  obtain r' c' where "collector_new (ev_world card_env) metrics_registry_init = Some (r', c')" "reg_ok 697 r'" using collector_new_ok by blast
  then have n: "0 < unat (reg_count r)" "unat (reg_count r) \<le> 100000" using r(1,4) by (simp_all add: reg_ok_def unat_gt_0)
  obtain b0 b1 where 1: "app_new card_env (\<lambda>_. None) None no_device demo_procs ''1'' ?d = Some b0"
    "open_tiers card_env [0..<STORE_TIERS] (apply_all_settings card_env b0) = Some (False, b1)"
    "try_open_persistence (\<lambda>_. card_env) 0 (apply_all_settings card_env b0) = Some (False, b1)"
    "core_inv (apply_all_settings card_env b0)" "running_inv b1" by (rule card_started)
  note o1 = card_opened [OF 1(1,2,4) d r(1)]
  obtain a where a: "on_sample_tick demo_library card_env b1 = Some a" "app_reachable sound ?d demo_library a" by (rule card_reachable [OF 1(1,3,5)])
  obtain q where q: "ap_persists a ! 0 = Some q" "pr_path q = open_path ''/var/spool/storage/areas/SD_DISK/root'' 0"
    using o1(3) tick_open [OF a(1)] by metis
  have "tame card_env" using card_sound by (simp add: sound_def)
  then have "ap_registry a = r" using tick_ok [OF 1(5), of card_env demo_library] a(1) o1(1) by (metis option.inject)
  note t = tick_stores [OF 1(5) card_sound a(1)]
  have "\<forall>p. progressing (ap_disks a p)" using reachable_mirror [OF a(2) d] by (simp add: mirror_inv_def files_sound_def)
  then have p: "\<forall>p. progressing (ap_disks (app_stop a) p)" by (rule stop_progress)
  obtain c0 c1 where 2: "app_new card_env (\<lambda>_. None) None no_device demo_procs ''1'' (ap_disks (app_stop a)) = Some c0"
    "open_tiers card_env [0..<STORE_TIERS] (apply_all_settings card_env c0) = Some (False, c1)"
    "try_open_persistence (\<lambda>_. card_env) 0 (apply_all_settings card_env c0) = Some (False, c1)"
    "core_inv (apply_all_settings card_env c0)" "running_inv c1" by (rule card_started)
  note o2 = card_opened [OF 2(1,2,4) p r(1)]
  obtain q1 where q1: "ap_persists c1 ! 0 = Some q1" "pr_path q1 = pr_path q" using o2(3) q(2) by metis
  have "store_rows (ap_store c1) 0 = lastn (tier_cap (st_tiers (ap_store c1) ! 0))
      (map (remapped (ap_registry c1) (reg_ids (ap_registry a))) (filter (\<lambda>r. 0 < fst r) (store_rows (ap_store a) 0)))"
    using history_survives_restart [OF a(2) d T q(1) _ _ _ 2(1,3) q1] \<open>ap_registry a = r\<close> r(2,3) n o1(2) o2(1,2) t(2) by simp
  moreover obtain row where row: "(1000, row) \<in> set (store_rows (ap_store a) 0)" using t(1) by (auto simp: card_env_def demo_env_def)
  then have "(1000, row) \<in> set (filter (\<lambda>r. 0 < fst r) (store_rows (ap_store a) 0))" by simp
  then have "length (filter (\<lambda>r. 0 < fst r) (store_rows (ap_store a) 0)) \<noteq> 0" by (metis length_0_conv list.set(1) empty_iff)
  moreover have "0 < tier_cap (st_tiers (ap_store c1) ! 0)"
    using 2(5) store_inv_tier [OF _ T, of "ap_store c1"] by (simp add: running_inv_def core_inv_def base_inv_def tier_inv_def tier_cap_def)
  ultimately have "length (store_rows (ap_store c1) 0) \<noteq> 0" by (simp only: length_lastn length_map)
  then have "store_rows (ap_store c1) 0 \<noteq> []" by (metis list.size(3))
  with 2(1,3) row show ?thesis by blast
qed

end
