(* ===== verification/AppRun.thy ===== *)
theory AppRun
  imports AppRestart Downsampling
begin

text \<open>
  A run between two openings of the history: the tiers are the abstract downsampling of the rows the
  ticks have sampled, appended to what was there.
\<close>

section \<open>The open buckets\<close>

text \<open>The intervals and the running open_sums of the tiers, which restoring and opening leave alone.\<close>

definition open_sums :: "store \<Rightarrow> guint \<times> (guint \<times> gint64 \<times> double list \<times> guint list) list" where
  "open_sums s = (st_n_metrics s, map (\<lambda>t. (tier_interval_s t, tier_acc_start t, tier_acc t, tier_acc_n t)) (st_tiers s))"

definition fresh :: "store \<Rightarrow> bool" where
  "fresh s \<longleftrightarrow> (\<exists>n iv. open_sums s = (n, [(iv, 0, [], []), (15, 0, replicate (unat n) (DFin 0), replicate (unat n) 0),
     (300, 0, replicate (unat n) (DFin 0), replicate (unat n) 0)]))"

lemma tier_append_sums: "tier_append n vs ts t = Some t' \<Longrightarrow>
    (tier_interval_s t', tier_acc_start t', tier_acc t', tier_acc_n t') = (tier_interval_s t, tier_acc_start t, tier_acc t, tier_acc_n t)"
  by (auto simp: tier_append_def split: bind_splits)

lemma restore_sums: "store_restore s i vs ts = Some s' \<Longrightarrow> open_sums s' = open_sums s"
  by (auto simp: store_restore_def open_sums_def arr_get_def map_update list_update_same_conv
      dest: tier_append_sums split: bind_splits if_splits)

lemma load_loop_sums: "load_loop h mapping start is d s i k = Some (k', s', d') \<Longrightarrow> open_sums s' = open_sums s"
proof (induction "is" arbitrary: d s k)
  case (Cons j "is")
  then show ?case
    by (auto simp: Let_def dest: restore_sums split: bind_splits option.splits prod.splits if_splits)
qed simp

lemma load_sums: "persist_load p d s i = Some (k, s', d') \<Longrightarrow> open_sums s' = open_sums s"
  by (auto simp: persist_load_def Let_def dest: load_loop_sums split: option.splits prod.splits if_splits bind_splits)

lemma callback_sums: "open_sums (store_set_tier_callback s i cb) = open_sums s"
  by (cases "i < length (st_tiers s)") (simp_all add: store_set_tier_callback_def open_sums_def map_update list_update_same_conv list_update_beyond)

lemma open_tier_sums:
  assumes "open_tier e i q a = Some a'"
  shows "open_sums (ap_store a') = open_sums (ap_store a)"
proof -
  obtain k s d p d' where 1: "(if store_tier_count (ap_store a) i = 0 then persist_load (Some q) (ap_disks a (pr_path q)) (ap_store a) i
      else Some (0, ap_store a, ap_disks a (pr_path q))) = Some (k, s, d)"
    "a' = a\<lparr>ap_store := store_set_tier_callback s i (Some i), ap_persists := (ap_persists a)[i := p], ap_disks := (ap_disks a)(pr_path q := d')\<rparr>"
    using assms by (cases "store_tier_count (ap_store a) i = 0") (auto simp: open_tier_def split: bind_splits)
  have "open_sums s = open_sums (ap_store a)"
    using 1(1) load_sums [of "Some q" "ap_disks a (pr_path q)" "ap_store a" i] by (auto split: if_splits)
  then show ?thesis by (simp add: 1(2) callback_sums)
qed

lemma close_sums: "open_sums (ap_store (close_persistence a)) = open_sums (ap_store a)"
proof -
  have tier: "open_sums (ap_store (close_tier i a)) = open_sums (ap_store a)" for i a
    by (simp add: close_tier_def callback_sums split: option.split)
  have "open_sums (ap_store (fold close_tier is a)) = open_sums (ap_store a)" for "is"
    by (induction "is" arbitrary: a) (simp_all add: tier)
  then show ?thesis by (simp add: close_persistence_def set_persist_path_def)
qed

lemma open_tiers_sums: "open_tiers e ks a = Some (again, a') \<Longrightarrow> open_sums (ap_store a') = open_sums (ap_store a)"
proof (induction ks arbitrary: a)
  case Nil
  then show ?case by (auto simp: set_persist_path_def)
next
  case (Cons k ks)
  obtain p logged where p: "persist_open (ev_statvfs e) (w_file (ev_world e) ''/proc/mounts'') (ev_mkdir e) (ev_open e)
      (ap_registry a) (st_tiers (ap_store a) ! k) (PERSIST_FILES ! k) (ap_absence_logged a) = (p, logged)" by force
  show ?case
  proof (cases p)
    case None
    then show ?thesis using Cons.prems p by (auto simp: close_sums)
  next
    case (Some q)
    then obtain a1 where "open_tier e k q (a\<lparr>ap_absence_logged := logged, ap_persists := (ap_persists a)[k := Some q]\<rparr>) = Some a1"
      "open_tiers e ks a1 = Some (again, a')" using Cons.prems p by (auto split: bind_splits)
    then show ?thesis using Cons.IH open_tier_sums by fastforce
  qed
qed

lemma store_new_fresh:
  assumes "store_new r b w = Some s"
  shows "fresh s"
proof -
  obtain s' c0 c1 c2 where "store_new r b w = Some s'" "st_n_metrics s' = reg_count r"
    "st_tiers s' = [new_tier (reg_count r) 0 (max 1 b) c0, new_tier (reg_count r) 1 15 c1, new_tier (reg_count r) 2 300 c2]" by (rule store_new_ok)
  with assms show ?thesis by (simp add: fresh_def open_sums_def new_tier_def)
qed

text \<open>However often the program rebuilds itself while it opens its history.\<close>

lemma try_open_fresh:
  assumes "try_open_persistence es n a = Some y" "fresh (ap_store a)"
  shows "fresh (ap_store (snd y))"
  using assms
proof (induction rule: try_open_persistence.raw_induct [rotated 1, consumes 1, case_names Call])
  case (Call g es n a y)
  show ?case
  proof (cases "ap_persists a ! (STORE_TIERS - 1) = None \<and> collector_mounts_changed (ev_world (es (2 * n))) (ap_collector a)")
    case True
    then obtain a1 again a2 where 1: "rebuild_start (es (2 * n + 1)) (a\<lparr>ap_retry := False\<rparr>) = Some a1" "g es (n + 1) a1 = Some (again, a2)"
      "y = (False, arm_retry again a2)" using Call.hyps by (auto split: bind_splits)
    have "fresh (ap_store a1)" using 1(1) store_new_fresh
      by (auto simp: rebuild_start_def Let_def emit_def set_persist_path_def split: bind_splits prod.splits)
    from Call.IH [OF 1(2) this] show ?thesis by (simp add: 1(3) arm_retry_def)
  next
    case False
    then have "y = (False, a) \<or> open_tiers (es (2 * n)) [0..<STORE_TIERS] a = Some y"
      using Call.hyps by (cases "ap_persists a ! (STORE_TIERS - 1)") simp_all
    then show ?thesis using Call.prems open_tiers_sums by (cases y) (auto simp: fresh_def)
  qed
qed

lemma fresh_buckets:
  assumes "fresh s"
  shows "acc_rel (unat (st_n_metrics s)) (st_tiers s ! 1) 0 []" "acc_rel (unat (st_n_metrics s)) (st_tiers s ! 2) 0 []"
    "tier_interval_s (st_tiers s ! 1) = 15" "tier_interval_s (st_tiers s ! 2) = 300"
proof -
  obtain t0 t1 t2 where t: "st_tiers s = [t0, t1, t2]" using assms by (auto simp: fresh_def open_sums_def map_eq_Cons_conv)
  with assms show "acc_rel (unat (st_n_metrics s)) (st_tiers s ! 1) 0 []" "acc_rel (unat (st_n_metrics s)) (st_tiers s ! 2) 0 []"
    "tier_interval_s (st_tiers s ! 1) = 15" "tier_interval_s (st_tiers s ! 2) = 300"
    by (auto simp: fresh_def open_sums_def acc_rel_def readings_def dsum_def)
qed

section \<open>Runs and their samples\<close>

text \<open>The rows the ticks of a run have sampled, with anything quiet in between.\<close>

inductive app_run :: "library \<Rightarrow> app \<Rightarrow> (gint64 \<times> gfloat list) list \<Rightarrow> app \<Rightarrow> bool" for lib a where
  Begin: "app_run lib a [] a"
| Sampled: "app_run lib a xs b \<Longrightarrow> tame e \<Longrightarrow> on_sample_tick lib e b = Some b' \<Longrightarrow> app_run lib a (xs @ [(ev_time e, ap_buffer b')]) b'"
| Between: "app_run lib a xs b \<Longrightarrow> quiet_step lib b b' \<Longrightarrow> app_run lib a xs b'"

lemma push_all_append: "store_push_all (xs @ ys) s = Option.bind (store_push_all xs s) (store_push_all ys)"
  by (induction xs arbitrary: s) (auto split: option.split)

text \<open>Among the steps of the program only a tick touches the store, and it pushes what it sampled.\<close>

lemma run_pushes:
  assumes "app_run lib a xs b" "running_inv a"
  shows "running_inv b" "ap_registry b = ap_registry a" "store_push_all xs (ap_store a) = Some (ap_store b)"
    "list_all (\<lambda>x. length (snd x) = unat (reg_count (ap_registry a))) xs"
  using assms(1)
proof (induction rule: app_run.induct)
  case (Sampled xs b e b')
  {
    case 1
    show ?case using tick_ok [OF Sampled.IH(1) Sampled.hyps(2), of lib] Sampled.hyps(3) by (metis option.inject)
  next
    case 2
    show ?case using tick_ok [OF Sampled.IH(1) Sampled.hyps(2), of lib] Sampled.hyps(3) Sampled.IH(2) by (metis option.inject)
  next
    case 3
    obtain c buffer s calls a1 where "collector_sample (ev_world e) (ev_mono e) (ap_registry b) (ap_collector b) (ap_buffer b) = Some (c, buffer)"
      "store_push (ap_store b) buffer (ev_time e) = Some (s, calls)"
      "on_tier_samples calls (b\<lparr>ap_collector := c, ap_buffer := buffer, ap_store := s\<rparr>) = Some a1" "ap_store a1 = s" "ap_store b' = ap_store a1"
      "ap_buffer b' = buffer" by (rule tick_parts [OF Sampled.hyps(3)])
    then show ?case using Sampled.IH(3) by (simp add: push_all_append)
  next
    case 4
    have "running_inv b'" "ap_registry b' = ap_registry a"
      using tick_ok [OF Sampled.IH(1) Sampled.hyps(2), of lib] Sampled.hyps(3) Sampled.IH(2) by (metis option.inject)+
    then have "length (ap_buffer b') = unat (reg_count (ap_registry a))" by (simp add: running_inv_def core_inv_def base_inv_def)
    with Sampled.IH(4) show ?case by simp
  }
next
  case (Between xs b b')
  have "kept_files b b'" by (rule quiet_step_kept [OF Between.hyps(2)])
  with Between.IH quiet_step_running [OF Between.hyps(2)]
  show "running_inv b'" "ap_registry b' = ap_registry a" "store_push_all xs (ap_store a) = Some (ap_store b')"
    "list_all (\<lambda>x. length (snd x) = unat (reg_count (ap_registry a))) xs" by (simp_all add: kept_files_def)
qed (use assms(2) in simp_all)

section \<open>Properties\<close>

text \<open>C5: What is kept is what was sampled. After the program has opened its history, or found no
  storage for it, any run of ticks, requests, changed settings and steps of the other threads leaves in
  the fine tier the newest of the rows it found and the rows the ticks sampled, and in the coarse tiers
  the newest of what they found and the 15-second and 5-minute means of the sampled rows.\<close>

theorem run_downsamples:
  assumes start: "app_new e get selected device procs version disks = Some b" "settled es k"
      "try_open_persistence es 0 (apply_all_settings e b) = Some (again, b1)"
    and run: "app_run lib (if again then b1\<lparr>ap_retry := True, ap_retry_sources := ap_retry_sources b1 + 1\<rparr> else b1) xs a"
      "length xs < 2 ^ 32"
  shows "store_rows (ap_store a) 0 = lastn (tier_cap (st_tiers (ap_store b1) ! 0)) (store_rows (ap_store b1) 0 @ xs)
    \<and> store_rows (ap_store a) 1 = lastn (tier_cap (st_tiers (ap_store b1) ! 1))
        (store_rows (ap_store b1) 1 @ buckets 15 (unat (reg_count (ap_registry b1))) 0 [] xs)
    \<and> store_rows (ap_store a) 2 = lastn (tier_cap (st_tiers (ap_store b1) ! 2))
        (store_rows (ap_store b1) 2 @ buckets 300 (unat (reg_count (ap_registry b1))) 0 [] xs)"
proof -
  let ?b = "apply_all_settings e b" and ?b2 = "if again then b1\<lparr>ap_retry := True, ap_retry_sources := ap_retry_sources b1 + 1\<rparr> else b1"
  obtain b' where b': "app_new e get selected device procs version disks = Some b'" "core_inv b'" "open_upto 0 b'" "\<not> ap_retry b'"
    "ap_retry_sources b' = 0" by (rule app_new_ok)
  then have b: "core_inv b" "open_upto 0 b" "\<not> ap_retry b" "ap_retry_sources b = 0" using start(1) by simp_all
  obtain again' b1' where o: "try_open_persistence es 0 ?b = Some (again', b1')"
    "running_inv (if again' then b1'\<lparr>ap_retry := True, ap_retry_sources := ap_retry_sources b1' + 1\<rparr> else b1')"
    by (rule app_start_open [OF b start(2)])
  have "again' = again" "b1' = b1" using o(1) start(3) by simp_all
  with o(2) have r: "running_inv ?b2" by (simp only:)
  have same: "ap_store ?b2 = ap_store b1" "ap_registry ?b2 = ap_registry b1" by simp_all
  note p = run_pushes [OF run(1) r, unfolded same]
  have s: "store_inv (ap_store b1)" "st_n_metrics (ap_store b1) = reg_count (ap_registry b1)"
    using r same by (simp_all add: running_inv_def core_inv_def base_inv_def split: if_splits)
  have "fresh (ap_store b)" using start(1) store_new_fresh by (auto simp: app_new_def Let_def split: bind_splits prod.splits)
  then have "fresh (ap_store ?b)" using settings_kept(2) [of b e] by (simp add: kept_files_def)
  from try_open_fresh [OF start(3) this] have "fresh (ap_store b1)" by simp
  note f = fresh_buckets [OF this, unfolded s(2)]
  have "unat (st_n_metrics (ap_store b1)) = unat (reg_count (ap_registry b1))" "length ([] :: gfloat list list) + length xs < 2 ^ 32"
    using s(2) run(2) by simp_all
  note refined = store_push_all_refines [OF s(1) this(1) p(4) f(1) this(2) f(2) this(2), unfolded f(3,4)]
  have iv: "int (unat (15 :: guint)) = 15" "int (unat (300 :: guint)) = 300" by simp_all
  show ?thesis using refined [unfolded p(3) option.inject iv] by blast
qed

theorem run_downsamples_witness:
  "\<exists>(a :: app) (b1 :: app) row row'. store_rows (ap_store a) 1 = lastn (tier_cap (st_tiers (ap_store b1) ! 1))
     (store_rows (ap_store b1) 1 @ [(1020, map (\<lambda>m. bucket_mean m [row, row']) [0..<unat (reg_count (ap_registry b1))])])"
proof -
  let ?e = "card_env\<lparr>ev_time := 1020\<rparr>"
  obtain b b1 where 1: "app_new card_env (\<lambda>_. None) None no_device demo_procs ''1'' (\<lambda>_. \<lparr>disk_file = [], disk_calls = [7, 1]\<rparr>) = Some b"
    "try_open_persistence (\<lambda>_. card_env) 0 (apply_all_settings card_env b) = Some (False, b1)" "running_inv b1" by (rule card_started)
  have e: "tame card_env" "tame ?e" using card_sound by (simp_all add: sound_def tame_def)
  obtain a1 where a1: "on_sample_tick demo_library card_env b1 = Some a1" "running_inv a1" by (rule tick_ok [OF 1(3) e(1)])
  obtain a2 where a2: "on_sample_tick demo_library ?e a1 = Some a2" by (rule tick_ok [OF a1(2) e(2)])
  have "app_run demo_library b1 ([] @ [(ev_time card_env, ap_buffer a1)]) a1" by (rule app_run.Sampled [OF app_run.Begin e(1) a1(1)])
  then have "app_run demo_library b1 (([] @ [(ev_time card_env, ap_buffer a1)]) @ [(ev_time ?e, ap_buffer a2)]) a2"
    by (rule app_run.Sampled [OF _ e(2) a2])
  then have "app_run demo_library b1 [(1000, ap_buffer a1), (1020, ap_buffer a2)] a2" by (simp add: card_env_def demo_env_def)
  then have "app_run demo_library (if False then b1\<lparr>ap_retry := True, ap_retry_sources := ap_retry_sources b1 + 1\<rparr> else b1)
      [(1000, ap_buffer a1), (1020, ap_buffer a2)] a2" by simp
  from run_downsamples [OF 1(1) _ 1(2) this] have "store_rows (ap_store a2) 1 = lastn (tier_cap (st_tiers (ap_store b1) ! 1))
      (store_rows (ap_store b1) 1 @ buckets 15 (unat (reg_count (ap_registry b1))) 0 [] [(1000, ap_buffer a1), (1020, ap_buffer a2)])"
    by (simp add: settled_def)
  also have "buckets 15 (unat (reg_count (ap_registry b1))) 0 [] [(1000, ap_buffer a1), (1020, ap_buffer a2)]
      = [(1020, map (\<lambda>m. bucket_mean m [ap_buffer a1, ap_buffer a2]) [0..<unat (reg_count (ap_registry b1))])]" by simp
  finally have rows: "store_rows (ap_store a2) 1 = lastn (tier_cap (st_tiers (ap_store b1) ! 1))
      (store_rows (ap_store b1) 1 @ [(1020, map (\<lambda>m. bucket_mean m [ap_buffer a1, ap_buffer a2]) [0..<unat (reg_count (ap_registry b1))])])" .
  show ?thesis by (rule exI [of _ a2], rule exI [of _ b1], rule exI [of _ "ap_buffer a1"], rule exI [of _ "ap_buffer a2"], rule rows)
qed

end
