(* ===== verification/Vapix.thy ===== *)
theory Vapix
  imports CString
begin

text \<open>
  \<^verbatim>\<open>app/vapix.c\<close>: requests to the camera's own web server. The credentials the bus returns, whether
  curl gives a handle, and what a transfer delivers are parameters; the answers of the requests are
  the \<open>w_vapix\<close> of the collector.
\<close>

record vapix =
  vx_handle :: bool
  vx_credentials :: "string option"

text \<open>The data is the memory behind the pointer, the terminator included; \<open>None\<close> is NULL.\<close>

record buffer =
  bf_data :: "string option"
  bf_length :: nat

text \<open>A transfer: the pieces curl hands over, whether it succeeded, and the status of the response.\<close>

record transfer_result =
  tr_chunks :: "string list"
  tr_ok :: bool
  tr_status :: int

definition VAPIX_HOST :: string where "VAPIX_HOST = ''127.0.0.12''"

definition on_data :: "string \<Rightarrow> buffer \<Rightarrow> buffer" where
  "on_data contents b = \<lparr>bf_data = Some (take (bf_length b) (case bf_data b of Some d \<Rightarrow> d | None \<Rightarrow> []) @ contents @ [nul]),
     bf_length = bf_length b + length contents\<rparr>"

text \<open>\<open>found\<close> is what the bus answers, \<open>init_ok\<close> whether \<open>curl_easy_init\<close> succeeds.\<close>

definition vapix_init :: "string option \<Rightarrow> bool \<Rightarrow> vapix" where
  "vapix_init found init_ok = \<lparr>vx_handle = (found \<noteq> None \<and> init_ok), vx_credentials = found\<rparr>"

definition vapix_available :: "vapix \<Rightarrow> bool" where
  "vapix_available v \<longleftrightarrow> vx_handle v \<and> vx_credentials v \<noteq> None"

definition vapix_url :: "string \<Rightarrow> string" where
  "vapix_url endpoint = strlcpy 512 (''http://'' @ VAPIX_HOST @ ''/axis-cgi/'' @ endpoint)"

definition vapix_get :: "(string \<Rightarrow> string option \<Rightarrow> transfer_result) \<Rightarrow> vapix \<Rightarrow> string \<Rightarrow> string option" where
  "vapix_get perform v endpoint = (if \<not> vapix_available v then None
     else let t = perform (vapix_url endpoint) (vx_credentials v);
              b = fold on_data (tr_chunks t) \<lparr>bf_data = None, bf_length = 0\<rparr> in
       if \<not> tr_ok t \<or> tr_status t \<noteq> 200 then None else bf_data b)"

definition vapix_cleanup :: "vapix \<Rightarrow> vapix" where
  "vapix_cleanup v = \<lparr>vx_handle = False, vx_credentials = None\<rparr>"

section \<open>What a request returns\<close>

lemma on_data_fold: "fold on_data chunks \<lparr>bf_data = Some (done @ [nul]), bf_length = length done\<rparr>
    = \<lparr>bf_data = Some (done @ concat chunks @ [nul]), bf_length = length (done @ concat chunks)\<rparr>"
  by (induction chunks arbitrary: "done") (simp_all add: on_data_def, metis append.assoc length_append)

text \<open>The string is the body, however the transfer was cut; a response without a body gives no string.\<close>

lemma vapix_get_joined:
  assumes "vapix_available v" "perform (vapix_url endpoint) (vx_credentials v) = t"
  shows "vapix_get perform v endpoint = (if tr_ok t \<and> tr_status t = 200 \<and> tr_chunks t \<noteq> []
    then Some (concat (tr_chunks t) @ [nul]) else None)"
proof (cases "tr_chunks t")
  case Nil
  then show ?thesis using assms by (simp add: vapix_get_def)
next
  case (Cons c cs)
  have "on_data c \<lparr>bf_data = None, bf_length = 0\<rparr> = \<lparr>bf_data = Some (c @ [nul]), bf_length = length c\<rparr>" by (simp add: on_data_def)
  then show ?thesis using assms Cons on_data_fold [of cs c] by (simp add: vapix_get_def)
qed

lemma vapix_closed: "vapix_get perform (vapix_cleanup v) endpoint = None" "vapix_get perform (vapix_init None ok) endpoint = None"
  by (simp_all add: vapix_get_def vapix_available_def vapix_cleanup_def vapix_init_def)

end
