(* ===== verification/Spec2Isabelle.thy ===== *)
theory Spec2Isabelle
  imports Downsampling PersistProps AlertsProps Query Selection ApiProps Prometheus Device SettingsProps Http Sse
    MqttProps InfluxProps ProcsProps CollectProps AppRun Vapix
begin

text \<open>
  Metrics, an application for Axis cameras and recorders (\<^verbatim>\<open>app/*.c\<close>, \<^verbatim>\<open>app/*.h\<close>). Once per interval it
  samples the device it runs on, keeps three tiers of history in memory and on an SD card or disk,
  evaluates alert rules, and hands the samples out: JSON and Prometheus documents and an event stream
  over HTTP, MQTT, and InfluxDB. One GLib event loop runs everything but the callbacks of the MQTT
  client and the worker thread of the InfluxDB writer.

  \<^bold>\<open>How the parts interact.\<close> \<^verbatim>\<open>main.c\<close> discovers the metrics (\<^verbatim>\<open>collect.c\<close> fills the registry of
  \<^verbatim>\<open>metrics.c\<close>), sizes the tiers (\<^verbatim>\<open>store.c\<close>) and looks for storage (\<^verbatim>\<open>persist.c\<close>). A tick samples
  (\<^verbatim>\<open>collector_sample\<close>), pushes the row into the store, whose tiers call back to append what they stored to
  their file, evaluates the rules (\<^verbatim>\<open>alerts.c\<close>, which notifies MQTT), broadcasts to the streams and hands
  the sample to \<^verbatim>\<open>mqtt.c\<close>, \<^verbatim>\<open>influx.c\<close> and \<^verbatim>\<open>procs.c\<close>. Requests read the registry and the store through
  \<^verbatim>\<open>api.c\<close>; forms change settings, rules and the selection (\<^verbatim>\<open>selection.c\<close>). While no storage is found a
  timer looks again, and when the mounts have changed the program rebuilds itself.

  \<^bold>\<open>Conventions.\<close> Structs are records, arrays are lists with checked accesses, and every operation that
  can leave an array, divide by zero or follow a null pointer returns an \<open>option\<close>; \<open>None\<close> is undefined
  behaviour, so a theorem with \<open>Some\<close> says that it is not reached. \<open>guint\<close>, \<open>guint32\<close> and \<open>guint64\<close> are
  words that wrap; \<open>gint64\<close> times and sums of them are integers, and \<open>in_gint64\<close> states their range where
  it matters. A float is its 32 bits, a double is exact up to rounding in binary64. \<open>unsigned long\<close> and
  \<open>long\<close> have 64 bits, as on aarch64. Allocation does not fail, because GLib aborts. Whatever is not under
  \<^verbatim>\<open>src/\<close> is a parameter: the files below \<^verbatim>\<open>/proc\<close> and \<^verbatim>\<open>/sys\<close>, the answers of the camera, \<open>statvfs\<close>,
  the clock and the event system (the records \<open>world\<close> and \<open>env\<close>), the number formats, \<open>g_ascii_strtod\<close>,
  \<open>qsort\<close> and the walk through a hash table (\<open>library\<close>), and the transfers of a disk (\<open>disk\<close>: each call
  moves at most the given number of bytes, 0 fails). Calls to the outside are outputs in order.

  \<^bold>\<open>Foundations.\<close> \<open>Prelude\<close>: the C types, checked arrays, ring indices, and the locale \<open>bounded_log\<close>, a log
  cut to its capacity; the tiers (\<open>Store\<close>) and the files (\<open>PersistLog\<close>) interpret it. \<open>Floats\<close>: IEEE
  arithmetic with monotone rounding. \<open>CString\<close>, \<open>Scanf\<close>: the string functions and \<open>scanf\<close> conversions.
  \<open>FileIO\<close>: bytes, little-endian integers, partial reads and writes. \<open>Json\<close>: a reader, trees, and the
  locale \<open>json_escaping\<close>, interpreted by the three ways the program quotes text.

  \<^bold>\<open>Registry and store.\<close> \<open>Metrics\<close> is \<^verbatim>\<open>metrics.c\<close>; its locale \<open>id_lookup\<close> is what the users of
  \<open>metrics_find\<close> rely on. \<open>Store\<close> is \<^verbatim>\<open>store.c\<close>: sizing, push, the coarse tiers, series, restoring.
  \<open>Downsampling\<close> gives the specification: the tiers hold the newest rows, and the means of the buckets
  that an abstract function on lists computes, between the smallest and largest reading; what a series
  returns; the memory budget.

  \<^bold>\<open>History files.\<close> \<open>Storage\<close> chooses the mount; \<open>Persist\<close> is the rest of \<^verbatim>\<open>persist.c\<close> on bytes.
  \<open>PersistLog\<close>: appending refines the bounded log. \<open>PersistLoad\<close>: loading is safe on any bytes, and what
  it restores. \<open>PersistSync\<close>: laying out, filling (\<open>sync_loop\<close> has as fuel one more than the samples it
  copies), closing, and the state after a crash. \<open>PersistProps\<close>: round trip, crash order, foreign files.

  \<^bold>\<open>Collector.\<close> \<open>Collect\<close> (discovery) and \<open>Sample\<close> (readings, slow sources) are \<^verbatim>\<open>collect.c\<close>, \<open>Vapix\<close> is
  \<^verbatim>\<open>vapix.c\<close>. \<open>CollectProps\<close>: every index stays inside its array on any device; usage is a percentage;
  what a counter that runs backwards does. \<open>Procs\<close>, \<open>ProcsProps\<close>: the process table against a
  specification by lookups.

  \<^bold>\<open>Rules, selection, documents.\<close> \<open>Alerts\<close>, \<open>AlertsProps\<close>: when a rule fires, that each change is notified
  once, the rules file. \<open>Selection\<close>, \<open>Query\<close>: round trips. \<open>Api\<close>, \<open>ApiProps\<close>, \<open>Prometheus\<close>, \<open>Device\<close>: the
  documents parse back to the values they show. \<open>Settings\<close>, \<open>SettingsProps\<close>: forms, and no secret shown.

  \<^bold>\<open>Outputs.\<close> \<open>Http\<close>: how a request arrives does not matter. \<open>Sse\<close>: streams do not disturb each other.
  \<open>Mqtt\<close>, \<open>MqttProps\<close>: the calls to the client are in order over all runs (\<open>mqtt_step\<close>). \<open>Influx\<close>,
  \<open>InfluxProps\<close>: each payload is released once however the threads interleave (\<open>influx_step\<close>), the
  shutdown ends, the line reads back.

  \<^bold>\<open>The program.\<close> \<open>App\<close> is the rest of \<^verbatim>\<open>main.c\<close>: settings, history life, tick, requests, start and stop.
  \<open>app_step\<close> and \<open>app_reachable\<close> (\<open>AppProps\<close>) are the runs of the program, with any order of ticks,
  retries, requests, parameter changes and steps of the other threads. \<open>try_open_persistence\<close> and the
  rebuild call each other without a bound in the code, so it is a \<open>partial_function\<close>; it returns as soon
  as two readings of the mount table in a row agree (\<open>settled\<close>). \<open>AppHistory\<close> keeps the invariant of the
  files, callbacks and reported path on any disk. \<open>AppProps\<close> joins it with the invariants of the
  components and shows that the program starts, ticks and answers without undefined behaviour.
  \<open>AppMirror\<close>: on disks that make progress each open file holds the samples of its tier at all times.
  \<open>AppRestart\<close>: what a run leaves in the files is what the next run finds in its tiers.
  \<open>AppRun\<close>: between two openings of the history the tiers are the downsampling of what the ticks sampled.
  The hypotheses on the environment are \<open>tame\<close> (no answer of the camera ends in the name of a sensor, and
  a process has text behind its name), \<open>sound\<close> (also, files can be extended and the clock is in range)
  and \<open>short_id\<close> (no new rule id of 48 characters); what happens without the first and the last is
  among the findings.

  \<^bold>\<open>Not modelled.\<close> Freeing memory, logging, the GLib objects around sockets, timers and signals
  (\<open>start_http_server\<close> binds two ports, \<open>on_terminate\<close> ends the loop, a failing \<open>ax_parameter_new\<close> ends the
  program), the D-Bus call of \<open>fetch_credentials\<close>, messages received over MQTT (they are discarded), the
  options curl is given, and mutual exclusion (every operation of the store holds its lock throughout, so
  the model has them atomic). The web page is JavaScript; the host tests exercise what the theorems state.
\<close>

end
